(* ===== verification/Bolt_Prelude.thy ===== *)
theory Bolt_Prelude
  imports Main "HOL-Library.Word" "HOL-Library.Monad_Syntax"
begin

text \<open>
  What every component shares: bytes and byte lists, the error values of the packages
  under src/sofabolt, Go's big-endian integer codecs (package encoding/binary), writes
  into a slice (\<open>put_at\<close>, \<open>copy_at\<close>) with Go's bounds checks, and the collections
  of rewrite rules the component proofs use.

  A run-time panic of the Go program is \<open>None\<close>; an error value that a function returns
  is an element of the datatype \<open>go_error\<close>.
\<close>

unbundle bit_operations_syntax

type_synonym byte = "8 word"
type_synonym bytes = "8 word list"

text \<open>
  The error values: first those of src/sofabolt/sofabolt.go, then those of the
  simplemap and buffer packages, the duplicated-write and dialer errors created with
  \<open>errors.New\<close>, the standard library's end-of-file errors, and \<open>ErrOther\<close> for any error an
  \<open>io.Reader\<close>, \<open>net.Conn\<close> or handler of the caller produces.
\<close>

datatype go_error =
    ErrBufferNotEnough
  | ErrMalformedProto
  | ErrMalformedType
  | ErrServerHandler
  | ErrServerNotARequest
  | ErrClientExpectResponse
  | ErrClientTimeout
  | ErrClientNotARequest
  | ErrClientWasClosed
  | ErrClientTooManyRequests
  | ErrClientServerTimeout
  | ErrClientDisableRedial
  | ErrClientNilConnection
  | ErrNotEnough
  | ErrSimleMapKeyFailed
  | ErrSimleMapValueFailed
  | ErrDuplicatedWrite
  | ErrRequestIDOverflow
  | ErrNilDialer
  | ErrEOF
  | ErrUnexpectedEOF
  | ErrOther nat

named_theorems go_slice \<open>reads and writes of slices at known positions\<close>
named_theorems go_len \<open>lengths of the byte lists the encoders build\<close>

subsection \<open>Big-endian integers (encoding/binary)\<close>

definition be16 :: "16 word \<Rightarrow> bytes" where
  "be16 v = [ucast (drop_bit 8 v), ucast v]"

definition be32 :: "32 word \<Rightarrow> bytes" where
  "be32 v = [ucast (drop_bit 24 v), ucast (drop_bit 16 v), ucast (drop_bit 8 v), ucast v]"

definition be64 :: "64 word \<Rightarrow> bytes" where
  "be64 v = [ucast (drop_bit 56 v), ucast (drop_bit 48 v), ucast (drop_bit 40 v),
     ucast (drop_bit 32 v), ucast (drop_bit 24 v), ucast (drop_bit 16 v),
     ucast (drop_bit 8 v), ucast v]"

definition dec16 :: "byte \<Rightarrow> byte \<Rightarrow> 16 word" where
  "dec16 b0 b1 = ucast b1 OR push_bit 8 (ucast b0)"

definition dec32 :: "byte \<Rightarrow> byte \<Rightarrow> byte \<Rightarrow> byte \<Rightarrow> 32 word" where
  "dec32 b0 b1 b2 b3 =
     ucast b3 OR push_bit 8 (ucast b2) OR push_bit 16 (ucast b1) OR push_bit 24 (ucast b0)"

definition dec64 ::
  "byte \<Rightarrow> byte \<Rightarrow> byte \<Rightarrow> byte \<Rightarrow> byte \<Rightarrow> byte \<Rightarrow> byte \<Rightarrow> byte \<Rightarrow> 64 word" where
  "dec64 b0 b1 b2 b3 b4 b5 b6 b7 =
     ucast b7 OR push_bit 8 (ucast b6) OR push_bit 16 (ucast b5) OR push_bit 24 (ucast b4) OR
     push_bit 32 (ucast b3) OR push_bit 40 (ucast b2) OR push_bit 48 (ucast b1) OR
     push_bit 56 (ucast b0)"

text \<open>Reads at a fixed offset of an array or slice that is known to be long enough.\<close>

definition u16_at :: "nat \<Rightarrow> bytes \<Rightarrow> 16 word" where
  "u16_at i b = dec16 (b ! i) (b ! (i + 1))"

definition u32_at :: "nat \<Rightarrow> bytes \<Rightarrow> 32 word" where
  "u32_at i b = dec32 (b ! i) (b ! (i + 1)) (b ! (i + 2)) (b ! (i + 3))"

lemma length_be16 [simp, go_len]: "length (be16 v) = 2"
  by (simp add: be16_def)

lemma length_be32 [simp, go_len]: "length (be32 v) = 4"
  by (simp add: be32_def)

lemma length_be64 [simp, go_len]: "length (be64 v) = 8"
  by (simp add: be64_def)

lemma byte_bit_out [simp]: "8 \<le> n \<Longrightarrow> \<not> bit (b :: byte) n"
  by (auto dest: bit_imp_le_length)

lemma dec16_be16 [simp]:
  "dec16 (ucast (drop_bit 8 v)) (ucast v) = v"
proof (rule bit_word_eqI)
  fix n assume "n < LENGTH(16)"
  then consider "n < 8" | "8 \<le> n" "n < 16" by fastforce
  then show "bit (dec16 (ucast (drop_bit 8 v)) (ucast v)) n = bit v n"
    by cases (simp_all add: dec16_def bit_simps less_diff_conv2)
qed

lemma dec32_be32 [simp]:
  "dec32 (ucast (drop_bit 24 v)) (ucast (drop_bit 16 v)) (ucast (drop_bit 8 v)) (ucast v) = v"
  (is "?w = v")
proof (rule bit_word_eqI)
  fix n assume "n < LENGTH(32)"
  then consider "n < 8" | "8 \<le> n" "n < 16" | "16 \<le> n" "n < 24" | "24 \<le> n" "n < 32"
    by fastforce
  then show "bit ?w n = bit v n"
    by cases (simp_all add: dec32_def bit_simps less_diff_conv2)
qed

lemma dec64_be64 [simp]:
  "dec64 (ucast (drop_bit 56 v)) (ucast (drop_bit 48 v)) (ucast (drop_bit 40 v))
     (ucast (drop_bit 32 v)) (ucast (drop_bit 24 v)) (ucast (drop_bit 16 v))
     (ucast (drop_bit 8 v)) (ucast v) = v"
  (is "?w = v")
proof (rule bit_word_eqI)
  fix n assume "n < LENGTH(64)"
  then consider "n < 8" | "8 \<le> n" "n < 16" | "16 \<le> n" "n < 24" | "24 \<le> n" "n < 32"
    | "32 \<le> n" "n < 40" | "40 \<le> n" "n < 48" | "48 \<le> n" "n < 56" | "56 \<le> n" "n < 64"
    by fastforce
  then show "bit ?w n = bit v n"
    by cases (simp_all add: dec64_def bit_simps less_diff_conv2)
qed

lemma be16_dec16 [simp]: "be16 (dec16 a b) = [a, b]"
  unfolding be16_def dec16_def by (auto intro!: bit_word_eqI simp: bit_simps)

lemma be32_dec32 [simp]: "be32 (dec32 a b c d) = [a, b, c, d]"
  unfolding be32_def dec32_def by (auto intro!: bit_word_eqI simp: bit_simps)

lemma u16_at_be16: "length xs = i \<Longrightarrow> u16_at i (xs @ be16 v @ ys) = v"
  by (simp add: u16_at_def be16_def nth_append)

lemma u32_at_be32: "length xs = i \<Longrightarrow> u32_at i (xs @ be32 v @ ys) = v"
  by (simp add: u32_at_def be32_def nth_append)

lemma be32_inject [simp]: "be32 v = be32 w \<longleftrightarrow> v = w"
  by (metis append_Nil list.size(3) u32_at_be32)

subsection \<open>Lengths as machine words\<close>

text \<open>\<open>uint16(n)\<close>, \<open>uint32(n)\<close> and \<open>byte(n)\<close> of an \<open>int\<close> length truncate.\<close>

abbreviation len16 :: "nat \<Rightarrow> 16 word" where "len16 n \<equiv> word_of_nat n"
abbreviation len32 :: "nat \<Rightarrow> 32 word" where "len32 n \<equiv> word_of_nat n"
abbreviation len8 :: "nat \<Rightarrow> 8 word" where "len8 n \<equiv> word_of_nat n"

lemma unat_len16 [simp]: "n < 65536 \<Longrightarrow> unat (len16 n) = n"
  by (simp add: unat_of_nat take_bit_nat_eq_self)

lemma unat_len32 [simp]: "n < 4294967296 \<Longrightarrow> unat (len32 n) = n"
  by (simp add: unat_of_nat take_bit_nat_eq_self)

lemma unat_len8 [simp]: "n < 256 \<Longrightarrow> unat (len8 n) = n"
  by (simp add: unat_of_nat take_bit_nat_eq_self)

lemma unat8_less [simp]: "unat (w :: 8 word) < 256"
  using unsigned_less [of w, where ?'a = nat] by simp

lemma unat16_less [simp]: "unat (w :: 16 word) < 65536"
  using unsigned_less [of w, where ?'a = nat] by simp

lemma unat32_less [simp]: "unat (w :: 32 word) < 4294967296"
  using unsigned_less [of w, where ?'a = nat] by simp

subsection \<open>Writes into a slice\<close>

text \<open>
  \<open>put_at i src b\<close> is a write of all of \<open>src\<close> at index \<open>i\<close> of the slice \<open>b\<close>: an indexed
  assignment \<open>b[i] = x\<close> when \<open>src\<close> is one byte, \<open>binary.BigEndian.PutUintN(b[i:], v)\<close> when
  it is the encoding of \<open>v\<close>. Both panic when the slice is too short.

  \<open>copy_at lo hi src b\<close> is \<open>copy(b[lo:hi], src)\<close>: slicing panics out of range, the copy
  moves as many bytes as fit.
\<close>

definition put_at :: "nat \<Rightarrow> bytes \<Rightarrow> bytes \<Rightarrow> bytes option" where
  "put_at i src b =
     (if i + length src \<le> length b
      then Some (take i b @ src @ drop (i + length src) b) else None)"

definition copy_at :: "nat \<Rightarrow> nat \<Rightarrow> bytes \<Rightarrow> bytes \<Rightarrow> bytes option" where
  "copy_at lo hi src b =
     (if lo \<le> hi \<and> hi \<le> length b
      then let k = min (hi - lo) (length src)
           in Some (take lo b @ take k src @ drop (lo + k) b)
      else None)"

lemma length_put_at: "put_at i src b = Some b' \<Longrightarrow> length b' = length b"
  by (auto simp: put_at_def split: if_splits)

lemma length_copy_at: "copy_at lo hi src b = Some b' \<Longrightarrow> length b' = length b"
  by (auto simp: copy_at_def Let_def split: if_splits)

text \<open>
  A slice being filled from the left: \<open>filled xs ys\<close> has \<open>xs\<close> written and \<open>ys\<close>
  still to be overwritten. Keeping the two parts apart lets the simplifier run a whole
  encoder.
\<close>

definition filled :: "bytes \<Rightarrow> bytes \<Rightarrow> bytes" where
  "filled xs ys = xs @ ys"

lemma filled_start: "b = filled [] b"
  by (simp add: filled_def)

lemma filled_done [simp]: "filled xs [] = xs"
  by (simp add: filled_def)

lemma length_filled [simp, go_len]: "length (filled xs ys) = length xs + length ys"
  by (simp add: filled_def)

lemma put_at_filled [go_slice]:
  "i = length xs \<Longrightarrow> length src \<le> length ys \<Longrightarrow>
   put_at i src (filled xs ys) = Some (filled (xs @ src) (drop (length src) ys))"
  by (simp add: put_at_def filled_def)

lemma copy_at_filled [go_slice]:
  "lo = length xs \<Longrightarrow> length src \<le> hi - lo \<Longrightarrow> lo \<le> hi \<Longrightarrow> hi \<le> length xs + length ys \<Longrightarrow>
   copy_at lo hi src (filled xs ys) = Some (filled (xs @ src) (drop (length src) ys))"
  by (simp add: copy_at_def filled_def Let_def min_def)

subsection \<open>Strings as bytes\<close>

text \<open>The bytes of an ASCII string constant of the source.\<close>

definition str_bytes :: "string \<Rightarrow> bytes" where
  "str_bytes s = map (\<lambda>c. of_char c) s"

lemma length_str_bytes [simp, go_len]: "length (str_bytes s) = length s"
  by (simp add: str_bytes_def)

end
