(* ===== verification/Go_Buffer.thy ===== *)
theory Go_Buffer
  imports Bolt_Prelude
begin

text \<open>
  src/sofabolt/simplemap/buffer/buffer.go: a cursor over a byte slice, used to parse and
  to write the header block of a command.

  A Go slice is a window of an array. \<open>buf_data\<close> holds the \<open>len\<close> bytes of the window and
  \<open>buf_spare\<close> the bytes of the array from \<open>len\<close> to \<open>cap\<close>: indexing is checked against
  \<open>len\<close>, but the upper bound of a slice expression is checked against \<open>cap\<close>, so
  \<open>MustPutBytes\<close>, \<open>MustRef\<close>, \<open>MustCopy\<close> and \<open>MustTake\<close> reach into the spare bytes
  where Go lets them. A \<open>Must\<close> operation that panics is \<open>None\<close>; positions and sizes are the
  non-negative values the package's callers use.
\<close>

record buffer =
  buf_pos :: nat
  buf_data :: bytes
  buf_spare :: bytes

definition buf_new :: "bytes \<Rightarrow> bytes \<Rightarrow> buffer" where
  "buf_new data spare = \<lparr>buf_pos = 0, buf_data = data, buf_spare = spare\<rparr>"

definition buf_whole :: "buffer \<Rightarrow> bytes" where
  "buf_whole b = buf_data b @ buf_spare b"

definition Remain :: "buffer \<Rightarrow> int" where
  "Remain b = int (length (buf_data b)) - int (buf_pos b)"

definition Check :: "nat \<Rightarrow> buffer \<Rightarrow> bool" where
  "Check sz b \<longleftrightarrow> buf_pos b + sz \<le> length (buf_data b)"

definition Gap :: "buffer \<Rightarrow> nat" where
  "Gap b = length (buf_spare b)"

text \<open>
  \<open>append\<close> writes into the spare bytes when they suffice and moves to a larger, zeroed array
  otherwise; \<open>grow old needed\<close> is the capacity the runtime chooses, which the language leaves
  open.
\<close>

definition Append :: "(nat \<Rightarrow> nat \<Rightarrow> nat) \<Rightarrow> bytes \<Rightarrow> buffer \<Rightarrow> buffer" where
  "Append grow d b =
     (let n = length (buf_data b) + length d
      in b\<lparr>buf_data := buf_data b @ d,
           buf_spare := (if length d \<le> length (buf_spare b) then drop (length d) (buf_spare b)
                         else replicate (grow (length (buf_whole b)) n - n) 0)\<rparr>)"

definition CapTo :: "(nat \<Rightarrow> nat \<Rightarrow> nat) \<Rightarrow> nat \<Rightarrow> buffer \<Rightarrow> buffer" where
  "CapTo grow sz b = Append grow (replicate sz 0) b"

definition Peek :: "nat \<Rightarrow> buffer \<Rightarrow> byte option" where
  "Peek i b = (if buf_pos b + i < length (buf_data b) then Some (buf_data b ! (buf_pos b + i))
               else None)"

text \<open>The slice expression \<open>b.data[b.pos : b.pos+size]\<close>.\<close>

definition buf_window :: "nat \<Rightarrow> buffer \<Rightarrow> bytes option" where
  "buf_window sz b =
     (if buf_pos b + sz \<le> length (buf_whole b)
      then Some (take sz (drop (buf_pos b) (buf_whole b))) else None)"

definition MustAppend :: "nat \<Rightarrow> bytes \<Rightarrow> buffer \<Rightarrow> (bytes \<times> buffer) option" where
  "MustAppend sz data b =
     (case buf_window sz b of
        None \<Rightarrow> None
      | Some w \<Rightarrow> Some (data @ w, b\<lparr>buf_pos := buf_pos b + sz\<rparr>))"

definition MustTake :: "bytes \<Rightarrow> buffer \<Rightarrow> (bytes \<times> buffer) option" where
  "MustTake dst b =
     (case buf_window (length dst) b of None \<Rightarrow> None | Some w \<Rightarrow> Some (w, b))"

definition MustCopy :: "nat \<Rightarrow> bytes \<Rightarrow> buffer \<Rightarrow> (bytes \<times> buffer) option" where
  "MustCopy sz bp b =
     (case buf_window sz b of
        None \<Rightarrow> None
      | Some w \<Rightarrow>
          let k = min (length bp) sz
          in Some (take k w @ drop k bp, b\<lparr>buf_pos := buf_pos b + sz\<rparr>))"

definition MustRef :: "nat \<Rightarrow> buffer \<Rightarrow> (bytes \<times> buffer) option" where
  "MustRef sz b =
     (case buf_window sz b of
        None \<Rightarrow> None
      | Some w \<Rightarrow> Some (w, b\<lparr>buf_pos := buf_pos b + sz\<rparr>))"

text \<open>Reads of integers: the slice \<open>b.data[b.pos:]\<close> ends at \<open>len\<close>.\<close>

definition buf_rest :: "nat \<Rightarrow> buffer \<Rightarrow> bytes option" where
  "buf_rest n b =
     (if buf_pos b + n \<le> length (buf_data b) then Some (drop (buf_pos b) (buf_data b)) else None)"

definition MustUint8 :: "buffer \<Rightarrow> (byte \<times> buffer) option" where
  "MustUint8 b = map_option (\<lambda>d. (d ! 0, b\<lparr>buf_pos := buf_pos b + 1\<rparr>)) (buf_rest 1 b)"

definition MustUint16 :: "buffer \<Rightarrow> (16 word \<times> buffer) option" where
  "MustUint16 b = map_option (\<lambda>d. (u16_at 0 d, b\<lparr>buf_pos := buf_pos b + 2\<rparr>)) (buf_rest 2 b)"

definition MustUint32 :: "buffer \<Rightarrow> (32 word \<times> buffer) option" where
  "MustUint32 b = map_option (\<lambda>d. (u32_at 0 d, b\<lparr>buf_pos := buf_pos b + 4\<rparr>)) (buf_rest 4 b)"

definition MustUint64 :: "buffer \<Rightarrow> (64 word \<times> buffer) option" where
  "MustUint64 b =
     map_option (\<lambda>d. (dec64 (d ! 0) (d ! 1) (d ! 2) (d ! 3) (d ! 4) (d ! 5) (d ! 6) (d ! 7),
                      b\<lparr>buf_pos := buf_pos b + 8\<rparr>)) (buf_rest 8 b)"

text \<open>The checked reads: an error instead of a panic.\<close>

definition Uint8 :: "buffer \<Rightarrow> ((go_error + byte) \<times> buffer) option" where
  "Uint8 b =
     (if \<not> Check 1 b then Some (Inl ErrNotEnough, b)
      else map_option (\<lambda>(v, b). (Inr v, b)) (MustUint8 b))"

definition Uint32 :: "buffer \<Rightarrow> ((go_error + 32 word) \<times> buffer) option" where
  "Uint32 b =
     (if \<not> Check 4 b then Some (Inl ErrNotEnough, b)
      else map_option (\<lambda>(v, b). (Inr v, b)) (MustUint32 b))"

definition Uint32String :: "buffer \<Rightarrow> ((go_error + bytes) \<times> buffer) option" where
  "Uint32String b =
     (if \<not> Check 4 b then Some (Inl ErrNotEnough, b)
      else case MustUint32 b of
        None \<Rightarrow> None
      | Some (u32, b) \<Rightarrow>
          if \<not> Check (unat u32) b then Some (Inl ErrNotEnough, b)
          else map_option (\<lambda>(d, b). (Inr d, b)) (MustRef (unat u32) b))"

text \<open>
  Writes. \<open>buf_store src b\<close> overwrites the array from the cursor on and advances; the guards of
  the callers decide how far it may reach.
\<close>

definition buf_store :: "bytes \<Rightarrow> buffer \<Rightarrow> buffer" where
  "buf_store src b =
     (let w = take (buf_pos b) (buf_whole b) @ src @ drop (buf_pos b + length src) (buf_whole b);
          n = length (buf_data b)
      in \<lparr>buf_pos = buf_pos b + length src, buf_data = take n w, buf_spare = drop n w\<rparr>)"

definition buf_put :: "bytes \<Rightarrow> buffer \<Rightarrow> buffer option" where
  "buf_put src b =
     (if buf_pos b + length src \<le> length (buf_data b) then Some (buf_store src b) else None)"

definition MustPutUint8 :: "byte \<Rightarrow> buffer \<Rightarrow> buffer option" where
  "MustPutUint8 u8 = buf_put [u8]"

definition MustPutUint16 :: "16 word \<Rightarrow> buffer \<Rightarrow> buffer option" where
  "MustPutUint16 u16 = buf_put (be16 u16)"

definition MustPutUint32 :: "32 word \<Rightarrow> buffer \<Rightarrow> buffer option" where
  "MustPutUint32 u32 = buf_put (be32 u32)"

definition MustPutUint64 :: "64 word \<Rightarrow> buffer \<Rightarrow> buffer option" where
  "MustPutUint64 u64 = buf_put (be64 u64)"

definition MustPutBytes :: "bytes \<Rightarrow> buffer \<Rightarrow> buffer option" where
  "MustPutBytes data b =
     (if buf_pos b + length data \<le> length (buf_whole b) then Some (buf_store data b) else None)"

definition MustPutUint32String :: "bytes \<Rightarrow> buffer \<Rightarrow> buffer option" where
  "MustPutUint32String s b = MustPutUint32 (len32 (length s)) b \<bind> MustPutBytes s"

definition MustSkip :: "nat \<Rightarrow> buffer \<Rightarrow> buffer" where
  "MustSkip n b = b\<lparr>buf_pos := buf_pos b + n\<rparr>"

subsection \<open>The invariant of the cursor\<close>

text \<open>The cursor is inside the window. Every checked operation keeps it.\<close>

definition buf_wf :: "buffer \<Rightarrow> bool" where
  "buf_wf b \<longleftrightarrow> buf_pos b \<le> length (buf_data b)"

lemma buf_wf_new [simp]: "buf_wf (buf_new d s)"
  by (simp add: buf_wf_def buf_new_def)

lemma Uint32String_cases:
  "(\<exists>e b'. Uint32String b = Some (Inl e, b')) \<or>
   (\<exists>k b'. Uint32String b = Some (Inr k, b') \<and>
      buf_pos b' = buf_pos b + 4 + length k \<and> buf_pos b' \<le> length (buf_data b) \<and>
      buf_data b' = buf_data b \<and> buf_spare b' = buf_spare b)"
  by (auto simp: Uint32String_def Check_def MustUint32_def buf_rest_def MustRef_def
      buf_window_def buf_whole_def)

lemma Uint32_cases:
  "(\<exists>e b'. Uint32 b = Some (Inl e, b')) \<or>
   (\<exists>u. Uint32 b = Some (Inr u, b\<lparr>buf_pos := buf_pos b + 4\<rparr>) \<and>
      buf_pos b + 4 \<le> length (buf_data b))"
  by (auto simp: Uint32_def Check_def MustUint32_def buf_rest_def)

lemma MustRef_checked:
  "Check n b \<Longrightarrow>
   MustRef n b = Some (take n (drop (buf_pos b) (buf_data b)), b\<lparr>buf_pos := buf_pos b + n\<rparr>)"
  by (simp add: MustRef_def buf_window_def Check_def buf_whole_def)

lemma Uint8_total: "Uint8 b \<noteq> None"
  by (simp add: Uint8_def MustUint8_def buf_rest_def Check_def)

lemma Uint32_total: "Uint32 b \<noteq> None"
  using Uint32_cases [of b] by auto

lemma Uint32String_total: "Uint32String b \<noteq> None"
  using Uint32String_cases [of b] by auto

subsection \<open>Writing and reading back\<close>

text \<open>
  A buffer whose first \<open>length xs\<close> bytes have been written: the next write appends to
  \<open>xs\<close>, and the whole encoder runs by these equations.
\<close>

definition buf_at :: "bytes \<Rightarrow> bytes \<Rightarrow> bytes \<Rightarrow> buffer" where
  "buf_at xs ys sp = \<lparr>buf_pos = length xs, buf_data = xs @ ys, buf_spare = sp\<rparr>"

lemma buf_new_at: "buf_new d s = buf_at [] d s"
  by (simp add: buf_new_def buf_at_def)

lemma buf_at_sel [simp]:
  "buf_pos (buf_at xs ys sp) = length xs"
  "buf_data (buf_at xs ys sp) = xs @ ys"
  "buf_spare (buf_at xs ys sp) = sp"
  by (simp_all add: buf_at_def)

lemma buf_store_at:
  "length src \<le> length ys \<Longrightarrow>
   buf_store src (buf_at xs ys sp) = buf_at (xs @ src) (drop (length src) ys) sp"
  by (simp add: buf_store_def buf_at_def buf_whole_def Let_def)

lemma buf_whole_split: "buf_whole \<lparr>buf_pos = p, buf_data = take n w, buf_spare = drop n w\<rparr> = w"
  by (simp add: buf_whole_def)

lemma buf_store_end:
  "buf_pos b + length src \<le> length (buf_whole b) \<Longrightarrow>
   buf_pos (buf_store src b) = buf_pos b + length src \<and>
   length (buf_whole (buf_store src b)) = length (buf_whole b)"
proof -
  have "buf_whole (buf_store src b) =
      take (buf_pos b) (buf_whole b) @ src @ drop (buf_pos b + length src) (buf_whole b)"
    by (simp only: buf_store_def Let_def buf_whole_split)
  then show "buf_pos b + length src \<le> length (buf_whole b) \<Longrightarrow> ?thesis"
    by (simp add: buf_store_def Let_def)
qed

lemma buf_put_at:
  "length src \<le> length ys \<Longrightarrow>
   buf_put src (buf_at xs ys sp) = Some (buf_at (xs @ src) (drop (length src) ys) sp)"
  by (simp add: buf_put_def buf_store_at)

lemma MustPutBytes_at:
  "length src \<le> length ys \<Longrightarrow>
   MustPutBytes src (buf_at xs ys sp) = Some (buf_at (xs @ src) (drop (length src) ys) sp)"
  by (simp add: MustPutBytes_def buf_whole_def buf_store_at)

text \<open>The wire form of a length-prefixed string.\<close>

definition u32str :: "bytes \<Rightarrow> bytes" where
  "u32str s = be32 (len32 (length s)) @ s"

lemma length_u32str [simp, go_len]: "length (u32str s) = 4 + length s"
  by (simp add: u32str_def)

lemma MustPutUint32String_at [go_slice]:
  "4 + length s \<le> length ys \<Longrightarrow>
   MustPutUint32String s (buf_at xs ys sp)
     = Some (buf_at (xs @ u32str s) (drop (4 + length s) ys) sp)"
  by (simp add: MustPutUint32String_def MustPutUint32_def buf_put_at MustPutBytes_at u32str_def
      add.commute)

text \<open>Where a successful write leaves the cursor.\<close>

lemma MustPutUint32String_end:
  assumes "MustPutUint32String s b = Some b'"
  shows "buf_pos b' = buf_pos b + (4 + length s) \<and>
    length (buf_whole b') = length (buf_whole b) \<and> buf_pos b' \<le> length (buf_whole b')"
proof -
  let ?b1 = "buf_store (be32 (len32 (length s))) b"
  from assms have p: "buf_pos b + 4 \<le> length (buf_data b)"
    and q: "buf_pos ?b1 + length s \<le> length (buf_whole ?b1)" and b': "b' = buf_store s ?b1"
    by (auto simp: MustPutUint32String_def MustPutUint32_def buf_put_def MustPutBytes_def
        split: if_splits)
  from p have "buf_pos b + length (be32 (len32 (length s))) \<le> length (buf_whole b)"
    by (simp add: buf_whole_def)
  from buf_store_end [OF this] buf_store_end [OF q] q show ?thesis by (simp add: b')
qed

lemma MustUint32_at [go_slice]:
  "MustUint32 (buf_at xs (be32 v @ ys) sp) = Some (v, buf_at (xs @ be32 v) ys sp)"
  using u32_at_be32 [of "[]" 0 v ys]
  by (simp add: MustUint32_def buf_rest_def buf_at_def)

lemma MustRef_at:
  "n = length s \<Longrightarrow>
   MustRef n (buf_at xs (s @ ys) sp) = Some (s, buf_at (xs @ s) ys sp)"
  by (simp add: MustRef_checked Check_def buf_at_def)

lemma Uint32_at [go_slice]:
  "Uint32 (buf_at xs (be32 v @ ys) sp) = Some (Inr v, buf_at (xs @ be32 v) ys sp)"
  by (simp add: Uint32_def Check_def MustUint32_at)

lemma Uint32String_at [go_slice]:
  "length s < 4294967296 \<Longrightarrow>
   Uint32String (buf_at xs (u32str s @ ys) sp) = Some (Inr s, buf_at (xs @ u32str s) ys sp)"
  by (simp add: Uint32String_def u32str_def Check_def MustUint32_at MustRef_at)

end
