(* ===== verification/Simple_Map.thy ===== *)
theory Simple_Map
  imports Go_Buffer
begin

text \<open>
  src/sofabolt/simplemap/fastsimplemap/fast_simplemap.go: the header map of a command. Four
  well-known headers have a field of their own, all others are kept in the slice \<open>kvs\<close>
  in order of insertion. \<open>Encode\<close> and \<open>Decode\<close> are the wire form of the header block.

  This theory follows the contents of the map: a byte slice is its list of bytes, and nil and
  empty slices, which every operation treats alike, are both the empty list. That the slots of
  \<open>kvs\<close> own their byte arrays is what makes this view of \<open>set\<close> correct; the theory
  \<open>Simple_Map_Store\<close> keeps the arrays explicit and shows when it is.
\<close>

definition StrHost :: bytes where "StrHost = str_bytes ''host''"
definition StrContentType :: bytes where "StrContentType = str_bytes ''content-type''"
definition StrService :: bytes where "StrService = str_bytes ''service''"
definition StrAuthorization :: bytes where "StrAuthorization = str_bytes ''authorization''"

lemma length_Str [simp, go_len]:
  "length StrHost = 4" "length StrContentType = 12"
  "length StrService = 7" "length StrAuthorization = 13"
  by (simp_all add: StrHost_def StrContentType_def StrService_def StrAuthorization_def)

lemma Str_distinct [simp]:
  "StrHost \<noteq> StrContentType" "StrHost \<noteq> StrService" "StrHost \<noteq> StrAuthorization"
  "StrContentType \<noteq> StrHost" "StrContentType \<noteq> StrService" "StrContentType \<noteq> StrAuthorization"
  "StrService \<noteq> StrHost" "StrService \<noteq> StrContentType" "StrService \<noteq> StrAuthorization"
  "StrAuthorization \<noteq> StrHost" "StrAuthorization \<noteq> StrContentType"
  "StrAuthorization \<noteq> StrService"
  by (auto dest: arg_cong [where f = length])

record simple_map =
  sm_authorization :: bytes
  sm_service :: bytes
  sm_host :: bytes
  sm_contentType :: bytes
  sm_kvs :: "(bytes \<times> bytes) list"
  sm_raw :: bytes

definition sm_New :: simple_map where
  "sm_New = \<lparr>sm_authorization = [], sm_service = [], sm_host = [], sm_contentType = [],
             sm_kvs = [], sm_raw = []\<rparr>"

definition sm_Reset :: "simple_map \<Rightarrow> simple_map" where
  "sm_Reset m = m\<lparr>sm_authorization := [], sm_service := [], sm_host := [], sm_contentType := [],
                  sm_kvs := []\<rparr>"

definition sm_kv_size :: "bytes \<times> bytes \<Rightarrow> nat" where
  "sm_kv_size kv = 4 + length (fst kv) + 4 + length (snd kv)"

definition sm_GetEncodeSize :: "simple_map \<Rightarrow> nat" where
  "sm_GetEncodeSize m =
     (let l = 0;
          l = (if length (sm_service m) > 0
               then l + (4 + length StrService + 4 + length (sm_service m)) else l);
          l = (if length (sm_host m) > 0
               then l + (4 + length StrHost + 4 + length (sm_host m)) else l);
          l = (if length (sm_contentType m) > 0
               then l + (4 + length StrContentType + 4 + length (sm_contentType m)) else l);
          l = (if length (sm_authorization m) > 0
               then l + (4 + length StrAuthorization) + 4 + length (sm_authorization m) else l)
      in fold (\<lambda>kv l. l + sm_kv_size kv) (sm_kvs m) l)"

definition sm_CopyTo :: "simple_map \<Rightarrow> simple_map \<Rightarrow> simple_map" where
  "sm_CopyTo m dst = dst\<lparr>sm_host := sm_host m, sm_service := sm_service m,
     sm_contentType := sm_contentType m, sm_authorization := sm_authorization m,
     sm_kvs := sm_kvs m\<rparr>"

text \<open>One guarded write of \<open>Encode\<close>: a well-known header is written when it is not empty.\<close>

definition sm_put_kv :: "bytes \<Rightarrow> bytes \<Rightarrow> buffer \<Rightarrow> buffer option" where
  "sm_put_kv k v b = MustPutUint32String k b \<bind> MustPutUint32String v"

fun sm_put_kvs :: "(bytes \<times> bytes) list \<Rightarrow> buffer \<Rightarrow> buffer option" where
  "sm_put_kvs [] b = Some b"
| "sm_put_kvs ((k, v) # kvs) b = sm_put_kv k v b \<bind> sm_put_kvs kvs"

text \<open>\<open>Encode(data)\<close>: the returned position and the slice written to (with its spare bytes).\<close>

definition sm_Encode :: "simple_map \<Rightarrow> bytes \<Rightarrow> bytes \<Rightarrow> (nat \<times> bytes \<times> bytes) option" where
  "sm_Encode m data spare = do {
     let b = buf_new data spare;
     b \<leftarrow> (if length (sm_service m) > 0 then sm_put_kv StrService (sm_service m) b else Some b);
     b \<leftarrow> (if length (sm_host m) > 0 then sm_put_kv StrHost (sm_host m) b else Some b);
     b \<leftarrow> (if length (sm_contentType m) > 0
           then sm_put_kv StrContentType (sm_contentType m) b else Some b);
     b \<leftarrow> (if length (sm_authorization m) > 0
           then sm_put_kv StrAuthorization (sm_authorization m) b else Some b);
     b \<leftarrow> sm_put_kvs (sm_kvs m) b;
     Some (buf_pos b, buf_data b, buf_spare b)
   }"

definition kv_Equal :: "bytes \<times> bytes \<Rightarrow> bytes \<times> bytes \<Rightarrow> bool" where
  "kv_Equal k dst = (if fst k \<noteq> fst dst then False else if snd k \<noteq> snd dst then False else True)"

definition sm_Equal :: "simple_map \<Rightarrow> simple_map \<Rightarrow> bool" where
  "sm_Equal m dst =
     (if length (sm_kvs m) \<noteq> length (sm_kvs dst) then False
      else if sm_host m \<noteq> sm_host dst then False
      else if sm_service m \<noteq> sm_service dst then False
      else if sm_contentType m \<noteq> sm_contentType dst then False
      else if sm_authorization m \<noteq> sm_authorization dst then False
      else list_all2 kv_Equal (sm_kvs m) (sm_kvs dst))"

lemma kv_Equal_eq: "kv_Equal = (=)"
  by (auto simp: kv_Equal_def fun_eq_iff prod_eq_iff)

text \<open>
  The default case of \<open>set\<close>: overwrite the first entry with the key, or use a new slot at
  the end.
\<close>

fun sm_set_kvs :: "bytes \<Rightarrow> bytes \<Rightarrow> (bytes \<times> bytes) list \<Rightarrow> (bytes \<times> bytes) list" where
  "sm_set_kvs k v [] = [(k, v)]"
| "sm_set_kvs k v ((k', v') # kvs) =
     (if k' = k then (k', v) # kvs else (k', v') # sm_set_kvs k v kvs)"

definition sm_set :: "bytes \<Rightarrow> bytes \<Rightarrow> simple_map \<Rightarrow> simple_map" where
  "sm_set k v m =
     (if k = StrHost then m\<lparr>sm_host := v\<rparr>
      else if k = StrContentType then m\<lparr>sm_contentType := v\<rparr>
      else if k = StrService then m\<lparr>sm_service := v\<rparr>
      else if k = StrAuthorization then m\<lparr>sm_authorization := v\<rparr>
      else m\<lparr>sm_kvs := sm_set_kvs k v (sm_kvs m)\<rparr>)"

fun sm_get_kvs :: "bytes \<Rightarrow> (bytes \<times> bytes) list \<Rightarrow> bytes" where
  "sm_get_kvs k [] = []"
| "sm_get_kvs k ((k', v') # kvs) = (if k' = k then v' else sm_get_kvs k kvs)"

definition sm_get :: "bytes \<Rightarrow> simple_map \<Rightarrow> bytes" where
  "sm_get k m =
     (if k = StrHost then sm_host m
      else if k = StrContentType then sm_contentType m
      else if k = StrService then sm_service m
      else if k = StrAuthorization then sm_authorization m
      else sm_get_kvs k (sm_kvs m))"

text \<open>
  The loop of \<open>del\<close> keeps counting after a removal, so it does not look at the entry that moved
  into the freed place.
\<close>

function sm_del_kvs :: "bytes \<Rightarrow> nat \<Rightarrow> (bytes \<times> bytes) list \<Rightarrow> (bytes \<times> bytes) list" where
  "sm_del_kvs k i kvs =
     (if i < length kvs
      then sm_del_kvs k (i + 1)
             (if fst (kvs ! i) = k then take i kvs @ drop (i + 1) kvs else kvs)
      else kvs)"
  by pat_completeness auto
termination
  by (relation "measure (\<lambda>(k, i, kvs). length kvs - i)") auto

declare sm_del_kvs.simps [simp del]

definition sm_del :: "bytes \<Rightarrow> simple_map \<Rightarrow> simple_map" where
  "sm_del k m =
     (if k = StrHost then m\<lparr>sm_host := []\<rparr>
      else if k = StrContentType then m\<lparr>sm_contentType := []\<rparr>
      else if k = StrService then m\<lparr>sm_service := []\<rparr>
      else if k = StrAuthorization then m\<lparr>sm_authorization := []\<rparr>
      else m\<lparr>sm_kvs := sm_del_kvs k 0 (sm_kvs m)\<rparr>)"

text \<open>\<open>Range\<close> as the list of calls it makes; \<open>Dump\<close> and \<open>String\<close> print the same entries.\<close>

definition sm_Range :: "simple_map \<Rightarrow> (bytes \<times> bytes) list" where
  "sm_Range m =
     (if length (sm_service m) > 0 then [(StrService, sm_service m)] else []) @
     (if length (sm_host m) > 0 then [(StrHost, sm_host m)] else []) @
     (if length (sm_contentType m) > 0 then [(StrContentType, sm_contentType m)] else []) @
     (if length (sm_authorization m) > 0 then [(StrAuthorization, sm_authorization m)] else []) @
     sm_kvs m"

definition sm_Dump :: "bytes \<Rightarrow> simple_map \<Rightarrow> bytes" where
  "sm_Dump sep m =
     (let entry = (\<lambda>k v. k @ str_bytes '':'' @ v @ sep) in
      (if length (sm_service m) > 0 then entry StrService (sm_service m) else []) @
      (if length (sm_host m) > 0 then entry StrHost (sm_host m) else []) @
      (if length (sm_contentType m) > 0 then entry StrContentType (sm_contentType m) else []) @
      (if length (sm_authorization m) > 0
       then entry StrAuthorization (sm_authorization m) else []) @
      concat (map (\<lambda>(k, v). entry k v) (sm_kvs m)))"

definition sm_String :: "simple_map \<Rightarrow> bytes" where
  "sm_String m = sm_Dump (str_bytes ''&'') m"

subsection \<open>Decode\<close>

text \<open>
  The parsing loop: \<open>l\<close> counts down the bytes of the block that are left, \<open>b\<close> is the cursor.
  Each round reads at least the length of a key, so the cursor advances and the loop ends; the
  checks of the buffer decide the errors. The result is the error and the map as far as it was
  filled, \<open>None\<close> would be a panic.
\<close>

function sm_decode_loop ::
  "int \<Rightarrow> buffer \<Rightarrow> simple_map \<Rightarrow> (go_error option \<times> simple_map) option" where
  "sm_decode_loop l b m =
     (if l = 0 then Some (None, m)
      else case Uint32String b of
        None \<Rightarrow> None
      | Some (Inl e, b1) \<Rightarrow> Some (Some ErrSimleMapKeyFailed, m)
      | Some (Inr k, b1) \<Rightarrow>
         (case Uint32 b1 of
            None \<Rightarrow> None
          | Some (Inl e, b2) \<Rightarrow> Some (Some ErrSimleMapValueFailed, m)
          | Some (Inr u32, b2) \<Rightarrow>
              if u32 = 4294967295 then
                sm_decode_loop (l - 4 - int (length k) - 4) b2 (sm_set k [] m)
              else if u32 = 0 then
                sm_decode_loop (l - 4 - int (length k) - 4) b2 (sm_set k [] m)
              else if \<not> Check (unat u32) b2 then Some (Some ErrSimleMapValueFailed, m)
              else (case MustRef (unat u32) b2 of
                      None \<Rightarrow> None
                    | Some (v, b3) \<Rightarrow>
                        sm_decode_loop (l - 4 - int (length k) - 4 - int (length v)) b3
                          (sm_set k v m))))"
  by pat_completeness auto
termination
proof (relation "measure (\<lambda>(l, b, m). length (buf_data b) - buf_pos b)", goal_cases)
  case 1 show ?case by simp
next
  case (2 l b m x p q k y r t u32)
  then show ?case using Uint32String_cases [of b] Uint32_cases [of q] by auto
next
  case (3 l b m x p q k y r t u32)
  then show ?case using Uint32String_cases [of b] Uint32_cases [of q] by auto
next
  case (4 l b m x p q k y r t u32 z v w)
  then show ?case using Uint32String_cases [of b] Uint32_cases [of q]
    by (auto simp: MustRef_checked)
qed

declare sm_decode_loop.simps [simp del]

definition sm_Decode :: "bytes \<Rightarrow> simple_map \<Rightarrow> (go_error option \<times> simple_map) option" where
  "sm_Decode data m =
     sm_decode_loop (int (length data)) (buf_new data []) (m\<lparr>sm_raw := data\<rparr>)"

subsection \<open>The invariant and the map laws\<close>

text \<open>
  The entries of \<open>kvs\<close> have distinct keys, and none of the well-known ones: \<open>set\<close> sends
  those to their fields.
\<close>

definition sm_special :: "bytes set" where
  "sm_special = {StrHost, StrContentType, StrService, StrAuthorization}"

definition sm_wf :: "simple_map \<Rightarrow> bool" where
  "sm_wf m \<longleftrightarrow> distinct (map fst (sm_kvs m)) \<and> sm_special \<inter> fst ` set (sm_kvs m) = {}"

lemma sm_specialD:
  "k \<notin> sm_special \<Longrightarrow>
   k \<noteq> StrHost \<and> k \<noteq> StrContentType \<and> k \<noteq> StrService \<and> k \<noteq> StrAuthorization"
  by (auto simp: sm_special_def)

lemma keys_set_kvs:
  "map fst (sm_set_kvs k v kvs) =
     (if k \<in> fst ` set kvs then map fst kvs else map fst kvs @ [k])"
  by (induction kvs) (auto, force)

lemma sm_get_set_kvs [simp]:
  "sm_get_kvs k' (sm_set_kvs k v kvs) = (if k' = k then v else sm_get_kvs k' kvs)"
  by (induction kvs) auto

lemma sm_set_kvs_fresh:
  "k \<notin> fst ` set kvs \<Longrightarrow> sm_set_kvs k v kvs = kvs @ [(k, v)]"
  by (induction kvs) auto

lemma sm_get_kvs_absent: "k \<notin> fst ` set kvs \<Longrightarrow> sm_get_kvs k kvs = []"
  by (induction kvs) auto

lemma sm_del_kvs_absent:
  "k \<notin> fst ` set (drop i kvs) \<Longrightarrow> sm_del_kvs k i kvs = kvs"
proof (induction k i kvs rule: sm_del_kvs.induct)
  case (1 k i kvs)
  show ?case
  proof (cases "i < length kvs")
    case True
    then have d: "drop i kvs = kvs ! i # drop (Suc i) kvs"
      by (simp add: Cons_nth_drop_Suc)
    with "1.prems" have "fst (kvs ! i) \<noteq> k" and "k \<notin> fst ` set (drop (i + 1) kvs)"
      by auto
    with True "1.IH" show ?thesis by (simp add: sm_del_kvs.simps [of k i kvs])
  qed (simp add: sm_del_kvs.simps [of k i kvs])
qed

lemma sm_del_kvs_from:
  "distinct (map fst kvs) \<Longrightarrow>
   sm_del_kvs k i kvs = take i kvs @ filter (\<lambda>e. fst e \<noteq> k) (drop i kvs)"
proof (induction k i kvs rule: sm_del_kvs.induct)
  case (1 k i kvs)
  show ?case
  proof (cases "i < length kvs")
    case True
    then have d: "drop i kvs = kvs ! i # drop (Suc i) kvs"
      by (simp add: Cons_nth_drop_Suc)
    show ?thesis
    proof (cases "fst (kvs ! i) = k")
      case hit: True
      have "distinct (map fst (take i kvs @ kvs ! i # drop (Suc i) kvs))"
        using "1.prems" d by (metis append_take_drop_id)
      with hit have new: "k \<notin> fst ` set (drop (Suc i) kvs)" by auto
      then have "filter (\<lambda>e. fst e \<noteq> k) (drop (Suc i) kvs) = drop (Suc i) kvs"
        by (force simp: filter_id_conv)
      moreover have "k \<notin> fst ` set (drop (i + 1) (take i kvs @ drop (i + 1) kvs))"
        using new True set_drop_subset [of 1 "drop (Suc i) kvs"] by (auto simp: min_def)
      ultimately show ?thesis
        using True hit d by (simp add: sm_del_kvs.simps [of k i kvs] sm_del_kvs_absent)
    next
      case miss: False
      with True "1.IH" "1.prems" d show ?thesis
        by (simp add: sm_del_kvs.simps [of k i kvs] take_Suc_conv_app_nth)
    qed
  qed (simp add: sm_del_kvs.simps [of k i kvs])
qed

lemma sm_del_kvs_filter:
  "distinct (map fst kvs) \<Longrightarrow> sm_del_kvs k 0 kvs = filter (\<lambda>e. fst e \<noteq> k) kvs"
  by (simp add: sm_del_kvs_from)

lemma sm_get_kvs_filter:
  "sm_get_kvs k' (filter (\<lambda>e. fst e \<noteq> k) kvs) = (if k' = k then [] else sm_get_kvs k' kvs)"
  by (induction kvs) auto

lemma sm_wf_New [simp, intro]: "sm_wf sm_New"
  by (simp add: sm_wf_def sm_New_def)

lemma sm_wf_Reset [simp, intro]: "sm_wf (sm_Reset m)"
  by (simp add: sm_wf_def sm_Reset_def)

lemma sm_wf_raw [simp]: "sm_wf (m\<lparr>sm_raw := d\<rparr>) = sm_wf m"
  by (simp add: sm_wf_def)

lemma sm_wf_set [simp, intro]: "sm_wf m \<Longrightarrow> sm_wf (sm_set k v m)"
proof -
  assume wf: "sm_wf m"
  show ?thesis
  proof (cases "k \<in> sm_special")
    case True
    with wf show ?thesis by (auto simp: sm_wf_def sm_set_def sm_special_def)
  next
    case False
    let ?kvs = "sm_set_kvs k v (sm_kvs m)"
    from False sm_specialD [OF False] have s: "sm_set k v m = m\<lparr>sm_kvs := ?kvs\<rparr>"
      by (simp add: sm_set_def)
    have "fst ` set ?kvs = set (map fst ?kvs)" by simp
    also have "\<dots> \<subseteq> insert k (fst ` set (sm_kvs m))" by (auto simp: keys_set_kvs)
    finally show ?thesis using wf False by (auto simp: s sm_wf_def keys_set_kvs)
  qed
qed

lemma sm_wf_del [simp, intro]: "sm_wf m \<Longrightarrow> sm_wf (sm_del k m)"
  by (auto simp: sm_wf_def sm_del_def sm_del_kvs_filter distinct_map_filter)

lemma sm_wf_CopyTo [simp, intro]: "sm_wf m \<Longrightarrow> sm_wf (sm_CopyTo m dst)"
  by (simp add: sm_wf_def sm_CopyTo_def)

lemma sm_get_New [simp]: "sm_get k sm_New = []"
  by (simp add: sm_get_def sm_New_def)

lemma sm_get_Reset [simp]: "sm_get k (sm_Reset m) = []"
  by (simp add: sm_get_def sm_Reset_def)

lemma sm_get_raw [simp]: "sm_get k (m\<lparr>sm_raw := d\<rparr>) = sm_get k m"
  by (simp add: sm_get_def)

lemma sm_get_set [simp]: "sm_get k' (sm_set k v m) = (if k' = k then v else sm_get k' m)"
  by (auto simp: sm_get_def sm_set_def)

lemma sm_get_del:
  "sm_wf m \<Longrightarrow> sm_get k' (sm_del k m) = (if k' = k then [] else sm_get k' m)"
  by (auto simp: sm_get_def sm_del_def sm_wf_def sm_del_kvs_filter sm_get_kvs_filter)

lemma sm_get_CopyTo [simp]: "sm_get k (sm_CopyTo m dst) = sm_get k m"
  by (simp add: sm_get_def sm_CopyTo_def)

lemma sm_set_raw: "sm_set k v (m\<lparr>sm_raw := d\<rparr>) = (sm_set k v m)\<lparr>sm_raw := d\<rparr>"
  by (simp add: sm_set_def)

lemma sm_Equal_iff:
  "sm_Equal m m' \<longleftrightarrow> sm_host m = sm_host m' \<and> sm_service m = sm_service m' \<and>
     sm_contentType m = sm_contentType m' \<and> sm_authorization m = sm_authorization m' \<and>
     sm_kvs m = sm_kvs m'"
  by (cases m; cases m') (auto simp: sm_Equal_def kv_Equal_eq list.rel_eq)

subsection \<open>The wire form\<close>

text \<open>
  The reference form of the header block: the entries of \<open>Range\<close>, each key and value preceded
  by its length.
\<close>

fun wire_kv :: "bytes \<times> bytes \<Rightarrow> bytes" where
  "wire_kv (k, v) = u32str k @ u32str v"

definition wire_kvs :: "(bytes \<times> bytes) list \<Rightarrow> bytes" where
  "wire_kvs es = concat (map wire_kv es)"

definition sm_wire :: "simple_map \<Rightarrow> bytes" where
  "sm_wire m = wire_kvs (sm_Range m)"

lemma wire_kvs_simps [simp]:
  "wire_kvs [] = []"
  "wire_kvs ((k, v) # es) = u32str k @ u32str v @ wire_kvs es"
  "wire_kvs (xs @ ys) = wire_kvs xs @ wire_kvs ys"
  by (simp_all add: wire_kvs_def)

lemma fold_kv_size: "fold (\<lambda>kv l. l + sm_kv_size kv) es n = n + length (wire_kvs es)"
  by (induction es arbitrary: n) (auto simp: sm_kv_size_def)

lemma sm_GetEncodeSize_wire: "sm_GetEncodeSize m = length (sm_wire m)"
  by (simp add: sm_GetEncodeSize_def sm_wire_def sm_Range_def fold_kv_size Let_def)

lemma sm_put_kv_at [go_slice]:
  "8 + length k + length v \<le> length ys \<Longrightarrow>
   sm_put_kv k v (buf_at xs ys sp) =
     Some (buf_at (xs @ wire_kv (k, v)) (drop (length (wire_kv (k, v))) ys) sp)"
  by (simp add: sm_put_kv_def go_slice add.commute add.left_commute)

lemma sm_put_kvs_at [go_slice]:
  "length (wire_kvs es) \<le> length ys \<Longrightarrow>
   sm_put_kvs es (buf_at xs ys sp) =
     Some (buf_at (xs @ wire_kvs es) (drop (length (wire_kvs es)) ys) sp)"
proof (induction es arbitrary: xs ys)
  case Nil
  then show ?case by simp
next
  case (Cons e es)
  obtain k v where e: "e = (k, v)" by (cases e)
  with Cons.prems have l: "8 + length k + length v \<le> length ys" by simp
  have "length (wire_kvs es) \<le> length (drop (length (wire_kv (k, v))) ys)"
    using Cons.prems e by simp
  from Cons.IH [OF this] show ?case
    by (simp add: e sm_put_kv_at [OF l] add.commute add.left_commute)
qed

text \<open>\<open>Encode\<close> writes the entries of \<open>Range\<close>, in its order.\<close>

lemma sm_put_kvs_append:
  "sm_put_kvs (xs @ ys) b = sm_put_kvs xs b \<bind> sm_put_kvs ys"
proof (induction xs arbitrary: b)
  case (Cons e xs)
  then show ?case by (cases e) (simp add: Option.bind_assoc cong: Option.bind_cong)
qed simp

lemma sm_put_opt:
  "(if 0 < length v then sm_put_kv k v b else Some b) =
   sm_put_kvs (if 0 < length v then [(k, v)] else []) b"
  by (auto split: bind_split)

lemma sm_Encode_Range:
  "sm_Encode m data spare =
     sm_put_kvs (sm_Range m) (buf_new data spare) \<bind>
       (\<lambda>b. Some (buf_pos b, buf_data b, buf_spare b))"
  unfolding sm_Encode_def Let_def sm_put_opt sm_Range_def sm_put_kvs_append
  by (simp only: Option.bind_assoc)

lemma sm_Encode_wire:
  "length (sm_wire m) \<le> length data \<Longrightarrow>
   sm_Encode m data spare =
     Some (length (sm_wire m), sm_wire m @ drop (length (sm_wire m)) data, spare)"
  unfolding sm_Encode_Range buf_new_at sm_wire_def by (simp add: sm_put_kvs_at)

subsection \<open>Parsing what was encoded\<close>

text \<open>
  The lengths the wire format can carry: a 32-bit length, of which the largest value stands for
  a null string when it is the length of a value.
\<close>

definition kv_fits :: "bytes \<times> bytes \<Rightarrow> bool" where
  "kv_fits kv \<longleftrightarrow> length (fst kv) < 4294967296 \<and> length (snd kv) < 4294967295"

definition sm_fits :: "simple_map \<Rightarrow> bool" where
  "sm_fits m \<longleftrightarrow> list_all kv_fits (sm_Range m)"

lemma len32_not_max: "n < 4294967295 \<Longrightarrow> len32 n \<noteq> 4294967295"
proof
  assume n: "n < 4294967295" and e: "len32 n = 4294967295"
  from e have "unat (len32 n) = unat (4294967295 :: 32 word)" by simp
  with n show False by simp
qed

lemma len32_zero: "n < 4294967296 \<Longrightarrow> len32 n = 0 \<longleftrightarrow> n = 0"
proof
  assume n: "n < 4294967296" and "len32 n = 0"
  then have "unat (len32 n) = 0" by simp
  with n show "n = 0" by simp
qed simp

lemma sm_decode_loop_wire:
  "list_all kv_fits es \<Longrightarrow>
   sm_decode_loop (int (length (wire_kvs es))) (buf_at xs (wire_kvs es) sp) m =
     Some (None, fold (\<lambda>(k, v). sm_set k v) es m)"
proof (induction es arbitrary: xs m)
  case Nil
  then show ?case by (simp add: sm_decode_loop.simps)
next
  case (Cons e es)
  obtain k v where e: "e = (k, v)" by (cases e)
  with Cons.prems have k: "length k < 4294967296" and v: "length v < 4294967295"
    and es: "list_all kv_fits es" by (auto simp: kv_fits_def list_all_iff)
  let ?w = "wire_kvs es"
  have l0: "int (length (wire_kvs (e # es))) \<noteq> 0" using e by simp
  have rd: "Uint32 (buf_at (xs @ u32str k) (u32str v @ ?w) sp) =
      Some (Inr (len32 (length v)), buf_at (xs @ u32str k @ be32 (len32 (length v))) (v @ ?w) sp)"
    by (simp add: u32str_def Uint32_at)
  show ?case
  proof (cases "v = []")
    case True
    have "sm_decode_loop (int (length (wire_kvs (e # es)))) (buf_at xs (wire_kvs (e # es)) sp) m =
        sm_decode_loop (int (length ?w))
          (buf_at (xs @ u32str k @ be32 (len32 (length v))) ?w sp) (sm_set k [] m)"
      using l0 e k rd True by (subst sm_decode_loop.simps) (simp add: Uint32String_at)
    also have "\<dots> = Some (None, fold (\<lambda>(k, v). sm_set k v) es (sm_set k [] m))"
      using es by (rule Cons.IH)
    finally show ?thesis by (simp add: e True)
  next
    case False
    with v have nz: "len32 (length v) \<noteq> 0" "len32 (length v) \<noteq> 4294967295"
      by (simp_all add: len32_zero len32_not_max)
    have "sm_decode_loop (int (length (wire_kvs (e # es)))) (buf_at xs (wire_kvs (e # es)) sp) m =
        sm_decode_loop (int (length ?w))
          (buf_at (xs @ u32str k @ be32 (len32 (length v)) @ v) ?w sp) (sm_set k v m)"
      using l0 e k v rd nz
      by (subst sm_decode_loop.simps) (simp add: Uint32String_at MustRef_at Check_def)
    also have "\<dots> = Some (None, fold (\<lambda>(k, v). sm_set k v) es (sm_set k v m))"
      using es by (rule Cons.IH)
    finally show ?thesis by (simp add: e)
  qed
qed

lemma sm_Decode_wire:
  "list_all kv_fits es \<Longrightarrow>
   sm_Decode (wire_kvs es) m =
     Some (None, fold (\<lambda>(k, v). sm_set k v) es (m\<lparr>sm_raw := wire_kvs es\<rparr>))"
  unfolding sm_Decode_def buf_new_at by (rule sm_decode_loop_wire)

lemma fold_set_fresh:
  "distinct (map fst es) \<Longrightarrow> fst ` set es \<inter> (sm_special \<union> fst ` set (sm_kvs m)) = {} \<Longrightarrow>
   fold (\<lambda>(k, v). sm_set k v) es m = m\<lparr>sm_kvs := sm_kvs m @ es\<rparr>"
proof (induction es arbitrary: m)
  case Nil
  then show ?case by simp
next
  case (Cons e es)
  obtain k v where e: "e = (k, v)" by (cases e)
  with Cons.prems have k: "k \<notin> sm_special" "k \<notin> fst ` set (sm_kvs m)" by auto
  then have s: "sm_set k v m = m\<lparr>sm_kvs := sm_kvs m @ [(k, v)]\<rparr>"
    using sm_specialD [OF k(1)] by (simp add: sm_set_def sm_set_kvs_fresh)
  have "fold (\<lambda>(k, v). sm_set k v) es (sm_set k v m) =
      (sm_set k v m)\<lparr>sm_kvs := sm_kvs (sm_set k v m) @ es\<rparr>"
    by (rule Cons.IH) (use Cons.prems e in \<open>auto simp: s\<close>)
  then show ?case by (simp add: e s)
qed

lemma sm_set_special:
  "sm_set StrHost v m = m\<lparr>sm_host := v\<rparr>"
  "sm_set StrContentType v m = m\<lparr>sm_contentType := v\<rparr>"
  "sm_set StrService v m = m\<lparr>sm_service := v\<rparr>"
  "sm_set StrAuthorization v m = m\<lparr>sm_authorization := v\<rparr>"
  by (simp_all add: sm_set_def)

lemma fold_set_Range:
  assumes "sm_wf m"
  shows "fold (\<lambda>(k, v). sm_set k v) (sm_Range m) ((sm_Reset m0)\<lparr>sm_raw := d\<rparr>) = m\<lparr>sm_raw := d\<rparr>"
proof -
  let ?n = "(sm_Reset m0)\<lparr>sm_raw := d, sm_service := sm_service m, sm_host := sm_host m,
    sm_contentType := sm_contentType m, sm_authorization := sm_authorization m\<rparr>"
  have "fold (\<lambda>(k, v). sm_set k v) (sm_Range m) ((sm_Reset m0)\<lparr>sm_raw := d\<rparr>) =
      fold (\<lambda>(k, v). sm_set k v) (sm_kvs m) ?n"
    by (cases m0) (simp add: sm_Range_def sm_set_special sm_Reset_def)
  also have "\<dots> = ?n\<lparr>sm_kvs := sm_kvs m\<rparr>"
    by (subst fold_set_fresh) (use assms in \<open>auto simp: sm_wf_def sm_Reset_def\<close>)
  also have "\<dots> = m\<lparr>sm_raw := d\<rparr>"
    by (cases m0; cases m) (simp add: sm_Reset_def)
  finally show ?thesis .
qed

lemma sm_Decode_sm_wire:
  assumes "sm_wf m" and "sm_fits m"
  shows "sm_Decode (sm_wire m) (sm_Reset m0) = Some (None, m\<lparr>sm_raw := sm_wire m\<rparr>)"
  using assms sm_Decode_wire [of "sm_Range m" "sm_Reset m0"]
    fold_set_Range [of m "sm_wire m" m0]
  by (simp add: sm_wire_def sm_fits_def)

lemma sm_New_Reset: "sm_New = sm_Reset sm_New"
  by (simp add: sm_New_def sm_Reset_def)

subsection \<open>Entries that fit the wire format\<close>

lemma Range_set_subset:
  "set (sm_Range (sm_set k v m)) \<subseteq> insert (k, v) (set (sm_Range m))"
proof -
  have "set (sm_set_kvs k v kvs) \<subseteq> insert (k, v) (set kvs)" for kvs
    by (induction kvs) (auto split: if_splits)
  then show ?thesis by (auto simp: sm_Range_def sm_set_def split: if_splits)
qed

lemma sm_fits_set [intro]: "sm_fits m \<Longrightarrow> kv_fits (k, v) \<Longrightarrow> sm_fits (sm_set k v m)"
  unfolding sm_fits_def list_all_iff using Range_set_subset [of k v m] by blast

lemma sm_fits_New [simp]: "sm_fits sm_New"
  by (simp add: sm_fits_def sm_Range_def sm_New_def)

lemma sm_fits_Reset [simp]: "sm_fits (sm_Reset m)"
  by (simp add: sm_fits_def sm_Range_def sm_Reset_def)

lemma sm_fits_raw [simp]: "sm_fits (m\<lparr>sm_raw := d\<rparr>) = sm_fits m"
  by (simp add: sm_fits_def sm_Range_def)

lemma u32_not_max: "u \<noteq> 4294967295 \<Longrightarrow> unat (u :: 32 word) < 4294967295"
proof -
  assume "u \<noteq> 4294967295"
  then have "unat u \<noteq> unat (4294967295 :: 32 word)" by (metis word_unat_eq_iff)
  then have "unat u \<noteq> 4294967295" by simp
  with unat32_less [of u] show ?thesis by linarith
qed

subsection \<open>The header block as a grammar\<close>

text \<open>
  What a header block means, without cursor or countdown: entries one after the other, and an
  error at the first place where a length does not fit in what is left. A value whose length
  field is the largest 32-bit number is a null string and has no bytes.
\<close>

definition value_len :: "32 word \<Rightarrow> nat" where
  "value_len u = (if u = 4294967295 then 0 else unat u)"

function kv_parse :: "bytes \<Rightarrow> (bytes \<times> bytes) list \<times> go_error option" where
  "kv_parse d =
     (if d = [] then ([], None)
      else if length d < 4 then ([], Some ErrSimleMapKeyFailed)
      else let n = unat (u32_at 0 d) in
        if length d < 4 + n then ([], Some ErrSimleMapKeyFailed)
        else if length d < 4 + n + 4 then ([], Some ErrSimleMapValueFailed)
        else let u = value_len (u32_at 0 (drop (4 + n) d)) in
          if length d < 4 + n + 4 + u then ([], Some ErrSimleMapValueFailed)
          else let (es, e) = kv_parse (drop (4 + n + 4 + u) d)
               in ((take n (drop 4 d), take u (drop (4 + n + 4) d)) # es, e))"
  by pat_completeness auto
termination
  by (relation "measure length") auto

declare kv_parse.simps [simp del]

lemma Uint32String_buf_at:
  "length ys < 4 \<Longrightarrow> Uint32String (buf_at xs ys sp) = Some (Inl ErrNotEnough, buf_at xs ys sp)"
  "4 \<le> length ys \<Longrightarrow> length ys < 4 + unat (u32_at 0 ys) \<Longrightarrow>
   \<exists>b'. Uint32String (buf_at xs ys sp) = Some (Inl ErrNotEnough, b')"
  "4 \<le> length ys \<Longrightarrow> n = unat (u32_at 0 ys) \<Longrightarrow> 4 + n \<le> length ys \<Longrightarrow>
   Uint32String (buf_at xs ys sp) =
     Some (Inr (take n (drop 4 ys)), buf_at (xs @ take (4 + n) ys) (drop (4 + n) ys) sp)"
  by (auto simp: Uint32String_def Check_def MustUint32_def buf_rest_def MustRef_checked buf_at_def)

lemma Uint32_buf_at:
  "length ys < 4 \<Longrightarrow> Uint32 (buf_at xs ys sp) = Some (Inl ErrNotEnough, buf_at xs ys sp)"
  "4 \<le> length ys \<Longrightarrow>
   Uint32 (buf_at xs ys sp) =
     Some (Inr (u32_at 0 ys), buf_at (xs @ take 4 ys) (drop 4 ys) sp)"
  by (auto simp: Uint32_def Check_def MustUint32_def buf_rest_def buf_at_def)

lemma MustRef_buf_at:
  "n \<le> length ys \<Longrightarrow>
   MustRef n (buf_at xs ys sp) = Some (take n ys, buf_at (xs @ take n ys) (drop n ys) sp)"
  by (auto simp: MustRef_checked Check_def buf_at_def)

lemma Check_buf_at: "Check n (buf_at xs ys sp) \<longleftrightarrow> n \<le> length ys"
  by (simp add: Check_def)

text \<open>One round of the loop over a well-formed entry.\<close>

lemma sm_decode_round:
  assumes n: "n = unat (u32_at 0 d)" and u: "u = u32_at 0 (drop (4 + n) d)"
    and len: "4 + n + 4 + value_len u \<le> length d"
  shows "\<exists>xs'. sm_decode_loop (int (length d)) (buf_at xs d sp) m =
    sm_decode_loop (int (length (drop (4 + n + 4 + value_len u) d)))
      (buf_at xs' (drop (4 + n + 4 + value_len u) d) sp)
      (sm_set (take n (drop 4 d)) (take (value_len u) (drop (4 + n + 4) d)) m)"
proof -
  let ?xs = "xs @ take (4 + n) d @ take 4 (drop (4 + n) d)"
  let ?k = "take n (drop 4 d)" and ?v = "take (unat u) (drop (4 + n + 4) d)"
  let ?rest = "drop (4 + n + 4 + value_len u) d"
  have b2: "Uint32 (buf_at (xs @ take (4 + n) d) (drop (4 + n) d) sp) =
      Some (Inr u, buf_at ?xs (drop (4 + n + 4) d) sp)"
    using len u by (simp add: Uint32_buf_at add.commute)
  show ?thesis
  proof (cases "u = 4294967295 \<or> u = 0")
    case True
    then have vl: "value_len u = 0" by (auto simp: value_len_def)
    have "sm_decode_loop (int (length d)) (buf_at xs d sp) m =
        sm_decode_loop (int (length d) - 4 - int (length ?k) - 4) (buf_at ?xs ?rest sp)
          (sm_set ?k [] m)"
      using len True vl
      by (subst sm_decode_loop.simps)
         (auto simp: Uint32String_buf_at(3) [OF _ n] b2 simp del: length_take)
    also have "int (length d) - 4 - int (length ?k) - 4 = int (length ?rest)"
      using len vl by simp
    finally show ?thesis using vl by (intro exI [of _ ?xs]) simp
  next
    case False
    then have vl: "value_len u = unat u" by (auto simp: value_len_def)
    have "Check (unat u) (buf_at ?xs (drop (4 + n + 4) d) sp)"
      and "MustRef (unat u) (buf_at ?xs (drop (4 + n + 4) d) sp) =
        Some (?v, buf_at (?xs @ ?v) ?rest sp)"
      using len vl by (simp_all add: Check_buf_at MustRef_buf_at add.commute add.left_commute)
    then have "sm_decode_loop (int (length d)) (buf_at xs d sp) m =
        sm_decode_loop (int (length d) - 4 - int (length ?k) - 4 - int (length ?v))
          (buf_at (?xs @ ?v) ?rest sp) (sm_set ?k ?v m)"
      using len False vl
      by (subst sm_decode_loop.simps)
         (auto simp: Uint32String_buf_at(3) [OF _ n] b2 simp del: length_take)
    also have "int (length d) - 4 - int (length ?k) - 4 - int (length ?v) = int (length ?rest)"
      using len vl by simp
    finally show ?thesis using vl by (intro exI [of _ "?xs @ ?v"]) simp
  qed
qed

text \<open>
  The loop computes the grammar. Its countdown equals the number of bytes left at every round,
  so it reaches zero exactly at the end of the block.
\<close>

lemma sm_decode_loop_parse:
  "sm_decode_loop (int (length ys)) (buf_at xs ys sp) m =
     Some (snd (kv_parse ys), fold (\<lambda>(k, v). sm_set k v) (fst (kv_parse ys)) m)"
proof (induction ys arbitrary: xs m rule: kv_parse.induct)
  case (1 d)
  define n where "n = unat (u32_at 0 d)"
  define u where "u = u32_at 0 (drop (4 + n) d)"
  consider "d = []" | "d \<noteq> []" "length d < 4" | "4 \<le> length d" "length d < 4 + n"
    | "4 + n \<le> length d" "length d < 4 + n + 4"
    | "4 + n + 4 \<le> length d" "length d < 4 + n + 4 + value_len u"
    | "4 + n + 4 + value_len u \<le> length d" by linarith
  then show ?case
  proof cases
    case 1
    then show ?thesis by (simp add: sm_decode_loop.simps kv_parse.simps)
  next
    case 2
    then show ?thesis
      by (simp add: sm_decode_loop.simps kv_parse.simps [of d] Uint32String_buf_at)
  next
    case 3
    then obtain b' where "Uint32String (buf_at xs d sp) = Some (Inl ErrNotEnough, b')"
      using Uint32String_buf_at(2) [of d xs sp] by (auto simp: n_def)
    with 3 show ?thesis
      by (auto simp: sm_decode_loop.simps kv_parse.simps [of d] n_def [symmetric])
  next
    case 4
    then show ?thesis
      by (auto simp: sm_decode_loop.simps kv_parse.simps [of d] n_def [symmetric]
          Uint32String_buf_at(3) [OF _ n_def] Uint32_buf_at)
  next
    case 5
    then have u: "u \<noteq> 4294967295" "u \<noteq> 0" "value_len u = unat u"
      by (auto simp: value_len_def split: if_splits)
    have "Uint32 (buf_at (xs @ take (4 + n) d) (drop (4 + n) d) sp) =
        Some (Inr u, buf_at (xs @ take (4 + n) d @ take 4 (drop (4 + n) d)) (drop (4 + n + 4) d) sp)"
      using 5 by (simp add: Uint32_buf_at u_def add.commute)
    moreover have "\<not> Check (unat u) (buf_at xs' (drop (4 + n + 4) d) sp)" for xs'
      using 5 u by (simp add: Check_buf_at)
    ultimately have "sm_decode_loop (int (length d)) (buf_at xs d sp) m =
        Some (Some ErrSimleMapValueFailed, m)"
      using 5 u by (subst sm_decode_loop.simps) (auto simp: Uint32String_buf_at(3) [OF _ n_def])
    moreover have "kv_parse d = ([], Some ErrSimleMapValueFailed)"
      using 5 by (subst kv_parse.simps) (auto simp: n_def [symmetric] u_def [symmetric] Let_def)
    ultimately show ?thesis by simp
  next
    case 6
    let ?rest = "drop (4 + n + 4 + value_len u) d"
    from 6 have ne: "d \<noteq> []" by auto
    obtain xs' where "sm_decode_loop (int (length d)) (buf_at xs d sp) m =
        sm_decode_loop (int (length ?rest)) (buf_at xs' ?rest sp)
          (sm_set (take n (drop 4 d)) (take (value_len u) (drop (4 + n + 4) d)) m)"
      using sm_decode_round [OF n_def u_def 6] by blast
    also have "\<dots> = Some (snd (kv_parse ?rest), fold (\<lambda>(k, v). sm_set k v) (fst (kv_parse ?rest))
        (sm_set (take n (drop 4 d)) (take (value_len u) (drop (4 + n + 4) d)) m))"
      by (rule "1.IH") (use 6 in \<open>auto simp: n_def u_def\<close>)
    finally show ?thesis using 6 ne
      by (simp add: kv_parse.simps [of d] n_def [symmetric] u_def [symmetric] Let_def
          split: prod.split)
  qed
qed

lemma sm_Decode_parse:
  "sm_Decode d m =
     Some (snd (kv_parse d), fold (\<lambda>(k, v). sm_set k v) (fst (kv_parse d)) (m\<lparr>sm_raw := d\<rparr>))"
  unfolding sm_Decode_def buf_new_at by (rule sm_decode_loop_parse)

lemma kv_fits_take: "kv_fits (take (unat (w :: 32 word)) x, take (value_len u) y)"
proof -
  have "value_len u < 4294967295" by (auto simp: value_len_def u32_not_max)
  then show ?thesis
    using order.strict_trans1 [of "length (take (unat w) x)" "unat w" 4294967296]
      order.strict_trans1 [of "length (take (value_len u) y)" "value_len u" 4294967295]
    by (simp add: kv_fits_def)
qed

lemma kv_parse_fits: "list_all kv_fits (fst (kv_parse d))"
proof (induction d rule: kv_parse.induct)
  case (1 d)
  then show ?case
    by (subst kv_parse.simps) (auto simp: Let_def kv_fits_take split: prod.split)
qed

lemma kv_parse_error:
  "snd (kv_parse d) \<in> {None, Some ErrSimleMapKeyFailed, Some ErrSimleMapValueFailed}"
proof (induction d rule: kv_parse.induct)
  case (1 d)
  then show ?case by (subst kv_parse.simps) (auto simp: Let_def split: prod.split)
qed

lemma fold_set_inv:
  "P m \<Longrightarrow> (\<And>k v m. P m \<Longrightarrow> kv_fits (k, v) \<Longrightarrow> P (sm_set k v m)) \<Longrightarrow> list_all kv_fits es \<Longrightarrow>
   P (fold (\<lambda>(k, v). sm_set k v) es m)"
proof (induction es arbitrary: m)
  case (Cons e es)
  then show ?case by (cases e) (simp del: kv_fits_def)
qed simp

lemma sm_Decode_inv:
  assumes "sm_Decode d m = Some (e, m')" and "P (m\<lparr>sm_raw := d\<rparr>)"
    and "\<And>k v m. P m \<Longrightarrow> kv_fits (k, v) \<Longrightarrow> P (sm_set k v m)"
  shows "P m'"
  using assms fold_set_inv [of P, OF assms(2,3) kv_parse_fits [of d]]
  by (auto simp: sm_Decode_parse)

subsection \<open>The interface of a header map\<close>

text \<open>
  What the callers of the map rely on: a reader sees the last value set for a key, and the empty
  string for a key that was never set or was deleted.
\<close>

locale header_table =
  fixes get :: "'k \<Rightarrow> 'm \<Rightarrow> 'v"
    and put :: "'k \<Rightarrow> 'v \<Rightarrow> 'm \<Rightarrow> 'm"
    and reset :: "'m \<Rightarrow> 'm"
    and nothing :: 'v
    and inv :: "'m \<Rightarrow> bool"
  assumes get_put: "inv m \<Longrightarrow> get k' (put k v m) = (if k' = k then v else get k' m)"
    and get_reset: "inv m \<Longrightarrow> get k (reset m) = nothing"
    and inv_put: "inv m \<Longrightarrow> inv (put k v m)"
    and inv_reset: "inv m \<Longrightarrow> inv (reset m)"
begin

lemma inv_fold: "inv m \<Longrightarrow> inv (fold (\<lambda>(k, v). put k v) es m)"
  by (induction es arbitrary: m) (auto simp: inv_put split: prod.split)

lemma get_fold:
  "inv m \<Longrightarrow> get k (fold (\<lambda>(k, v). put k v) es m) =
     (case map_of (rev es) k of None \<Rightarrow> get k m | Some v \<Rightarrow> v)"
proof (induction es arbitrary: m)
  case (Cons e es)
  obtain k' v' where "e = (k', v')" by (cases e)
  with Cons.IH [OF inv_put [OF Cons.prems, of k' v']] Cons.prems show ?case
    by (auto simp: get_put map_add_def split: option.splits)
qed simp

lemma get_fold_reset:
  "inv m \<Longrightarrow> get k (fold (\<lambda>(k, v). put k v) es (reset m)) =
     (case map_of (rev es) k of None \<Rightarrow> nothing | Some v \<Rightarrow> v)"
  by (simp add: get_fold inv_reset get_reset split: option.split)

end

text \<open>A table that also supports deletion, at any time.\<close>

locale header_map = header_table +
  fixes del :: "'k \<Rightarrow> 'm \<Rightarrow> 'm"
  assumes get_del: "inv m \<Longrightarrow> get k' (del k m) = (if k' = k then nothing else get k' m)"
    and inv_del: "inv m \<Longrightarrow> inv (del k m)"
begin

lemma put_del: "inv m \<Longrightarrow> get k' (put k v (del k m)) = get k' (put k v m)"
  by (simp add: get_put get_del inv_del)

lemma get_fold_del:
  "inv m \<Longrightarrow> get k' (fold (\<lambda>(k, v). put k v) es (del k m)) =
     (case map_of (rev es) k' of
        None \<Rightarrow> if k' = k then nothing else get k' m | Some v \<Rightarrow> v)"
  by (simp add: get_fold inv_del get_del split: option.split)

end

interpretation hm: header_map sm_get sm_set sm_Reset "[]" sm_wf sm_del
  by unfold_locales (auto simp: sm_get_del)

subsection \<open>Properties\<close>

lemma sm_put_kvs_end:
  "sm_put_kvs es b = Some b' \<Longrightarrow>
   buf_pos b' = buf_pos b + length (wire_kvs es) \<and>
   length (buf_whole b') = length (buf_whole b) \<and>
   (es \<noteq> [] \<longrightarrow> buf_pos b' \<le> length (buf_whole b'))"
proof (induction es arbitrary: b)
  case (Cons e es)
  obtain k v where e: "e = (k, v)" by (cases e)
  with Cons.prems obtain b1 where b1: "sm_put_kv k v b = Some b1"
    and es: "sm_put_kvs es b1 = Some b'" by (auto split: bind_splits)
  from b1 have "buf_pos b1 = buf_pos b + length (wire_kv e) \<and>
      length (buf_whole b1) = length (buf_whole b) \<and> buf_pos b1 \<le> length (buf_whole b1)"
    by (auto simp: e sm_put_kv_def split: bind_splits dest!: MustPutUint32String_end)
  with Cons.IH [OF es] show ?case
    by (cases es) (auto simp: e wire_kvs_def)
qed simp

lemma Encode_Decode:
  assumes "sm_wf m" and "sm_fits m" and "length buf = sm_GetEncodeSize m"
  shows "\<exists>d. sm_Encode m buf spare = Some (sm_GetEncodeSize m, d, spare) \<and>
     sm_Decode d (sm_Reset m0) = Some (None, m\<lparr>sm_raw := d\<rparr>)"
  using assms sm_Encode_wire [of m buf spare] sm_Decode_sm_wire [of m m0]
  by (simp add: sm_GetEncodeSize_wire)

text \<open>
  C26. Header block round trip: for every well-formed header map whose keys and values fit the
  wire format, \<open>Encode\<close> into a slice of \<open>GetEncodeSize\<close> bytes fills it exactly, and \<open>Decode\<close> of
  those bytes into a reset map gives back every header, in order.
\<close>

theorem header_roundtrip:
  assumes "sm_wf m" and "sm_fits m" and "length buf = sm_GetEncodeSize m"
  shows "\<exists>d. sm_Encode m buf spare = Some (sm_GetEncodeSize m, d, spare) \<and>
     sm_Decode d (sm_Reset m0) = Some (None, m\<lparr>sm_raw := d\<rparr>)"
  using assms by (rule Encode_Decode)

lemma header_roundtrip_witness:
  "\<exists>d. sm_Encode (sm_set [1, 2] [3] (sm_set StrHost [7] sm_New)) (replicate 24 0) [] =
       Some (24, d, []) \<and>
     sm_Decode d (sm_Reset sm_New) =
       Some (None, (sm_set [1, 2] [3] (sm_set StrHost [7] sm_New))\<lparr>sm_raw := d\<rparr>)"
proof -
  let ?m = "sm_set [1, 2] [3] (sm_set StrHost [7] sm_New)"
  have k: "[1, 2] \<notin> sm_special"
    by (simp add: sm_special_def StrHost_def StrContentType_def StrService_def
        StrAuthorization_def str_bytes_def)
  then have m: "?m = sm_New\<lparr>sm_host := [7], sm_kvs := [([1, 2], [3])]\<rparr>"
    using sm_specialD [OF k] by (simp add: sm_set_def sm_New_def)
  have "sm_wf ?m" by simp
  moreover have "sm_fits ?m"
    unfolding m by (simp add: sm_fits_def sm_Range_def sm_New_def kv_fits_def)
  moreover have sz: "sm_GetEncodeSize ?m = 24"
    unfolding m by (simp add: sm_GetEncodeSize_def sm_New_def sm_kv_size_def)
  ultimately show ?thesis
    using header_roundtrip [of ?m "replicate 24 0" "[]" sm_New] by simp
qed

text \<open>
  C27. Totality and error behaviour of \<open>Decode\<close>: on every input, however malformed, parsing ends
  without a panic; it computes the grammar of the header block, with the key or value error of
  the package at the first length that does not fit, and has set the entries before it.
\<close>

theorem decode_is_grammar:
  "sm_Decode d m =
     Some (snd (kv_parse d), fold (\<lambda>(k, v). sm_set k v) (fst (kv_parse d)) (m\<lparr>sm_raw := d\<rparr>))
   \<and> snd (kv_parse d) \<in> {None, Some ErrSimleMapKeyFailed, Some ErrSimleMapValueFailed}"
  by (intro conjI sm_Decode_parse kv_parse_error)

text \<open>
  What a reader of parsed headers sees: after \<open>Decode\<close> into a reset map, \<open>Get\<close> of any key is
  the value of the last entry of the block with that key, and empty if there is none.
\<close>

theorem decode_last_wins:
  assumes "sm_Decode d (sm_Reset m) = Some (e, m')"
  shows "sm_get k m' = (case map_of (rev (fst (kv_parse d))) k of None \<Rightarrow> [] | Some v \<Rightarrow> v)"
  using assms hm.get_fold [of "(sm_Reset m)\<lparr>sm_raw := d\<rparr>" k "fst (kv_parse d)"]
  by (auto simp: sm_Decode_parse split: option.splits)

lemma decode_last_wins_witness:
  "sm_get [65] (snd (the (sm_Decode (wire_kvs [([65], [1]), ([65], [2])]) (sm_Reset sm_New)))) = [2]"
proof -
  let ?d = "wire_kvs [([65], [1]), ([65], [2])]"
  have fits: "list_all kv_fits [([65], [1]), ([65], [2])]" by (simp add: kv_fits_def)
  have p: "kv_parse ?d = ([([65], [1]), ([65], [2])], None)"
    by (simp add: kv_parse.simps u32str_def be32_def u32_at_def dec32_def value_len_def)
  obtain e m' where d: "sm_Decode ?d (sm_Reset sm_New) = Some (e, m')"
    using sm_Decode_parse by blast
  from decode_last_wins [OF d, of "[65]"] show ?thesis by (simp only: d p) simp
qed

text \<open>
  The round trip that the package's fuzz target checks: whatever bytes \<open>Decode\<close> accepts,
  encoding the parsed map and parsing that again succeeds and gives an \<open>Equal\<close> map.
\<close>

theorem fuzz_reencode:
  assumes "sm_Decode d sm_New = Some (None, om)"
  shows "\<exists>e nm. sm_Encode om (replicate (sm_GetEncodeSize om) 0) [] =
       Some (sm_GetEncodeSize om, e, []) \<and>
     sm_Decode e sm_New = Some (None, nm) \<and> sm_Equal nm om"
proof -
  have "sm_wf om" by (rule sm_Decode_inv [OF assms]) auto
  moreover have "sm_fits om" by (rule sm_Decode_inv [OF assms]) auto
  ultimately show ?thesis
    using Encode_Decode [of om "replicate (sm_GetEncodeSize om) 0" "[]" sm_New]
    by (auto simp: sm_New_Reset [symmetric] sm_Equal_iff)
qed

lemma fuzz_reencode_witness:
  "\<exists>om e nm. sm_Decode (wire_kvs [([1], [])]) sm_New = Some (None, om) \<and>
     sm_Decode e sm_New = Some (None, nm) \<and> sm_Equal nm om"
proof -
  have "sm_Decode (wire_kvs [([1], [])]) sm_New =
      Some (None, fold (\<lambda>(k, v). sm_set k v) [([1], [])] (sm_New\<lparr>sm_raw := wire_kvs [([1], [])]\<rparr>))"
    by (rule sm_Decode_wire) (simp add: kv_fits_def)
  with fuzz_reencode [OF this] show ?thesis by blast
qed

text \<open>
  \<open>Fuzz\<close> of src/sofabolt/simplemap/fastsimplemap/fuzz.go; both maps are zero values. The panics
  of the target, those it raises itself and those of the code it runs, are \<open>None\<close>.
\<close>

definition sm_Fuzz :: "bytes \<Rightarrow> nat option" where
  "sm_Fuzz data =
     (case sm_Decode data sm_New of
        None \<Rightarrow> None
      | Some (Some err, om) \<Rightarrow> Some 0
      | Some (None, om) \<Rightarrow>
          (case sm_Encode om (replicate (sm_GetEncodeSize om) 0) [] of
             None \<Rightarrow> None
           | Some (n, e, spare) \<Rightarrow>
               (case sm_Decode e sm_New of
                  None \<Rightarrow> None
                | Some (Some err, nm) \<Rightarrow> None
                | Some (None, nm) \<Rightarrow> if sm_Equal nm om then Some 1 else None)))"

text \<open>The fuzz target never finds anything: it accepts exactly the input that parses.\<close>

theorem sm_Fuzz_never_panics: "sm_Fuzz d = Some (if snd (kv_parse d) = None then 1 else 0)"
proof (cases "snd (kv_parse d)")
  case None
  then obtain om where om: "sm_Decode d sm_New = Some (None, om)" by (simp add: sm_Decode_parse)
  from fuzz_reencode [OF om] None show ?thesis by (auto simp: sm_Fuzz_def om)
next
  case (Some e)
  then show ?thesis by (simp add: sm_Fuzz_def sm_Decode_parse)
qed

text \<open>
  Bounds of \<open>Encode\<close>: into a slice without spare capacity it writes exactly the first
  \<open>GetEncodeSize\<close> bytes, the wire form of the map, leaving the rest as it was, and it panics
  exactly when the slice is shorter than that.
\<close>

theorem encode_bounds:
  "sm_Encode m buf [] =
     (if sm_GetEncodeSize m \<le> length buf
      then Some (sm_GetEncodeSize m, sm_wire m @ drop (sm_GetEncodeSize m) buf, []) else None)"
proof (cases "sm_GetEncodeSize m \<le> length buf")
  case True
  then show ?thesis using sm_Encode_wire [of m buf "[]"] by (simp add: sm_GetEncodeSize_wire)
next
  case False
  have "sm_Encode m buf [] = None"
  proof (rule ccontr)
    assume "sm_Encode m buf [] \<noteq> None"
    then obtain b where "sm_put_kvs (sm_Range m) (buf_new buf []) = Some b"
      by (auto simp: sm_Encode_Range split: bind_splits)
    from sm_put_kvs_end [OF this] False show False
      by (cases "sm_Range m = []")
         (auto simp: sm_GetEncodeSize_wire sm_wire_def buf_new_def buf_whole_def)
  qed
  with False show ?thesis by simp
qed

subsection \<open>The methods on strings, and the fields of the known headers\<close>

text \<open>
  A Go string is its bytes, and the casts of helper.go share them without a copy. \<open>MarshalLogObject\<close>
  gives the entries to an encoder of the logging package, with the callback of \<open>Range\<close>.
\<close>

definition b2s :: "bytes \<Rightarrow> bytes" where "b2s b = b"

definition s2b :: "bytes \<Rightarrow> bytes" where "s2b s = s"

definition sm_Get :: "bytes \<Rightarrow> simple_map \<Rightarrow> bytes" where
  "sm_Get k m = b2s (sm_get (s2b k) m)"

definition sm_Set :: "bytes \<Rightarrow> bytes \<Rightarrow> simple_map \<Rightarrow> simple_map" where
  "sm_Set k v m = sm_set (s2b k) (s2b v) m"

definition sm_Del :: "bytes \<Rightarrow> simple_map \<Rightarrow> simple_map" where
  "sm_Del k m = sm_del (s2b k) m"

definition MarshalLogObject :: "(bytes \<Rightarrow> bytes \<Rightarrow> 'e \<Rightarrow> 'e) \<Rightarrow> simple_map \<Rightarrow> 'e \<Rightarrow> 'e" where
  "MarshalLogObject AddString m enc = fold (\<lambda>(k, v). AddString k v) (sm_Range m) enc"

definition setAuthorization :: "bytes \<Rightarrow> simple_map \<Rightarrow> simple_map" where
  "setAuthorization authorization m = m\<lparr>sm_authorization := authorization\<rparr>"

definition setService :: "bytes \<Rightarrow> simple_map \<Rightarrow> simple_map" where
  "setService service m = m\<lparr>sm_service := service\<rparr>"

definition setHost :: "bytes \<Rightarrow> simple_map \<Rightarrow> simple_map" where
  "setHost host m = m\<lparr>sm_host := host\<rparr>"

definition setContentType :: "bytes \<Rightarrow> simple_map \<Rightarrow> simple_map" where
  "setContentType contentType m = m\<lparr>sm_contentType := contentType\<rparr>"

text \<open>The setters of the fields are \<open>Set\<close> with the known names.\<close>

lemma setters_Set:
  "sm_Set StrAuthorization v m = setAuthorization v m" "sm_Set StrService v m = setService v m"
  "sm_Set StrHost v m = setHost v m" "sm_Set StrContentType v m = setContentType v m"
  by (simp_all add: sm_Set_def s2b_def sm_set_special setAuthorization_def setService_def setHost_def
      setContentType_def)

text \<open>An object that is logged, and parsed back by setting its entries, is the map that was logged.\<close>

lemma MarshalLogObject_rebuilds:
  "sm_wf m \<Longrightarrow> MarshalLogObject sm_Set m sm_New = m\<lparr>sm_raw := []\<rparr>"
  using fold_set_Range [of m "[]" sm_New]
  by (simp add: MarshalLogObject_def sm_Set_def [abs_def] s2b_def sm_Reset_def sm_New_def)

end
