(* ===== verification/Simple_Map_Store.thy ===== *)
theory Simple_Map_Store
  imports Simple_Map
begin

text \<open>
  The header map of src/sofabolt/simplemap/fastsimplemap/fast_simplemap.go with its byte arrays.

  A slot of \<open>kvs\<close> (a \<open>kvHeader\<close>) holds two slices, and \<open>set\<close> writes with
  \<open>append(s[:0], x...)\<close>: into the array the slice already has when it is large enough. \<open>del\<close>
  moves slots with \<open>append(kvs[:i], kvs[i+1:]...)\<close>, which copies the slices, not the
  bytes, and leaves the last slot in place behind the end of \<open>kvs\<close>; \<open>Reset\<close> and the pools keep
  that storage. So whether \<open>set\<close> is correct depends on which slots share an array. Here the
  arrays are explicit: \<open>st_bufs\<close> is the heap of byte arrays of one map (each at its full
  capacity), a slice is an array and a length, \<open>st_slots\<close> is the array behind \<open>kvs\<close> up to its
  capacity and \<open>st_len\<close> the length of \<open>kvs\<close>. The well-known headers never move and are kept by
  value. \<open>g\<close> and \<open>h\<close> are the capacities the Go runtime chooses when \<open>append\<close> must allocate
  (old capacity, needed length), which the language leaves open.
\<close>

record slice =
  sl_arr :: "nat option"
  sl_len :: nat

definition nil_slice :: slice where
  "nil_slice = \<lparr>sl_arr = None, sl_len = 0\<rparr>"

type_synonym kvHeader = "slice \<times> slice"

record store_map =
  st_authorization :: bytes
  st_service :: bytes
  st_host :: bytes
  st_contentType :: bytes
  st_bufs :: "bytes list"
  st_slots :: "kvHeader list"
  st_len :: nat

definition st_New :: store_map where
  "st_New = \<lparr>st_authorization = [], st_service = [], st_host = [], st_contentType = [],
             st_bufs = [], st_slots = [], st_len = 0\<rparr>"

definition slice_val :: "bytes list \<Rightarrow> slice \<Rightarrow> bytes" where
  "slice_val bufs s = (case sl_arr s of None \<Rightarrow> [] | Some a \<Rightarrow> take (sl_len s) (bufs ! a))"

definition slice_cap :: "bytes list \<Rightarrow> slice \<Rightarrow> nat" where
  "slice_cap bufs s = (case sl_arr s of None \<Rightarrow> 0 | Some a \<Rightarrow> length (bufs ! a))"

text \<open>\<open>append(s[:0], v...)\<close>.\<close>

definition append0 ::
  "(nat \<Rightarrow> nat \<Rightarrow> nat) \<Rightarrow> bytes \<Rightarrow> bytes list \<Rightarrow> slice \<Rightarrow> bytes list \<times> slice" where
  "append0 g v bufs s =
     (if length v \<le> slice_cap bufs s
      then (case sl_arr s of
              None \<Rightarrow> (bufs, s\<lparr>sl_len := 0\<rparr>)
            | Some a \<Rightarrow> (bufs[a := v @ drop (length v) (bufs ! a)], s\<lparr>sl_len := length v\<rparr>))
      else (bufs @ [v @ replicate (g (slice_cap bufs s) (length v) - length v) 0],
            \<lparr>sl_arr = Some (length bufs), sl_len = length v\<rparr>))"

text \<open>The two assignments to a slot, \<open>kvs[i].key = ...\<close> and \<open>kvs[i].value = ...\<close>.\<close>

definition put_key :: "(nat \<Rightarrow> nat \<Rightarrow> nat) \<Rightarrow> nat \<Rightarrow> bytes \<Rightarrow> store_map \<Rightarrow> store_map" where
  "put_key g i k m =
     (let (bufs, s) = append0 g k (st_bufs m) (fst (st_slots m ! i))
      in m\<lparr>st_bufs := bufs, st_slots := (st_slots m)[i := (s, snd (st_slots m ! i))]\<rparr>)"

definition put_value :: "(nat \<Rightarrow> nat \<Rightarrow> nat) \<Rightarrow> nat \<Rightarrow> bytes \<Rightarrow> store_map \<Rightarrow> store_map" where
  "put_value g i v m =
     (let (bufs, s) = append0 g v (st_bufs m) (snd (st_slots m ! i))
      in m\<lparr>st_bufs := bufs, st_slots := (st_slots m)[i := (fst (st_slots m ! i), s)]\<rparr>)"

definition slot_key :: "store_map \<Rightarrow> nat \<Rightarrow> bytes" where
  "slot_key m i = slice_val (st_bufs m) (fst (st_slots m ! i))"

definition slot_value :: "store_map \<Rightarrow> nat \<Rightarrow> bytes" where
  "slot_value m i = slice_val (st_bufs m) (snd (st_slots m ! i))"

text \<open>The search loops: the first index in \<open>kvs\<close> with the key.\<close>

fun find_slot :: "bytes \<Rightarrow> store_map \<Rightarrow> nat list \<Rightarrow> nat option" where
  "find_slot k m [] = None"
| "find_slot k m (i # is) = (if slot_key m i = k then Some i else find_slot k m is)"

text \<open>The end of \<open>set\<close>: one more slot, from the spare capacity or from a larger array.\<close>

definition new_slot ::
  "(nat \<Rightarrow> nat \<Rightarrow> nat) \<Rightarrow> (nat \<Rightarrow> nat \<Rightarrow> nat) \<Rightarrow> bytes \<Rightarrow> bytes \<Rightarrow> store_map \<Rightarrow> store_map" where
  "new_slot g h k v m =
     (let n = st_len m;
          slots = (if length (st_slots m) \<le> n
                   then st_slots m @
                     replicate (max (n + 4) (h (length (st_slots m)) (n + 4)) - length (st_slots m))
                       (nil_slice, nil_slice)
                   else st_slots m)
      in put_value g n v (put_key g n k (m\<lparr>st_slots := slots, st_len := n + 1\<rparr>)))"

definition st_set ::
  "(nat \<Rightarrow> nat \<Rightarrow> nat) \<Rightarrow> (nat \<Rightarrow> nat \<Rightarrow> nat) \<Rightarrow> bytes \<Rightarrow> bytes \<Rightarrow> store_map \<Rightarrow> store_map" where
  "st_set g h k v m =
     (if k = StrHost then m\<lparr>st_host := v\<rparr>
      else if k = StrContentType then m\<lparr>st_contentType := v\<rparr>
      else if k = StrService then m\<lparr>st_service := v\<rparr>
      else if k = StrAuthorization then m\<lparr>st_authorization := v\<rparr>
      else (case find_slot k m [0..<st_len m] of
              Some i \<Rightarrow> put_value g i v m
            | None \<Rightarrow> new_slot g h k v m))"

definition st_get :: "bytes \<Rightarrow> store_map \<Rightarrow> bytes" where
  "st_get k m =
     (if k = StrHost then st_host m
      else if k = StrContentType then st_contentType m
      else if k = StrService then st_service m
      else if k = StrAuthorization then st_authorization m
      else (case find_slot k m [0..<st_len m] of Some i \<Rightarrow> slot_value m i | None \<Rightarrow> []))"

definition st_Reset :: "store_map \<Rightarrow> store_map" where
  "st_Reset m = m\<lparr>st_authorization := [], st_service := [], st_host := [], st_contentType := [],
                  st_len := 0\<rparr>"

text \<open>\<open>append(kvs[:i], kvs[i+1:]...)\<close>: the slot at the old end keeps its slices.\<close>

definition remove_slot :: "nat \<Rightarrow> store_map \<Rightarrow> store_map" where
  "remove_slot i m =
     (let n = st_len m; slots = st_slots m
      in m\<lparr>st_slots := take i slots @ take (n - (i + 1)) (drop (i + 1) slots) @ drop (n - 1) slots,
           st_len := n - 1\<rparr>)"

function st_del_loop :: "bytes \<Rightarrow> nat \<Rightarrow> store_map \<Rightarrow> store_map" where
  "st_del_loop k i m =
     (if i < st_len m
      then st_del_loop k (i + 1) (if slot_key m i = k then remove_slot i m else m)
      else m)"
  by pat_completeness auto
termination
  by (relation "measure (\<lambda>(k, i, m). st_len m - i)") (auto simp: remove_slot_def Let_def)

declare st_del_loop.simps [simp del]

definition st_del :: "bytes \<Rightarrow> store_map \<Rightarrow> store_map" where
  "st_del k m =
     (if k = StrHost then m\<lparr>st_host := []\<rparr>
      else if k = StrContentType then m\<lparr>st_contentType := []\<rparr>
      else if k = StrService then m\<lparr>st_service := []\<rparr>
      else if k = StrAuthorization then m\<lparr>st_authorization := []\<rparr>
      else st_del_loop k 0 m)"

subsection \<open>The contents of a map\<close>

definition st_kvs :: "store_map \<Rightarrow> (bytes \<times> bytes) list" where
  "st_kvs m = map (\<lambda>i. (slot_key m i, slot_value m i)) [0..<st_len m]"

definition st_abs :: "store_map \<Rightarrow> simple_map" where
  "st_abs m = \<lparr>sm_authorization = st_authorization m, sm_service = st_service m,
     sm_host = st_host m, sm_contentType = st_contentType m, sm_kvs = st_kvs m, sm_raw = []\<rparr>"

text \<open>
  What makes in-place writes safe: no two of the slices stored in the slots, up to the capacity
  of the array, share a byte array. \<open>slot_slice m (i, True)\<close> is the key slice of slot \<open>i\<close> and
  \<open>slot_slice m (i, False)\<close> its value slice.
\<close>

definition slot_slice :: "store_map \<Rightarrow> nat \<times> bool \<Rightarrow> slice" where
  "slot_slice m p = (if snd p then fst (st_slots m ! fst p) else snd (st_slots m ! fst p))"

definition slice_ok :: "bytes list \<Rightarrow> slice \<Rightarrow> bool" where
  "slice_ok bufs s =
     (case sl_arr s of None \<Rightarrow> sl_len s = 0
      | Some a \<Rightarrow> a < length bufs \<and> sl_len s \<le> length (bufs ! a))"

definition unaliased :: "store_map \<Rightarrow> bool" where
  "unaliased m \<longleftrightarrow>
     st_len m \<le> length (st_slots m) \<and>
     (\<forall>p. fst p < length (st_slots m) \<longrightarrow> slice_ok (st_bufs m) (slot_slice m p)) \<and>
     (\<forall>p q. fst p < length (st_slots m) \<longrightarrow> fst q < length (st_slots m) \<longrightarrow> p \<noteq> q \<longrightarrow>
        sl_arr (slot_slice m p) \<noteq> None \<longrightarrow> sl_arr (slot_slice m p) \<noteq> sl_arr (slot_slice m q))"

subsection \<open>One write\<close>

lemma append0_spec:
  assumes "append0 g v bufs s = (bufs', s')" and "slice_ok bufs s"
  shows "slice_val bufs' s' = v" and "slice_ok bufs' s'"
    and "sl_arr s' = sl_arr s \<or> sl_arr s' = Some (length bufs)"
  using assms
  by (auto simp: append0_def slice_val_def slice_ok_def slice_cap_def split: if_splits option.splits)

lemma append0_frame:
  assumes "append0 g v bufs s = (bufs', s')" and "slice_ok bufs s" and "slice_ok bufs t"
    and "sl_arr t = None \<or> sl_arr t \<noteq> sl_arr s"
  shows "slice_val bufs' t = slice_val bufs t" and "slice_ok bufs' t"
    and "sl_arr t \<noteq> Some (length bufs)"
  using assms
  by (auto simp: append0_def slice_val_def slice_ok_def slice_cap_def nth_append nth_list_update
      split: if_splits option.splits)

text \<open>Both assignments are one write at a position.\<close>

definition put_slot ::
  "(nat \<Rightarrow> nat \<Rightarrow> nat) \<Rightarrow> nat \<times> bool \<Rightarrow> bytes \<Rightarrow> store_map \<Rightarrow> store_map" where
  "put_slot g p v m = (if snd p then put_key g (fst p) v m else put_value g (fst p) v m)"

definition slot_val :: "store_map \<Rightarrow> nat \<times> bool \<Rightarrow> bytes" where
  "slot_val m p = slice_val (st_bufs m) (slot_slice m p)"

lemma slot_val_eqs:
  "slot_key m i = slot_val m (i, True)" "slot_value m i = slot_val m (i, False)"
  by (simp_all add: slot_key_def slot_value_def slot_val_def slot_slice_def)

lemma put_slot_frame [simp]:
  "st_len (put_slot g p v m) = st_len m"
  "length (st_slots (put_slot g p v m)) = length (st_slots m)"
  "st_host (put_slot g p v m) = st_host m"
  "st_service (put_slot g p v m) = st_service m"
  "st_contentType (put_slot g p v m) = st_contentType m"
  "st_authorization (put_slot g p v m) = st_authorization m"
  by (auto simp: put_slot_def put_key_def put_value_def Let_def split: prod.split)

lemma put_slot_append0:
  assumes "append0 g v (st_bufs m) (slot_slice m p) = (bufs, s)" and "fst p < length (st_slots m)"
  shows "st_bufs (put_slot g p v m) = bufs"
    and "slot_slice (put_slot g p v m) q = (if q = p then s else slot_slice m q)"
  using assms
  by (cases p; cases q; auto simp: put_slot_def put_key_def put_value_def slot_slice_def Let_def
      nth_list_update)+

lemma unaliasedD:
  assumes "unaliased m"
  shows "st_len m \<le> length (st_slots m)"
    and "fst p < length (st_slots m) \<Longrightarrow> slice_ok (st_bufs m) (slot_slice m p)"
    and "fst p < length (st_slots m) \<Longrightarrow> fst q < length (st_slots m) \<Longrightarrow> q \<noteq> p \<Longrightarrow>
      sl_arr (slot_slice m q) = None \<or> sl_arr (slot_slice m q) \<noteq> sl_arr (slot_slice m p)"
  using assms unfolding unaliased_def by blast+

lemma slot_val_put_slot:
  assumes "unaliased m" and "fst p < length (st_slots m)" and "fst q < length (st_slots m)"
  shows "slot_val (put_slot g p v m) q = (if q = p then v else slot_val m q)"
proof -
  obtain bufs s where a: "append0 g v (st_bufs m) (slot_slice m p) = (bufs, s)" by fastforce
  show ?thesis
    using append0_spec(1) [OF a unaliasedD(2) [OF assms(1,2)]]
      append0_frame(1) [OF a unaliasedD(2) [OF assms(1,2)] unaliasedD(2) [OF assms(1,3)]
        unaliasedD(3) [OF assms]]
    by (auto simp: slot_val_def put_slot_append0 [OF a assms(2)])
qed

lemma unaliased_put_slot:
  assumes "unaliased m" and p: "fst p < length (st_slots m)"
  shows "unaliased (put_slot g p v m)"
proof -
  obtain bufs s where a: "append0 g v (st_bufs m) (slot_slice m p) = (bufs, s)" by fastforce
  note ok = unaliasedD(2) [OF assms(1)]
  note new = append0_spec [OF a ok [OF p]]
  note old = append0_frame [OF a ok [OF p]]
  show ?thesis
    unfolding unaliased_def
  proof (intro conjI allI impI)
    show "st_len (put_slot g p v m) \<le> length (st_slots (put_slot g p v m))"
      using unaliasedD(1) [OF assms(1)] by simp
  next
    fix q :: "nat \<times> bool" assume "fst q < length (st_slots (put_slot g p v m))"
    then have q: "fst q < length (st_slots m)" by simp
    show "slice_ok (st_bufs (put_slot g p v m)) (slot_slice (put_slot g p v m) q)"
      using new(2) old(2) [OF ok [OF q]] unaliasedD(3) [OF assms q]
      by (simp add: put_slot_append0 [OF a p])
  next
    fix q r :: "nat \<times> bool" assume "fst q < length (st_slots (put_slot g p v m))"
      and "fst r < length (st_slots (put_slot g p v m))" and qr: "q \<noteq> r"
      and some: "sl_arr (slot_slice (put_slot g p v m) q) \<noteq> None"
    then have q: "fst q < length (st_slots m)" and r: "fst r < length (st_slots m)" by simp_all
    show "sl_arr (slot_slice (put_slot g p v m) q) \<noteq> sl_arr (slot_slice (put_slot g p v m) r)"
      using new(3) old(3) [OF ok [OF q]] old(3) [OF ok [OF r]] qr some
        unaliasedD(3) [OF assms q] unaliasedD(3) [OF assms r]
        unaliasedD(3) [OF assms(1) q r] unaliasedD(3) [OF assms(1) r q]
      unfolding put_slot_append0 [OF a p] by (auto split: if_splits)
  qed
qed

subsection \<open>\<open>set\<close> and \<open>get\<close> implement the map of values\<close>

lemma find_slot_Some: "find_slot k m is = Some i \<Longrightarrow> i \<in> set is \<and> slot_key m i = k"
  by (induction "is") (auto split: if_splits)

lemma sm_set_kvs_find:
  "distinct is \<Longrightarrow>
   sm_set_kvs k v (map (\<lambda>i. (slot_key m i, slot_value m i)) is) =
     (case find_slot k m is of
        Some i \<Rightarrow> map (\<lambda>j. (slot_key m j, if j = i then v else slot_value m j)) is
      | None \<Rightarrow> map (\<lambda>i. (slot_key m i, slot_value m i)) is @ [(k, v)])"
  by (induction "is") (auto split: option.split dest!: find_slot_Some)

lemma sm_get_kvs_find:
  "sm_get_kvs k (map (\<lambda>i. (slot_key m i, slot_value m i)) is) =
     (case find_slot k m is of Some i \<Rightarrow> slot_value m i | None \<Rightarrow> [])"
  by (induction "is") (auto split: option.split)

lemma put_value_slot: "put_value g i v m = put_slot g (i, False) v m"
  by (simp add: put_slot_def)

lemma put_key_slot: "put_key g i v m = put_slot g (i, True) v m"
  by (simp add: put_slot_def)

text \<open>Space for one more slot: the slots already there keep their bytes.\<close>

definition grown :: "nat \<Rightarrow> store_map \<Rightarrow> store_map" where
  "grown c m = m\<lparr>st_slots := st_slots m @ replicate c (nil_slice, nil_slice),
                 st_len := st_len m + 1\<rparr>"

lemma new_slot_grown:
  assumes "unaliased m"
  shows "\<exists>c. st_len m < length (st_slots m) + c \<and>
    new_slot g h k v m =
      put_slot g (st_len m, False) v (put_slot g (st_len m, True) k (grown c m))"
proof (cases "length (st_slots m) \<le> st_len m")
  case True
  then show ?thesis
    by (intro exI [of _ "max (st_len m + 4) (h (length (st_slots m)) (st_len m + 4))
          - length (st_slots m)"])
       (auto simp: new_slot_def grown_def put_value_slot put_key_slot Let_def)
next
  case False
  then show ?thesis
    by (intro exI [of _ 0])
       (auto simp: new_slot_def grown_def put_value_slot put_key_slot Let_def)
qed

lemma slot_slice_grown:
  "slot_slice (grown c m) p =
     (if fst p < length (st_slots m) then slot_slice m p
      else if fst p < length (st_slots m) + c then nil_slice else slot_slice (grown c m) p)"
  by (cases p) (auto simp: slot_slice_def grown_def nth_append)

lemma grown_frame [simp]:
  "length (st_slots (grown c m)) = length (st_slots m) + c"
  "st_bufs (grown c m) = st_bufs m" "st_len (grown c m) = st_len m + 1"
  "st_host (grown c m) = st_host m" "st_service (grown c m) = st_service m"
  "st_contentType (grown c m) = st_contentType m"
  "st_authorization (grown c m) = st_authorization m"
  by (simp_all add: grown_def)

lemma slot_val_grown: "fst p < length (st_slots m) \<Longrightarrow> slot_val (grown c m) p = slot_val m p"
  by (simp add: slot_val_def slot_slice_grown)

lemma unaliased_grown:
  assumes "unaliased m" and "st_len m < length (st_slots m) + c"
  shows "unaliased (grown c m)"
proof -
  have s: "sl_arr (slot_slice (grown c m) p) =
      (if fst p < length (st_slots m) then sl_arr (slot_slice m p) else None)"
    if "fst p < length (st_slots m) + c" for p
    using that by (subst slot_slice_grown) (simp add: nil_slice_def)
  have ok: "slice_ok (st_bufs m) (slot_slice (grown c m) p)"
    if "fst p < length (st_slots m) + c" for p
    using that unaliasedD(2) [OF assms(1), of p]
    by (subst slot_slice_grown) (simp add: nil_slice_def slice_ok_def)
  show ?thesis
    using assms ok s unfolding unaliased_def by auto
qed

lemma st_kvs_put_slots:
  assumes u: "unaliased m" and c: "st_len m < length (st_slots m) + c"
  shows "st_kvs (put_slot g (st_len m, False) v (put_slot g (st_len m, True) k (grown c m))) =
    st_kvs m @ [(k, v)]"
proof -
  let ?n = "st_len m" and ?m1 = "put_slot g (st_len m, True) k (grown c m)"
  note u0 = unaliased_grown [OF u c]
  have u1: "unaliased ?m1" using c by (intro unaliased_put_slot u0) simp
  have val: "slot_val (put_slot g (?n, False) v ?m1) q =
      (if q = (?n, False) then v else if q = (?n, True) then k else slot_val (grown c m) q)"
    if "fst q < length (st_slots m) + c" for q
    using that c
    by (simp add: slot_val_put_slot [OF u1] slot_val_put_slot [OF u0])
  have old: "slot_val (grown c m) (i, b) = slot_val m (i, b)" if "i < ?n" for i b
    using that unaliasedD(1) [OF u] by (intro slot_val_grown) simp
  have "map (\<lambda>i. (slot_val (put_slot g (?n, False) v ?m1) (i, True),
          slot_val (put_slot g (?n, False) v ?m1) (i, False))) [0..<?n] =
      map (\<lambda>i. (slot_val m (i, True), slot_val m (i, False))) [0..<?n]"
    using c by (intro map_cong refl) (simp add: val old)
  then show ?thesis
    using c by (simp add: st_kvs_def slot_val_eqs val)
qed

lemma st_kvs_put_value:
  assumes u: "unaliased m" and i: "i < st_len m"
  shows "st_kvs (put_value g i v m) =
    map (\<lambda>j. (slot_key m j, if j = i then v else slot_value m j)) [0..<st_len m]"
  using unaliasedD(1) [OF u] i
  by (auto simp: st_kvs_def put_value_slot slot_val_eqs slot_val_put_slot [OF u])

lemma st_set_default:
  assumes "k \<notin> sm_special"
  shows "st_set g h k v m = (case find_slot k m [0..<st_len m] of
           Some i \<Rightarrow> put_value g i v m | None \<Rightarrow> new_slot g h k v m)"
    and "sm_set k v a = a\<lparr>sm_kvs := sm_set_kvs k v (sm_kvs a)\<rparr>"
  using sm_specialD [OF assms] by (simp_all add: st_set_def sm_set_def)

lemma st_abs_put_slot:
  "st_abs (put_slot g p v m) = (st_abs m)\<lparr>sm_kvs := st_kvs (put_slot g p v m)\<rparr>"
  "st_abs (grown c m) = (st_abs m)\<lparr>sm_kvs := st_kvs (grown c m)\<rparr>"
  by (simp_all add: st_abs_def)

lemma st_abs_special:
  "st_abs (m\<lparr>st_host := v\<rparr>) = (st_abs m)\<lparr>sm_host := v\<rparr>"
  "st_abs (m\<lparr>st_contentType := v\<rparr>) = (st_abs m)\<lparr>sm_contentType := v\<rparr>"
  "st_abs (m\<lparr>st_service := v\<rparr>) = (st_abs m)\<lparr>sm_service := v\<rparr>"
  "st_abs (m\<lparr>st_authorization := v\<rparr>) = (st_abs m)\<lparr>sm_authorization := v\<rparr>"
  by (simp_all add: st_abs_def st_kvs_def slot_key_def slot_value_def)

lemma st_set_abs:
  assumes u: "unaliased m"
  shows "st_abs (st_set g h k v m) = sm_set k v (st_abs m)"
proof (cases "k \<in> sm_special")
  case True
  then show ?thesis
    unfolding st_set_def sm_set_def by (auto simp: sm_special_def st_abs_special)
next
  case False
  note set = st_set_default [OF False]
  have abs: "sm_set_kvs k v (st_kvs m) = (case find_slot k m [0..<st_len m] of
      Some i \<Rightarrow> map (\<lambda>j. (slot_key m j, if j = i then v else slot_value m j)) [0..<st_len m]
    | None \<Rightarrow> st_kvs m @ [(k, v)])"
    unfolding st_kvs_def by (rule sm_set_kvs_find) simp
  have kvs: "sm_kvs (st_abs m) = st_kvs m" by (simp add: st_abs_def)
  show ?thesis
  proof (cases "find_slot k m [0..<st_len m]")
    case None
    obtain c where c: "st_len m < length (st_slots m) + c"
      and n: "new_slot g h k v m =
        put_slot g (st_len m, False) v (put_slot g (st_len m, True) k (grown c m))"
      using new_slot_grown [OF u] by blast
    show ?thesis
      by (simp add: set kvs abs None n st_abs_put_slot st_kvs_put_slots [OF u c])
  next
    case (Some i)
    then have "i < st_len m" using find_slot_Some by fastforce
    from st_kvs_put_value [OF u this] show ?thesis
      by (simp add: set kvs abs Some put_value_slot st_abs_put_slot)
  qed
qed

lemma slot_slice_same:
  "st_slots m' = st_slots m \<Longrightarrow> slot_slice m' = slot_slice m"
  by (simp add: slot_slice_def fun_eq_iff)

lemma unaliased_same:
  assumes "st_slots m' = st_slots m" and "st_bufs m' = st_bufs m" and "st_len m' \<le> st_len m"
    and "unaliased m"
  shows "unaliased m'"
  using assms(2-4) unfolding unaliased_def assms(1) slot_slice_same [OF assms(1)] by simp

lemma unaliased_special [simp]:
  assumes "unaliased m"
  shows "unaliased (m\<lparr>st_host := v\<rparr>)" and "unaliased (m\<lparr>st_contentType := v\<rparr>)"
    and "unaliased (m\<lparr>st_service := v\<rparr>)" and "unaliased (m\<lparr>st_authorization := v\<rparr>)"
  by (rule unaliased_same [of _ m]; simp add: assms)+

lemma unaliased_set:
  assumes u: "unaliased m"
  shows "unaliased (st_set g h k v m)"
proof (cases "k \<in> sm_special")
  case True
  then show ?thesis using u by (auto simp: sm_special_def st_set_def)
next
  case False
  show ?thesis
  proof (cases "find_slot k m [0..<st_len m]")
    case None
    obtain c where c: "st_len m < length (st_slots m) + c"
      and n: "new_slot g h k v m =
        put_slot g (st_len m, False) v (put_slot g (st_len m, True) k (grown c m))"
      using new_slot_grown [OF u] by blast
    then show ?thesis
      by (auto simp: st_set_default [OF False] None intro!: unaliased_put_slot unaliased_grown u)
  next
    case (Some i)
    then have "i < st_len m" using find_slot_Some by fastforce
    then show ?thesis using unaliasedD(1) [OF u]
      by (auto simp: st_set_default [OF False] Some put_value_slot intro!: unaliased_put_slot u)
  qed
qed

lemma unaliased_New [simp, intro]: "unaliased st_New"
  by (simp add: unaliased_def st_New_def)

lemma unaliased_Reset [simp, intro]: "unaliased m \<Longrightarrow> unaliased (st_Reset m)"
  by (rule unaliased_same [where m = m]) (simp_all add: st_Reset_def)

lemma st_abs_New: "st_abs st_New = sm_New"
  by (simp add: st_abs_def st_New_def sm_New_def st_kvs_def)

lemma st_abs_Reset: "st_abs (st_Reset m) = sm_New"
  by (simp add: st_abs_def st_Reset_def sm_New_def st_kvs_def)

lemma st_get_abs: "st_get k m = sm_get k (st_abs m)"
proof -
  have "sm_get_kvs k (st_kvs m) =
      (case find_slot k m [0..<st_len m] of Some i \<Rightarrow> slot_value m i | None \<Rightarrow> [])"
    unfolding st_kvs_def by (rule sm_get_kvs_find)
  then show ?thesis by (auto simp: st_get_def sm_get_def st_abs_def)
qed

text \<open>A map that is only set, read and reset is a header table, whatever capacities it gets.\<close>

interpretation hs: header_table st_get "st_set g h" st_Reset "[]" unaliased
  by unfold_locales
    (auto simp: st_get_abs st_set_abs st_abs_Reset unaliased_set)

subsection \<open>\<open>CopyTo\<close>\<close>

text \<open>
  The destination keeps its own arrays. When its slots do not suffice, the new array of slots
  takes over those in use (\<open>copy(tmp, dst.kvs)\<close>). The source is another map, of which only the
  entries are read.
\<close>

fun st_copy_slots ::
  "(nat \<Rightarrow> nat \<Rightarrow> nat) \<Rightarrow> nat \<Rightarrow> (bytes \<times> bytes) list \<Rightarrow> store_map \<Rightarrow> store_map" where
  "st_copy_slots g i [] dst = dst"
| "st_copy_slots g i ((k, v) # kvs) dst =
     st_copy_slots g (i + 1) kvs (put_value g i v (put_key g i k dst))"

definition st_CopyTo ::
  "(nat \<Rightarrow> nat \<Rightarrow> nat) \<Rightarrow> store_map \<Rightarrow> store_map \<Rightarrow> store_map" where
  "st_CopyTo g m dst =
     (let dst = dst\<lparr>st_host := st_host m, st_service := st_service m,
            st_contentType := st_contentType m, st_authorization := st_authorization m\<rparr>;
          n = st_len m;
          slots = (if length (st_slots dst) < n
                   then take (st_len dst) (st_slots dst) @
                     replicate (n - st_len dst) (nil_slice, nil_slice)
                   else st_slots dst)
      in st_copy_slots g 0 (st_kvs m) (dst\<lparr>st_slots := slots, st_len := n\<rparr>))"

lemma st_copy_slots_frame:
  assumes "unaliased d" and "i + length kvs \<le> length (st_slots d)"
  shows "unaliased (st_copy_slots g i kvs d) \<and>
    st_len (st_copy_slots g i kvs d) = st_len d \<and>
    length (st_slots (st_copy_slots g i kvs d)) = length (st_slots d) \<and>
    st_host (st_copy_slots g i kvs d) = st_host d \<and>
    st_service (st_copy_slots g i kvs d) = st_service d \<and>
    st_contentType (st_copy_slots g i kvs d) = st_contentType d \<and>
    st_authorization (st_copy_slots g i kvs d) = st_authorization d"
  using assms
proof (induction g i kvs d rule: st_copy_slots.induct)
  case (2 g i k v kvs d)
  then have "unaliased (put_slot g (i, False) v (put_slot g (i, True) k d))"
    by (intro unaliased_put_slot) auto
  with 2 show ?case by (simp add: put_value_slot put_key_slot)
qed simp

lemma st_copy_slots_val:
  assumes "unaliased d" and "i + length kvs \<le> length (st_slots d)" and "j < length (st_slots d)"
  shows "slot_val (st_copy_slots g i kvs d) (j, b) =
    (if i \<le> j \<and> j < i + length kvs
     then (if b then fst (kvs ! (j - i)) else snd (kvs ! (j - i))) else slot_val d (j, b))"
  using assms
proof (induction g i kvs d rule: st_copy_slots.induct)
  case (2 g i k v kvs d)
  let ?d1 = "put_slot g (i, True) k d"
  let ?d2 = "put_slot g (i, False) v ?d1"
  from 2 have u1: "unaliased ?d1" by (intro unaliased_put_slot) auto
  with 2 have u2: "unaliased ?d2" by (intro unaliased_put_slot) auto
  have "slot_val ?d2 (j, b) =
      (if j = i then if b then k else v else slot_val d (j, b))"
    using "2.prems" by (simp add: slot_val_put_slot [OF u1] slot_val_put_slot [OF "2.prems"(1)])
  with 2 u2 show ?case
    by (auto simp: put_value_slot put_key_slot nth_Cons' not_less_eq_eq)
qed auto

lemma unaliased_pad:
  assumes u: "unaliased m"
  shows "unaliased (m\<lparr>st_slots := take (st_len m) (st_slots m) @
    replicate c (nil_slice, nil_slice), st_len := st_len m + c\<rparr>)" (is "unaliased ?m")
proof -
  have len: "st_len m \<le> length (st_slots m)" by (rule unaliasedD(1) [OF u])
  have s: "slot_slice ?m p = (if fst p < st_len m then slot_slice m p else nil_slice)"
    if "fst p < length (st_slots ?m)" for p
    using that len by (cases p) (auto simp: slot_slice_def nth_append)
  have ok: "slice_ok (st_bufs m) nil_slice" and none: "sl_arr nil_slice = None"
    by (simp_all add: slice_ok_def nil_slice_def)
  show ?thesis
    unfolding unaliased_def
    by (use len u in \<open>auto simp: s ok none unaliased_def split: if_splits\<close>)
qed

lemma unaliased_len:
  "unaliased m \<Longrightarrow> n \<le> length (st_slots m) \<Longrightarrow> unaliased (m\<lparr>st_len := n\<rparr>)"
  unfolding unaliased_def by (simp add: slot_slice_same [of "m\<lparr>st_len := n\<rparr>" m])

lemma st_CopyTo_abs:
  assumes u: "unaliased dst"
  shows "st_abs (st_CopyTo g m dst) = st_abs m" and "unaliased (st_CopyTo g m dst)"
proof -
  let ?d0 = "dst\<lparr>st_host := st_host m, st_service := st_service m,
    st_contentType := st_contentType m, st_authorization := st_authorization m\<rparr>"
  have u0: "unaliased ?d0" by (rule unaliased_same [OF _ _ _ u]) simp_all
  define d where "d = (if length (st_slots ?d0) < st_len m
     then ?d0\<lparr>st_slots := take (st_len ?d0) (st_slots ?d0) @
       replicate (st_len m - st_len ?d0) (nil_slice, nil_slice), st_len := st_len m\<rparr>
     else ?d0\<lparr>st_len := st_len m\<rparr>)"
  have ud: "unaliased d"
  proof (cases "length (st_slots ?d0) < st_len m")
    case True
    then have "st_len ?d0 + (st_len m - st_len ?d0) = st_len m" using unaliasedD(1) [OF u] by simp
    with True unaliased_pad [OF u0, of "st_len m - st_len ?d0"] show ?thesis
      by (simp only: d_def if_True)
  next
    case False
    with unaliased_len [OF u0, of "st_len m"] show ?thesis by (simp add: d_def)
  qed
  have len: "st_len m \<le> length (st_slots d)" and n: "st_len d = st_len m"
    and spec: "st_host d = st_host m" "st_service d = st_service m"
      "st_contentType d = st_contentType m" "st_authorization d = st_authorization m"
    using unaliasedD(1) [OF u] by (auto simp: d_def)
  have c: "st_CopyTo g m dst = st_copy_slots g 0 (st_kvs m) d"
    by (simp add: st_CopyTo_def d_def Let_def)
  have k: "length (st_kvs m) = st_len m" by (simp add: st_kvs_def)
  have fit: "0 + length (st_kvs m) \<le> length (st_slots d)" using len k by simp
  note frame = st_copy_slots_frame [OF ud fit, of g]
  show "unaliased (st_CopyTo g m dst)" using frame by (simp add: c)
  have "st_kvs (st_copy_slots g 0 (st_kvs m) d) = st_kvs m"
    using frame len n k
    by (auto simp: st_kvs_def [of "st_copy_slots g 0 (st_kvs m) d"] slot_val_eqs
        st_copy_slots_val [OF ud fit] intro!: nth_equalityI)
  then show "st_abs (st_CopyTo g m dst) = st_abs m"
    using frame spec by (simp add: c st_abs_def)
qed

subsection \<open>\<open>del\<close>\<close>

lemma st_kvs_take:
  "st_len m \<le> length (st_slots m) \<Longrightarrow>
   st_kvs m = map (\<lambda>s. (slice_val (st_bufs m) (fst s), slice_val (st_bufs m) (snd s)))
     (take (st_len m) (st_slots m))"
  by (auto simp: st_kvs_def slot_key_def slot_value_def intro!: nth_equalityI)

lemma length_remove_slot:
  assumes "st_len m \<le> length (st_slots m)" and "i < st_len m"
  shows "length (st_slots (remove_slot i m)) = length (st_slots m)"
    and "st_len (remove_slot i m) \<le> length (st_slots (remove_slot i m))"
  using assms by (auto simp: remove_slot_def Let_def min_def)

lemma st_kvs_remove_slot:
  assumes "st_len m \<le> length (st_slots m)" and "i < st_len m"
  shows "st_kvs (remove_slot i m) = take i (st_kvs m) @ drop (i + 1) (st_kvs m)"
proof -
  let ?s = "st_slots m" and ?n = "st_len m"
  let ?kept = "take i ?s @ take (?n - (i + 1)) (drop (i + 1) ?s)"
  have "?n - 1 = length ?kept" using assms by auto
  then have "take (?n - 1) (?kept @ drop (?n - 1) ?s) = ?kept"
    by (metis append_eq_conv_conj)
  with assms show ?thesis
    unfolding st_kvs_take [OF length_remove_slot(2) [OF assms]]
    by (simp add: st_kvs_take remove_slot_def Let_def take_map drop_map drop_take min_def)
qed

lemma st_del_loop_abs:
  "st_len m \<le> length (st_slots m) \<Longrightarrow>
   st_abs (st_del_loop k i m) = (st_abs m)\<lparr>sm_kvs := sm_del_kvs k i (st_kvs m)\<rparr>"
proof (induction k i m rule: st_del_loop.induct)
  case (1 k i m)
  let ?m = "if slot_key m i = k then remove_slot i m else m"
  have len: "length (st_kvs m) = st_len m" by (simp add: st_kvs_def)
  show ?case
  proof (cases "i < st_len m")
    case True
    then have key: "fst (st_kvs m ! i) = slot_key m i" by (simp add: st_kvs_def)
    have kvs: "st_kvs ?m =
        (if fst (st_kvs m ! i) = k then take i (st_kvs m) @ drop (i + 1) (st_kvs m) else st_kvs m)"
      using st_kvs_remove_slot [OF "1.prems" True] by (simp add: key)
    have "st_len ?m \<le> length (st_slots ?m)"
      using length_remove_slot(2) [OF "1.prems" True] "1.prems" by simp
    from "1.IH" [OF True this]
    have "st_abs (st_del_loop k i m) = (st_abs ?m)\<lparr>sm_kvs := sm_del_kvs k (i + 1) (st_kvs ?m)\<rparr>"
      using True by (simp add: st_del_loop.simps [of k i m])
    also have "\<dots> = (st_abs m)\<lparr>sm_kvs := sm_del_kvs k i (st_kvs m)\<rparr>"
      using True unfolding kvs
      by (simp add: sm_del_kvs.simps [of k i "st_kvs m"] len st_abs_def remove_slot_def Let_def)
    finally show ?thesis .
  next
    case False
    then show ?thesis
      by (simp add: st_del_loop.simps [of k i m] sm_del_kvs.simps [of k i "st_kvs m"] len st_abs_def)
  qed
qed

text \<open>Deletion gives the right map, also for the readers that come after it.\<close>

lemma st_del_abs:
  assumes "st_len m \<le> length (st_slots m)"
  shows "st_abs (st_del k m) = sm_del k (st_abs m)"
proof (cases "k \<in> sm_special")
  case True
  then show ?thesis
    unfolding st_del_def sm_del_def by (auto simp: sm_special_def st_abs_special)
next
  case False
  have "sm_kvs (st_abs m) = st_kvs m" by (simp add: st_abs_def)
  with sm_specialD [OF False] show ?thesis
    by (simp add: st_del_def sm_del_def st_del_loop_abs [OF assms])
qed

subsection \<open>Properties\<close>

lemma single_not_special [simp]: "[b] \<notin> sm_special"
proof
  assume "[b] \<in> sm_special"
  then have "length [b] \<in> {4, 12, 7, 13}" unfolding sm_special_def by (auto dest: arg_cong [where f = length])
  then show False by simp
qed

text \<open>A one-byte key or value written into a slot that has none, or one that owns its array.\<close>

lemma append0_single:
  "append0 g [b] bufs nil_slice = (bufs @ [b # replicate (g 0 1 - 1) 0],
     \<lparr>sl_arr = Some (length bufs), sl_len = 1\<rparr>)"
  "bufs ! a = b' # r \<Longrightarrow> append0 g [b] bufs \<lparr>sl_arr = Some a, sl_len = n\<rparr> =
     (bufs[a := b # r], \<lparr>sl_arr = Some a, sl_len = 1\<rparr>)"
  by (auto simp: append0_def slice_cap_def nil_slice_def)

lemma replicate_four: "replicate (max 4 n) x = x # x # x # x # replicate (n - 4) x"
proof -
  have "max 4 n = Suc (Suc (Suc (Suc (n - 4))))" by simp
  then show ?thesis by (simp only: replicate_Suc)
qed

lemmas store_eval = new_slot_def put_key_def put_value_def append0_single Let_def
  slot_key_def slot_value_def slice_val_def replicate_four upt_rec

text \<open>An operation of a client that only fills and resets: \<open>Set(k, v)\<close>, or \<open>Reset()\<close>.\<close>

definition st_run ::
  "(nat \<Rightarrow> nat \<Rightarrow> nat) \<Rightarrow> (nat \<Rightarrow> nat \<Rightarrow> nat) \<Rightarrow> (bytes \<times> bytes) option list \<Rightarrow> store_map \<Rightarrow> store_map" where
  "st_run g h ops m =
     fold (\<lambda>c. case c of Some (k, v) \<Rightarrow> st_set g h k v | None \<Rightarrow> st_Reset) ops m"

definition sm_run :: "(bytes \<times> bytes) option list \<Rightarrow> simple_map \<Rightarrow> simple_map" where
  "sm_run ops m = fold (\<lambda>c. case c of Some (k, v) \<Rightarrow> sm_set k v | None \<Rightarrow> sm_Reset) ops m"

lemma st_run_abs:
  "unaliased m \<Longrightarrow> st_abs (st_run g h ops m) = sm_run ops (st_abs m) \<and> unaliased (st_run g h ops m)"
proof (induction ops arbitrary: m)
  case (Cons c ops)
  show ?case
  proof (cases c)
    case None
    have "st_abs (st_Reset m) = sm_Reset (st_abs m)"
      by (simp add: st_abs_def st_Reset_def sm_Reset_def st_kvs_def)
    with Cons.IH [of "st_Reset m"] Cons.prems None show ?thesis
      by (simp add: st_run_def sm_run_def unaliased_Reset)
  next
    case (Some kv)
    with Cons.IH [OF unaliased_set [OF Cons.prems]] show ?thesis
      by (cases kv) (simp add: st_run_def sm_run_def st_set_abs [OF Cons.prems])
  qed
qed (simp_all add: st_run_def sm_run_def)

text \<open>
  C20. In-place storage refines the map of values: a pooled map that is filled and reset any
  number of times, in any order and whatever capacities \<open>append\<close> chooses, has at every moment
  the contents the map of values has, so that reuse of the byte arrays is never observable.
\<close>

theorem store_refines:
  "st_abs (st_run g h ops st_New) = sm_run ops sm_New \<and>
   st_get k (st_run g h ops st_New) = sm_get k (sm_run ops sm_New)"
  using st_run_abs [OF unaliased_New, of g h ops] by (simp add: st_get_abs st_abs_New)

text \<open>
  \<open>CopyTo\<close> into a map that was only filled and reset makes a copy that is independent of
  the source: it has the source's contents, and stays correct under further fills and resets.
\<close>

theorem store_copy_independent:
  "st_abs (st_run g h ops' (st_CopyTo g src (st_run g h ops st_New))) = sm_run ops' (st_abs src)"
proof -
  have "unaliased (st_run g h ops st_New)" using st_run_abs [OF unaliased_New] by blast
  from st_CopyTo_abs [OF this, of g src] st_run_abs show ?thesis by simp
qed

text \<open>
  C40. The defect of \<open>del\<close>: it leaves the last slot's slices behind the end of \<open>kvs\<close>, and the
  next \<open>Set\<close> of a new key writes into them. Whatever capacities are chosen, after
  \<open>Set a; Set b; Set c; Del a; Set d\<close> the header \<open>c\<close> is gone (two entries \<open>d\<close> instead), and the
  map stays damaged after \<open>Reset\<close>, as it happens to a command from the pool: of
  \<open>Set x; Set y; Set z\<close> the header \<open>y\<close> is lost.
\<close>

theorem del_set_corrupts:
  fixes g h
  defines "put \<equiv> \<lambda>k. st_set g h [k] [k + 100]"
  defines "m \<equiv> put 4 (st_del [1] (put 3 (put 2 (put 1 st_New))))"
  shows "st_kvs m = [([2], [102]), ([4], [104]), ([4], [104])] \<and> st_get [3] m = [] \<and>
    st_kvs (put 7 (put 6 (put 5 (st_Reset m)))) = [([5], [105]), ([7], [107]), ([7], [107])] \<and>
    st_get [6] (put 7 (put 6 (put 5 (st_Reset m)))) = []"
proof -
  obtain r where r: "replicate (g 0 (Suc 0) - Suc 0) 0 = (r :: bytes)" by blast
  obtain ss where ss: "replicate (h 0 4 - 4) (nil_slice, nil_slice) = ss" by blast
  note ev = st_set_default store_eval r ss
  define own where "own i = (\<lparr>sl_arr = Some i, sl_len = 1\<rparr>, \<lparr>sl_arr = Some (i + 1), sl_len = 1\<rparr>)"
    for i :: nat
  define st where "st a b c x y z n = st_New\<lparr>
      st_bufs := [a # r, (a + 100) # r, b # r, (b + 100) # r, c # r, (c + 100) # r],
      st_slots := x # y # z # (nil_slice, nil_slice) # ss, st_len := n\<rparr>" for a b c x y z n
  let ?nil = "(nil_slice, nil_slice)"
  have "put 1 st_New = st_New\<lparr>st_bufs := [1 # r, 101 # r],
      st_slots := own 0 # ?nil # ?nil # ?nil # ss, st_len := 1\<rparr>"
    by (simp add: put_def ev st_New_def own_def)
  moreover have "put 2 (st_New\<lparr>st_bufs := [1 # r, 101 # r],
      st_slots := own 0 # ?nil # ?nil # ?nil # ss, st_len := 1\<rparr>) =
      st_New\<lparr>st_bufs := [1 # r, 101 # r, 2 # r, 102 # r],
        st_slots := own 0 # own 2 # ?nil # ?nil # ss, st_len := 2\<rparr>"
    by (simp add: put_def ev own_def)
  moreover have "put 3 (st_New\<lparr>st_bufs := [1 # r, 101 # r, 2 # r, 102 # r],
        st_slots := own 0 # own 2 # ?nil # ?nil # ss, st_len := 2\<rparr>) =
      st 1 2 3 (own 0) (own 2) (own 4) 3"
    by (simp add: put_def ev own_def st_def)
  ultimately have "put 3 (put 2 (put 1 st_New)) = st 1 2 3 (own 0) (own 2) (own 4) 3" by simp
  moreover have "st_del [1] (st 1 2 3 (own 0) (own 2) (own 4) 3) =
      st 1 2 3 (own 2) (own 4) (own 4) 2"
    using sm_specialD [OF single_not_special [of 1]]
    by (simp add: st_del_def st_del_loop.simps remove_slot_def store_eval st_def own_def)
  moreover have "put 4 (st 1 2 3 (own 2) (own 4) (own 4) 2) = st 1 2 4 (own 2) (own 4) (own 4) 3"
    by (simp add: put_def ev st_def own_def)
  ultimately have m: "m = st 1 2 4 (own 2) (own 4) (own 4) 3" by (simp add: m_def)
  have "put 5 (st_Reset m) = st 1 5 4 (own 2) (own 4) (own 4) 1"
    by (simp add: m put_def ev st_def own_def st_Reset_def) (simp add: st_New_def)
  moreover have "put 6 (st 1 5 4 (own 2) (own 4) (own 4) 1) = st 1 5 6 (own 2) (own 4) (own 4) 2"
    by (simp add: put_def ev st_def own_def)
  moreover have "put 7 (st 1 5 6 (own 2) (own 4) (own 4) 2) = st 1 5 7 (own 2) (own 4) (own 4) 3"
    by (simp add: put_def ev st_def own_def)
  ultimately have p: "put 7 (put 6 (put 5 (st_Reset m))) = st 1 5 7 (own 2) (own 4) (own 4) 3"
    by simp
  have kvs: "st_kvs (st 1 b c (own 2) (own 4) (own 4) 3) =
      [([b], [b + 100]), ([c], [c + 100]), ([c], [c + 100])]" for b c
    by (simp add: st_kvs_def store_eval st_def own_def)
  have get: "st_get [k] x = sm_get_kvs [k] (st_kvs x)" for k x
    using sm_specialD [OF single_not_special [of k]]
    by (simp add: st_get_abs sm_get_def st_abs_def)
  show ?thesis unfolding p get unfolding m kvs by simp
qed

end
