(* ===== verification/Crc32.thy ===== *)
theory Crc32
  imports Go_Buffer
begin

text \<open>
  The part of Go's hash/crc32 the program uses: \<open>crc32.Checksum(b, crc32.IEEETable)\<close>, the
  checksum that ends a BOLT v2 frame, as the library computes it from a table of 256 words for
  the reversed IEEE polynomial. The definition is checked on the published test vector and
  related to the bit-serial form of the same checksum.
\<close>

definition crc_step :: "32 word \<Rightarrow> 32 word" where
  "crc_step c = (if bit c 0 then drop_bit 1 c XOR 0xedb88320 else drop_bit 1 c)"

definition crc_steps :: "32 word \<Rightarrow> 32 word" where
  "crc_steps c = crc_step (crc_step (crc_step (crc_step
     (crc_step (crc_step (crc_step (crc_step c)))))))"

definition IEEETable :: "32 word list" where
  "IEEETable = map (\<lambda>i. crc_steps (word_of_nat i)) [0..<256]"

definition crc_update :: "32 word \<Rightarrow> bytes \<Rightarrow> 32 word" where
  "crc_update crc p =
     NOT (fold (\<lambda>v crc. IEEETable ! unat (ucast crc XOR v :: byte) XOR drop_bit 8 crc) p (NOT crc))"

definition Checksum :: "bytes \<Rightarrow> 32 word" where
  "Checksum p = crc_update 0 p"

definition MustPutCRC32 :: "buffer \<Rightarrow> buffer option" where
  "MustPutCRC32 b = MustPutUint32 (Checksum (buf_data b)) b"

lemma IEEETable_nth: "IEEETable ! unat (b :: byte) = crc_steps (ucast b)"
  by (simp add: IEEETable_def del: upt_conv_Cons)

text \<open>One byte at a time over the table is eight single-bit steps.\<close>

lemma crc_step_xor: "crc_step (a XOR b) = crc_step a XOR crc_step b"
  by (rule bit_word_eqI) (auto simp: crc_step_def bit_simps)

lemma crc_steps_xor: "crc_steps (a XOR b) = crc_steps a XOR crc_steps b"
  by (simp add: crc_steps_def crc_step_xor)

lemma crc_step_drop:
  assumes "k < 8"
  shows "crc_step (drop_bit k (push_bit 8 d)) = drop_bit (k + 1) (push_bit 8 d)"
proof -
  have "\<not> bit (drop_bit k (push_bit 8 d)) 0" using assms by (simp add: bit_drop_bit_eq bit_push_bit_iff)
  then show ?thesis by (simp add: crc_step_def ac_simps)
qed

lemma crc_steps_push: "crc_steps (push_bit 8 d) = drop_bit 8 (push_bit 8 d)"
proof -
  have "crc_steps (drop_bit 0 (push_bit 8 d)) = drop_bit 8 (push_bit 8 d)"
    unfolding crc_steps_def by (simp only: crc_step_drop) (simp add: crc_step_drop eval_nat_numeral)
  then show ?thesis by simp
qed

definition crc_byte :: "byte \<Rightarrow> 32 word \<Rightarrow> 32 word" where
  "crc_byte v c = crc_steps (c XOR ucast v)"

definition crc_serial :: "bytes \<Rightarrow> 32 word" where
  "crc_serial p = NOT (fold crc_byte p (NOT 0))"

lemma table_step:
  "IEEETable ! unat (ucast c XOR v :: byte) XOR drop_bit 8 c = crc_steps (c XOR ucast v)"
proof -
  have split: "c XOR ucast v = ucast (ucast c XOR v :: byte) XOR push_bit 8 (drop_bit 8 c)"
    by (rule bit_word_eqI) (auto simp: bit_simps)
  have "drop_bit 8 (push_bit 8 (drop_bit 8 c)) = drop_bit 8 c"
    by (rule bit_word_eqI) (auto simp: bit_simps dest: bit_imp_le_length)
  then show ?thesis
    by (simp only: IEEETable_nth split crc_steps_xor crc_steps_push)
qed

lemma Checksum_serial: "Checksum p = crc_serial p"
  unfolding Checksum_def crc_update_def crc_serial_def table_step crc_byte_def ..

text \<open>The published check value: the checksum of the nine digits \<open>123456789\<close>.\<close>

lemma all_ones: "NOT (0 :: 32 word) = 0xFFFFFFFF"
  by simp

lemma Checksum_digits: "Checksum [0x31, 0x32, 0x33, 0x34, 0x35, 0x36, 0x37, 0x38, 0x39] = 0xCBF43926"
  unfolding Checksum_serial crc_serial_def all_ones
  by (simp add: crc_byte_def crc_steps_def crc_step_def)

end
