(* ===== verification/Command.thy ===== *)
theory Command
  imports Simple_Map Crc32
begin

text \<open>
  The command of src/sofabolt/command.go, the record every protocol version is parsed into and
  written from, with its constants, printers and the operations that do not touch the wire
  (\<open>Reset\<close>, the setters, the two copies, \<open>Size\<close>).

  The header map of a command is the map of values of \<open>Simple_Map\<close>; byte slices are their
  bytes. \<open>ShallowCopyTo\<close> therefore looks here as it does to a caller that does not write to
  either command afterwards.
\<close>

text \<open>The named constants of the types Proto, Version, Type, CMDCode, Codec and Status.\<close>

abbreviation ProtoBOLTV1 :: byte where "ProtoBOLTV1 \<equiv> 0x01"
abbreviation ProtoBOLTV2 :: byte where "ProtoBOLTV2 \<equiv> 0x02"
abbreviation ProtoTBRemoting :: byte where "ProtoTBRemoting \<equiv> 0x0d"
abbreviation VersionBOLTV1 :: byte where "VersionBOLTV1 \<equiv> 1"
abbreviation VersionBOLTV2 :: byte where "VersionBOLTV2 \<equiv> 2"
abbreviation TypeBOLTResponse :: byte where "TypeBOLTResponse \<equiv> 0"
abbreviation TypeBOLTRequest :: byte where "TypeBOLTRequest \<equiv> 1"
abbreviation TypeBOLTRequestOneWay :: byte where "TypeBOLTRequestOneWay \<equiv> 2"
abbreviation TypeTBRemotingOneWay :: byte where "TypeTBRemotingOneWay \<equiv> 1"
abbreviation TypeTBRemotingTwoWay :: byte where "TypeTBRemotingTwoWay \<equiv> 2"
abbreviation CMDCodeBOLTHeartbeat :: "16 word" where "CMDCodeBOLTHeartbeat \<equiv> 0"
abbreviation CMDCodeBOLTRequest :: "16 word" where "CMDCodeBOLTRequest \<equiv> 1"
abbreviation CMDCodeBOLTResponse :: "16 word" where "CMDCodeBOLTResponse \<equiv> 2"
abbreviation CMDCodeTRemotingHeartbeat :: "16 word" where "CMDCodeTRemotingHeartbeat \<equiv> 0"
abbreviation CMDCodeTRemotingRequest :: "16 word" where "CMDCodeTRemotingRequest \<equiv> 13"
abbreviation CMDCodeTRemotingResponse :: "16 word" where "CMDCodeTRemotingResponse \<equiv> 14"
abbreviation CodecHessian :: byte where "CodecHessian \<equiv> 0"
abbreviation CodecHessian2 :: byte where "CodecHessian2 \<equiv> 1"
abbreviation CodecProtobuf :: byte where "CodecProtobuf \<equiv> 11"
abbreviation CodecTBRemotingHessian2 :: byte where "CodecTBRemotingHessian2 \<equiv> 4"
abbreviation CodecJSON :: byte where "CodecJSON \<equiv> 12"
abbreviation CodecTBRemotingHessian1 :: byte where "CodecTBRemotingHessian1 \<equiv> 1"
abbreviation StatusSuccess :: "16 word" where "StatusSuccess \<equiv> 0"
abbreviation StatusError :: "16 word" where "StatusError \<equiv> 1"
abbreviation StatusServerException :: "16 word" where "StatusServerException \<equiv> 2"
abbreviation StatusUnknown :: "16 word" where "StatusUnknown \<equiv> 3"
abbreviation StatusServerThreadPoolBusy :: "16 word" where "StatusServerThreadPoolBusy \<equiv> 4"
abbreviation StatusErrorComm :: "16 word" where "StatusErrorComm \<equiv> 5"
abbreviation StatusNoProcessor :: "16 word" where "StatusNoProcessor \<equiv> 6"
abbreviation StatusTimeout :: "16 word" where "StatusTimeout \<equiv> 7"
abbreviation StatusClientSendError :: "16 word" where "StatusClientSendError \<equiv> 8"
abbreviation StatusCodecException :: "16 word" where "StatusCodecException \<equiv> 9"
abbreviation StatusConnectionClosed :: "16 word" where "StatusConnectionClosed \<equiv> 16"
abbreviation StatusServerSerialException :: "16 word" where "StatusServerSerialException \<equiv> 17"
abbreviation StatusServerDeseralException :: "16 word" where "StatusServerDeseralException \<equiv> 18"

definition ClassRequest :: bytes where
  "ClassRequest = str_bytes ''com.alipay.sofa.rpc.core.request.SofaRequest''"

definition ClassResponse :: bytes where
  "ClassResponse = str_bytes ''com.alipay.sofa.rpc.core.response.SofaResponse''"

definition Proto_String :: "byte \<Rightarrow> string" where
  "Proto_String p =
     (if p = ProtoBOLTV1 then ''boltv1'' else if p = ProtoBOLTV2 then ''boltv2''
      else if p = ProtoTBRemoting then ''tbremoting'' else ''unknown'')"

definition Version_String :: "byte \<Rightarrow> string" where
  "Version_String c =
     (if c = VersionBOLTV1 then ''boltv1'' else if c = VersionBOLTV2 then ''boltv2''
      else ''unknown'')"

definition Type_String :: "byte \<Rightarrow> string" where
  "Type_String t =
     (if t = TypeBOLTResponse then ''response'' else if t = TypeBOLTRequest then ''request''
      else if t = TypeBOLTRequestOneWay then ''oneway'' else ''unknown'')"

definition CMDCode_String :: "16 word \<Rightarrow> string" where
  "CMDCode_String c =
     (if c = CMDCodeBOLTHeartbeat then ''heartbeat''
      else if c = CMDCodeBOLTRequest then ''bolt-req''
      else if c = CMDCodeBOLTResponse then ''bolt-res''
      else if c = CMDCodeTRemotingRequest then ''tr-req''
      else if c = CMDCodeTRemotingResponse then ''tr-res''
      else ''unknown cmdcode'')"

definition Codec_String :: "byte \<Rightarrow> string" where
  "Codec_String c =
     (if c = CodecHessian then ''hessian''
      else if c = CodecHessian2 then ''hessian2''
      else if c = CodecProtobuf then ''prtobuf''
      else if c = CodecTBRemotingHessian2 then ''tbhessian2''
      else ''unknown'')"

text \<open>
  The \<open>init\<close> of the package registers the classes of the connection objects with the Hessian package.
\<close>

datatype java_class = TBRemotingConnectionRequest | TBRemotingConnectionResponse

definition command_init :: "(java_class \<Rightarrow> 'g \<Rightarrow> 'g) \<Rightarrow> 'g \<Rightarrow> 'g" where
  "command_init RegisterJavaClass trregistry =
     RegisterJavaClass TBRemotingConnectionResponse (RegisterJavaClass TBRemotingConnectionRequest trregistry)"

subsection \<open>The command\<close>

record command =
  c_proto :: byte
  c_ver1 :: byte
  c_typ :: byte
  c_cmdcode :: "16 word"
  c_ver2 :: byte
  c_rid :: "32 word"
  c_codec :: byte
  c_switc :: byte
  c_timeout :: "32 word"
  c_status :: "16 word"
  c_reserved :: byte
  c_connection :: bytes
  c_class :: bytes
  c_header :: bytes
  c_content :: bytes
  c_crc32 :: "32 word"
  c_headers :: simple_map

text \<open>The zero value \<open>Command{}\<close>.\<close>

definition Command_zero :: command where
  "Command_zero = \<lparr>c_proto = 0, c_ver1 = 0, c_typ = 0, c_cmdcode = 0, c_ver2 = 0, c_rid = 0,
     c_codec = 0, c_switc = 0, c_timeout = 0, c_status = 0, c_reserved = 0, c_connection = [],
     c_class = [], c_header = [], c_content = [], c_crc32 = 0, c_headers = sm_New\<rparr>"

definition Command_Reset :: "command \<Rightarrow> command" where
  "Command_Reset c = c\<lparr>c_proto := 0, c_ver1 := 0, c_typ := 0, c_cmdcode := 0, c_ver2 := 0,
     c_rid := 0, c_codec := 0, c_switc := 0, c_timeout := 0, c_status := 0, c_reserved := 0,
     c_connection := [], c_class := [], c_header := [], c_content := [], c_crc32 := 0,
     c_headers := sm_Reset (c_headers c)\<rparr>"

definition IsRequest :: "command \<Rightarrow> bool" where
  "IsRequest c \<longleftrightarrow> c_typ c = TypeBOLTRequest \<or> c_typ c = TypeBOLTRequestOneWay \<or>
     c_typ c = TypeTBRemotingOneWay"

text \<open>\<open>GetHeaders().Set(k, v)\<close>, the way the callers change the header map.\<close>

definition Headers_Set :: "bytes \<Rightarrow> bytes \<Rightarrow> command \<Rightarrow> command" where
  "Headers_Set k v c = c\<lparr>c_headers := sm_set k v (c_headers c)\<rparr>"

definition ShallowCopyTo :: "command \<Rightarrow> command \<Rightarrow> command" where
  "ShallowCopyTo c d = d\<lparr>c_proto := c_proto c, c_ver1 := c_ver1 c, c_typ := c_typ c,
     c_cmdcode := c_cmdcode c, c_ver2 := c_ver2 c, c_rid := c_rid c, c_codec := c_codec c,
     c_switc := c_switc c, c_timeout := c_timeout c, c_status := c_status c,
     c_class := c_class c, c_header := c_header c, c_content := c_content c,
     c_crc32 := c_crc32 c, c_headers := c_headers d\<rparr>"

definition Command_CopyTo :: "command \<Rightarrow> command \<Rightarrow> command" where
  "Command_CopyTo c d = d\<lparr>c_proto := c_proto c, c_ver1 := c_ver1 c, c_typ := c_typ c,
     c_cmdcode := c_cmdcode c, c_ver2 := c_ver2 c, c_rid := c_rid c, c_codec := c_codec c,
     c_switc := c_switc c, c_timeout := c_timeout c, c_status := c_status c,
     c_class := c_class c, c_header := c_header c, c_content := c_content c,
     c_crc32 := c_crc32 c, c_headers := sm_CopyTo (c_headers c) (c_headers d)\<rparr>"

text \<open>\<open>Size\<close>: the number of bytes the source says \<open>Write\<close> needs.\<close>

definition Command_Size :: "command \<Rightarrow> nat" where
  "Command_Size c =
     (let classLen = length (c_class c);
          headerLen = sm_GetEncodeSize (c_headers c);
          contentLen = length (c_content c)
      in if c_proto c = 0 \<or> c_proto c = ProtoBOLTV1 then
           (if c_typ c = TypeBOLTRequest \<or> c_typ c = TypeBOLTRequestOneWay
            then 20 + classLen + headerLen + contentLen
            else 24 + classLen + headerLen + contentLen)
         else if c_proto c = ProtoBOLTV2 then
           (if c_typ c = TypeBOLTRequest \<or> c_typ c = TypeBOLTRequestOneWay
            then 24 + classLen + headerLen + contentLen
            else 22 + classLen + headerLen + contentLen)
         else if c_proto c = ProtoTBRemoting then 14 + classLen + headerLen + contentLen
         else 0)"

subsection \<open>Printing\<close>

text \<open>\<open>strconv.Itoa\<close> of a non-negative value and \<open>hex.EncodeToString\<close>.\<close>

fun itoa :: "nat \<Rightarrow> bytes" where
  "itoa n = (if n < 10 then [word_of_nat (48 + n)]
             else itoa (n div 10) @ [word_of_nat (48 + n mod 10)])"

declare itoa.simps [simp del]

definition hex_digit :: "nat \<Rightarrow> byte" where
  "hex_digit n = word_of_nat (if n < 10 then 48 + n else 87 + n)"

definition hex_EncodeToString :: "bytes \<Rightarrow> bytes" where
  "hex_EncodeToString b = concat (map (\<lambda>x. [hex_digit (unat x div 16), hex_digit (unat x mod 16)]) b)"

definition Command_String :: "command \<Rightarrow> bytes" where
  "Command_String c =
     (let s = str_bytes; sep = str_bytes '','' in
      s ''Proto:'' @ s (Proto_String (c_proto c)) @ sep @
      s ''Ver1:'' @ s (Version_String (c_ver1 c)) @ sep @
      s ''Type:'' @ s (Type_String (c_typ c)) @ sep @
      s ''Cmdcode:'' @ s (CMDCode_String (c_cmdcode c)) @ sep @
      s ''Ver2:'' @ itoa (unat (c_ver2 c)) @ sep @
      s ''Rid:'' @ itoa (unat (c_rid c)) @ sep @
      s ''Codec:'' @ s (Codec_String (c_codec c)) @ sep @
      s ''Switch:'' @ itoa (unat (c_switc c)) @ sep @
      s ''Timeout:'' @ itoa (unat (c_timeout c)) @ sep @
      s ''Status:'' @ itoa (unat (c_status c)) @ sep @
      s ''ConnectionLen:'' @ itoa (length (c_connection c)) @ sep @
      s ''ClassLen:'' @ itoa (length (c_class c)) @ sep @
      s ''HeaderLen:'' @ itoa (sm_GetEncodeSize (c_headers c)) @ sep @
      s ''ContentLen:'' @ itoa (length (c_content c)) @ sep @
      s ''Class:'' @ c_class c @ sep @
      s ''Connection:'' @ c_connection c @ sep @
      s ''Headers:'' @ sm_String (c_headers c) @ sep @
      s ''Content:'' @ hex_EncodeToString (c_content c) @ sep @
      s ''CRC32:'' @ itoa (unat (c_crc32 c)))"

subsection \<open>Facts\<close>

text \<open>
  A reset command differs from a fresh one in nothing but \<open>raw\<close>, the window of the last
  parsed header block that the map keeps.
\<close>

lemma Command_Reset_zero:
  "Command_Reset c = Command_zero\<lparr>c_headers := sm_New\<lparr>sm_raw := sm_raw (c_headers c)\<rparr>\<rparr>"
  by (simp add: Command_Reset_def Command_zero_def sm_Reset_def sm_New_def)

lemma ShallowCopyTo_headers [simp]:
  "c_headers (ShallowCopyTo c d) = c_headers d" "c_connection (ShallowCopyTo c d) = c_connection d"
  by (simp_all add: ShallowCopyTo_def)

lemma Command_CopyTo_headers [simp]:
  "c_headers (Command_CopyTo c d) = sm_CopyTo (c_headers c) (c_headers d)"
  "c_connection (Command_CopyTo c d) = c_connection d"
  by (simp_all add: Command_CopyTo_def)

end
