(* ===== verification/Codec_Write.thy ===== *)
theory Codec_Write
  imports Command
begin

text \<open>
  \<open>WriteCommand\<close> of src/sofabolt/command.go: the encoders of the three protocols, and the frame
  each of them produces.

  The encoders write into the slice that \<open>readhelper.AllocToAtLeast(b, n)\<close> returns. That function
  is not part of the repository: it is the parameter \<open>alloc\<close>, of which the encoders rely on the
  result having \<open>n\<close> bytes (\<open>alloc_ok\<close>). A failed bounds check is \<open>None\<close>, a returned error is
  \<open>Inl\<close>.
\<close>

definition alloc_ok :: "(bytes \<Rightarrow> nat \<Rightarrow> bytes) \<Rightarrow> bool" where
  "alloc_ok alloc \<longleftrightarrow> (\<forall>b n. length (alloc b n) = n)"

text \<open>\<open>cmd.headers.Encode(b[off:])\<close>.\<close>

definition encode_at :: "nat \<Rightarrow> simple_map \<Rightarrow> bytes \<Rightarrow> bytes option" where
  "encode_at off m b =
     (if off \<le> length b
      then map_option (\<lambda>(n, d, sp). take off b @ d) (sm_Encode m (drop off b) [])
      else None)"

definition writeCommandTBRemoting ::
  "(bytes \<Rightarrow> nat \<Rightarrow> bytes) \<Rightarrow> bytes \<Rightarrow> command \<Rightarrow> (go_error + bytes) option" where
  "writeCommandTBRemoting alloc b cmd = do {
     let connlen = length (c_connection cmd);
     let classlen = length (c_class cmd);
     let contentlen = length (c_content cmd);
     let b = alloc b (14 + connlen + classlen + contentlen);
     b \<leftarrow> put_at 0 [c_proto cmd] b;
     b \<leftarrow> put_at 1 [ucast (c_cmdcode cmd)] b;
     b \<leftarrow> put_at 2 [c_codec cmd] b;
     b \<leftarrow> put_at 3 [c_typ cmd] b;
     b \<leftarrow> put_at 4 [0] b;
     b \<leftarrow> put_at 5 (be32 (len32 connlen)) b;
     b \<leftarrow> put_at 9 [len8 classlen] b;
     b \<leftarrow> put_at 10 (be32 (len32 contentlen)) b;
     b \<leftarrow> copy_at 14 (14 + connlen) (c_connection cmd) b;
     b \<leftarrow> copy_at (14 + connlen) (14 + connlen + classlen) (c_class cmd) b;
     b \<leftarrow> copy_at (14 + connlen + classlen) (length b) (c_content cmd) b;
     Some (Inr b)
   }"

text \<open>The checksum at the end of a v2 frame, written when the switch is on.\<close>

definition append_crc :: "command \<Rightarrow> bytes \<Rightarrow> bytes option" where
  "append_crc cmd b =
     (if c_switc cmd > 0
      then let c32 = Checksum b; b = b @ str_bytes ''0123''
           in put_at (length b - 4) (be32 c32) b
      else Some b)"

definition writeResponseCommandBOLTV2 ::
  "(bytes \<Rightarrow> nat \<Rightarrow> bytes) \<Rightarrow> bytes \<Rightarrow> command \<Rightarrow> (go_error + bytes) option" where
  "writeResponseCommandBOLTV2 alloc b cmd = do {
     let classLen = length (c_class cmd);
     let headerLen = sm_GetEncodeSize (c_headers cmd);
     let contentLen = length (c_content cmd);
     let b = alloc b (22 + classLen + headerLen + contentLen);
     b \<leftarrow> put_at 0 [c_proto cmd] b;
     b \<leftarrow> put_at 1 [c_ver1 cmd] b;
     b \<leftarrow> put_at 2 [c_typ cmd] b;
     b \<leftarrow> put_at 3 (be16 (c_cmdcode cmd)) b;
     b \<leftarrow> put_at 5 [c_ver2 cmd] b;
     b \<leftarrow> put_at 6 (be32 (c_rid cmd)) b;
     b \<leftarrow> put_at 10 [c_codec cmd] b;
     b \<leftarrow> put_at 11 [c_switc cmd] b;
     b \<leftarrow> put_at 12 (be16 (c_status cmd)) b;
     b \<leftarrow> put_at 14 (be16 (len16 classLen)) b;
     b \<leftarrow> put_at 16 (be16 (len16 headerLen)) b;
     b \<leftarrow> put_at 18 (be32 (len32 contentLen)) b;
     b \<leftarrow> copy_at 22 (22 + classLen) (c_class cmd) b;
     b \<leftarrow> encode_at (22 + classLen) (c_headers cmd) b;
     b \<leftarrow> copy_at (22 + classLen + headerLen) (length b) (c_content cmd) b;
     b \<leftarrow> append_crc cmd b;
     Some (Inr b)
   }"

definition writeRequestCommandBOLTV2 ::
  "(bytes \<Rightarrow> nat \<Rightarrow> bytes) \<Rightarrow> bytes \<Rightarrow> command \<Rightarrow> (go_error + bytes) option" where
  "writeRequestCommandBOLTV2 alloc b cmd = do {
     let classLen = length (c_class cmd);
     let headerLen = sm_GetEncodeSize (c_headers cmd);
     let contentLen = length (c_content cmd);
     let b = alloc b (24 + classLen + headerLen + contentLen);
     b \<leftarrow> put_at 0 [c_proto cmd] b;
     b \<leftarrow> put_at 1 [c_ver1 cmd] b;
     b \<leftarrow> put_at 2 [c_typ cmd] b;
     b \<leftarrow> put_at 3 (be16 (c_cmdcode cmd)) b;
     b \<leftarrow> put_at 5 [c_ver2 cmd] b;
     b \<leftarrow> put_at 6 (be32 (c_rid cmd)) b;
     b \<leftarrow> put_at 10 [c_codec cmd] b;
     b \<leftarrow> put_at 11 [c_switc cmd] b;
     b \<leftarrow> put_at 12 (be32 (c_timeout cmd)) b;
     b \<leftarrow> put_at 16 (be16 (len16 classLen)) b;
     b \<leftarrow> put_at 18 (be16 (len16 headerLen)) b;
     b \<leftarrow> put_at 20 (be32 (len32 contentLen)) b;
     b \<leftarrow> copy_at 24 (length b) (c_class cmd) b;
     b \<leftarrow> encode_at (24 + classLen) (c_headers cmd) b;
     b \<leftarrow> copy_at (24 + classLen + headerLen) (length b) (c_content cmd) b;
     b \<leftarrow> append_crc cmd b;
     Some (Inr b)
   }"

definition writeResponseCommandBOLTV1 ::
  "(bytes \<Rightarrow> nat \<Rightarrow> bytes) \<Rightarrow> bytes \<Rightarrow> command \<Rightarrow> (go_error + bytes) option" where
  "writeResponseCommandBOLTV1 alloc b cmd = do {
     let classLen = length (c_class cmd);
     let headerLen = sm_GetEncodeSize (c_headers cmd);
     let contentLen = length (c_content cmd);
     let b = alloc b (20 + classLen + headerLen + contentLen);
     b \<leftarrow> put_at 0 [c_proto cmd] b;
     b \<leftarrow> put_at 1 [c_typ cmd] b;
     b \<leftarrow> put_at 2 (be16 (c_cmdcode cmd)) b;
     b \<leftarrow> put_at 4 [c_ver2 cmd] b;
     b \<leftarrow> put_at 5 (be32 (c_rid cmd)) b;
     b \<leftarrow> put_at 9 [c_codec cmd] b;
     b \<leftarrow> put_at 10 (be16 (c_status cmd)) b;
     b \<leftarrow> put_at 12 (be16 (len16 classLen)) b;
     b \<leftarrow> put_at 14 (be16 (len16 headerLen)) b;
     b \<leftarrow> put_at 16 (be32 (len32 contentLen)) b;
     b \<leftarrow> copy_at 20 (length b) (c_class cmd) b;
     b \<leftarrow> encode_at (20 + classLen) (c_headers cmd) b;
     b \<leftarrow> copy_at (20 + classLen + headerLen) (length b) (c_content cmd) b;
     Some (Inr b)
   }"

definition writeRequestCommandBOLTV1 ::
  "(bytes \<Rightarrow> nat \<Rightarrow> bytes) \<Rightarrow> bytes \<Rightarrow> command \<Rightarrow> (go_error + bytes) option" where
  "writeRequestCommandBOLTV1 alloc b cmd = do {
     let classLen = length (c_class cmd);
     let headerLen = sm_GetEncodeSize (c_headers cmd);
     let contentLen = length (c_content cmd);
     let b = alloc b (22 + classLen + headerLen + contentLen);
     b \<leftarrow> put_at 0 [c_proto cmd] b;
     b \<leftarrow> put_at 1 [c_typ cmd] b;
     b \<leftarrow> put_at 2 (be16 (c_cmdcode cmd)) b;
     b \<leftarrow> put_at 4 [c_ver2 cmd] b;
     b \<leftarrow> put_at 5 (be32 (c_rid cmd)) b;
     b \<leftarrow> put_at 9 [c_codec cmd] b;
     b \<leftarrow> put_at 10 (be32 (c_timeout cmd)) b;
     b \<leftarrow> put_at 14 (be16 (len16 classLen)) b;
     b \<leftarrow> put_at 16 (be16 (len16 headerLen)) b;
     b \<leftarrow> put_at 18 (be32 (len32 contentLen)) b;
     b \<leftarrow> copy_at 22 (22 + classLen) (c_class cmd) b;
     b \<leftarrow> encode_at (22 + classLen) (c_headers cmd) b;
     b \<leftarrow> copy_at (22 + classLen + headerLen) (length b) (c_content cmd) b;
     Some (Inr b)
   }"

definition writeCommandBOLTV2 ::
  "(bytes \<Rightarrow> nat \<Rightarrow> bytes) \<Rightarrow> bytes \<Rightarrow> command \<Rightarrow> (go_error + bytes) option" where
  "writeCommandBOLTV2 alloc b cmd =
     (if c_typ cmd = TypeBOLTRequest \<or> c_typ cmd = TypeBOLTRequestOneWay
      then writeRequestCommandBOLTV2 alloc b cmd
      else if c_typ cmd = TypeBOLTResponse then writeResponseCommandBOLTV2 alloc b cmd
      else Some (Inl ErrMalformedType))"

definition writeCommandBOLTV1 ::
  "(bytes \<Rightarrow> nat \<Rightarrow> bytes) \<Rightarrow> bytes \<Rightarrow> command \<Rightarrow> (go_error + bytes) option" where
  "writeCommandBOLTV1 alloc b cmd =
     (if c_typ cmd = TypeBOLTRequest \<or> c_typ cmd = TypeBOLTRequestOneWay
      then writeRequestCommandBOLTV1 alloc b cmd
      else if c_typ cmd = TypeBOLTResponse then writeResponseCommandBOLTV1 alloc b cmd
      else Some (Inl ErrMalformedType))"

definition WriteCommand ::
  "(bytes \<Rightarrow> nat \<Rightarrow> bytes) \<Rightarrow> bytes \<Rightarrow> command \<Rightarrow> (go_error + bytes) option" where
  "WriteCommand alloc b cmd =
     (if c_proto cmd = 0 \<or> c_proto cmd = ProtoBOLTV1 then writeCommandBOLTV1 alloc b cmd
      else if c_proto cmd = ProtoBOLTV2 then writeCommandBOLTV2 alloc b cmd
      else if c_proto cmd = ProtoTBRemoting then writeCommandTBRemoting alloc b cmd
      else Some (Inl ErrMalformedProto))"

subsection \<open>The frames\<close>

text \<open>
  The frame formats as the diagrams of the source give them: the fixed part, then class,
  headers and content.
\<close>

definition frame_lens :: "command \<Rightarrow> bytes" where
  "frame_lens c = be16 (len16 (length (c_class c))) @ be16 (len16 (length (sm_wire (c_headers c)))) @
     be32 (len32 (length (c_content c)))"

definition frame_body :: "command \<Rightarrow> bytes" where
  "frame_body c = c_class c @ sm_wire (c_headers c) @ c_content c"

definition is_req_typ :: "byte \<Rightarrow> bool" where
  "is_req_typ t \<longleftrightarrow> t = TypeBOLTRequest \<or> t = TypeBOLTRequestOneWay"

definition frame_v1 :: "command \<Rightarrow> bytes" where
  "frame_v1 c = [c_proto c, c_typ c] @ be16 (c_cmdcode c) @ [c_ver2 c] @ be32 (c_rid c) @
     [c_codec c] @ (if is_req_typ (c_typ c) then be32 (c_timeout c) else be16 (c_status c)) @
     frame_lens c @ frame_body c"

definition frame_v2_plain :: "command \<Rightarrow> bytes" where
  "frame_v2_plain c = [c_proto c, c_ver1 c, c_typ c] @ be16 (c_cmdcode c) @ [c_ver2 c] @
     be32 (c_rid c) @ [c_codec c, c_switc c] @
     (if is_req_typ (c_typ c) then be32 (c_timeout c) else be16 (c_status c)) @
     frame_lens c @ frame_body c"

definition frame_v2 :: "command \<Rightarrow> bytes" where
  "frame_v2 c = frame_v2_plain c @
     (if c_switc c > 0 then be32 (Checksum (frame_v2_plain c)) else [])"

definition frame_tb :: "command \<Rightarrow> bytes" where
  "frame_tb c = [c_proto c, ucast (c_cmdcode c), c_codec c, c_typ c, 0] @
     be32 (len32 (length (c_connection c))) @ [len8 (length (c_class c))] @
     be32 (len32 (length (c_content c))) @ c_connection c @ c_class c @ c_content c"

lemma encode_at_filled [go_slice]:
  "off = length xs \<Longrightarrow> length (sm_wire m) \<le> length ys \<Longrightarrow>
   encode_at off m (filled xs ys) =
     Some (filled (xs @ sm_wire m) (drop (length (sm_wire m)) ys))"
  by (simp add: encode_at_def filled_def sm_Encode_wire)

lemma append_crc_eq:
  "append_crc cmd b = Some (b @ (if c_switc cmd > 0 then be32 (Checksum b) else []))"
  by (simp add: append_crc_def put_at_def Let_def)

lemmas write_eval = go_slice sm_GetEncodeSize_wire append_crc_eq filled_def [where ys = "[]"]
  frame_lens_def frame_body_def

lemma alloc_filled:
  assumes "alloc_ok alloc"
  obtains ys where "alloc b n = filled [] ys" and "length ys = n"
  using assms filled_start by (metis alloc_ok_def)

lemma writeRequestV1:
  assumes "alloc_ok alloc" and "is_req_typ (c_typ cmd)"
  shows "writeRequestCommandBOLTV1 alloc b cmd = Some (Inr (frame_v1 cmd))"
proof -
  obtain ys where ys: "alloc b (22 + length (c_class cmd) + length (sm_wire (c_headers cmd)) +
      length (c_content cmd)) = filled [] ys"
    and len: "length ys = 22 + length (c_class cmd) + length (sm_wire (c_headers cmd)) +
      length (c_content cmd)"
    by (rule alloc_filled [OF assms(1)])
  show ?thesis
    using len assms(2)
    by (simp add: writeRequestCommandBOLTV1_def frame_v1_def write_eval ys Let_def)
qed

lemma writeResponseV1:
  assumes "alloc_ok alloc" and "\<not> is_req_typ (c_typ cmd)"
  shows "writeResponseCommandBOLTV1 alloc b cmd = Some (Inr (frame_v1 cmd))"
proof -
  obtain ys where ys: "alloc b (20 + length (c_class cmd) + length (sm_wire (c_headers cmd)) +
      length (c_content cmd)) = filled [] ys"
    and len: "length ys = 20 + length (c_class cmd) + length (sm_wire (c_headers cmd)) +
      length (c_content cmd)"
    by (rule alloc_filled [OF assms(1)])
  show ?thesis
    using len assms(2)
    by (simp add: writeResponseCommandBOLTV1_def frame_v1_def write_eval ys Let_def)
qed

lemma writeRequestV2:
  assumes "alloc_ok alloc" and "is_req_typ (c_typ cmd)"
  shows "writeRequestCommandBOLTV2 alloc b cmd = Some (Inr (frame_v2 cmd))"
proof -
  obtain ys where ys: "alloc b (24 + length (c_class cmd) + length (sm_wire (c_headers cmd)) +
      length (c_content cmd)) = filled [] ys"
    and len: "length ys = 24 + length (c_class cmd) + length (sm_wire (c_headers cmd)) +
      length (c_content cmd)"
    by (rule alloc_filled [OF assms(1)])
  show ?thesis
    using len assms(2)
    by (simp add: writeRequestCommandBOLTV2_def frame_v2_def frame_v2_plain_def write_eval ys Let_def)
qed

lemma writeResponseV2:
  assumes "alloc_ok alloc" and "\<not> is_req_typ (c_typ cmd)"
  shows "writeResponseCommandBOLTV2 alloc b cmd = Some (Inr (frame_v2 cmd))"
proof -
  obtain ys where ys: "alloc b (22 + length (c_class cmd) + length (sm_wire (c_headers cmd)) +
      length (c_content cmd)) = filled [] ys"
    and len: "length ys = 22 + length (c_class cmd) + length (sm_wire (c_headers cmd)) +
      length (c_content cmd)"
    by (rule alloc_filled [OF assms(1)])
  show ?thesis
    using len assms(2)
    by (simp add: writeResponseCommandBOLTV2_def frame_v2_def frame_v2_plain_def write_eval ys Let_def)
qed

lemma writeTBRemoting:
  assumes "alloc_ok alloc"
  shows "writeCommandTBRemoting alloc b cmd = Some (Inr (frame_tb cmd))"
proof -
  obtain ys where ys: "alloc b (14 + length (c_connection cmd) + length (c_class cmd) + length (c_content cmd)) = filled [] ys"
    and len: "length ys = 14 + length (c_connection cmd) + length (c_class cmd) + length (c_content cmd)"
    by (rule alloc_filled [OF assms(1)])
  show ?thesis
    using len
    by (simp add: writeCommandTBRemoting_def frame_tb_def write_eval ys Let_def)
qed

text \<open>What \<open>WriteCommand\<close> does, on every branch.\<close>

definition write_spec :: "command \<Rightarrow> go_error + bytes" where
  "write_spec c =
     (if c_proto c \<in> {0, ProtoBOLTV1} then
        if c_typ c \<in> {0, 1, 2} then Inr (frame_v1 c) else Inl ErrMalformedType
      else if c_proto c = ProtoBOLTV2 then
        if c_typ c \<in> {0, 1, 2} then Inr (frame_v2 c) else Inl ErrMalformedType
      else if c_proto c = ProtoTBRemoting then Inr (frame_tb c)
      else Inl ErrMalformedProto)"

lemma WriteCommand_spec:
  assumes "alloc_ok alloc"
  shows "WriteCommand alloc b cmd = Some (write_spec cmd)"
  using writeRequestV1 [OF assms] writeResponseV1 [OF assms] writeRequestV2 [OF assms]
    writeResponseV2 [OF assms] writeTBRemoting [OF assms]
  by (auto simp: WriteCommand_def writeCommandBOLTV1_def writeCommandBOLTV2_def write_spec_def
      is_req_typ_def)

end
