(* ===== verification/Codec_Read.thy ===== *)
theory Codec_Read
  imports Codec_Write
begin

text \<open>
  \<open>ReadCommand\<close> of src/sofabolt/command.go: the decoders of the three protocols over an
  \<open>io.Reader\<close>, the grammar of a frame as a function of bytes, and the proof that the decoders
  compute the grammar whatever the pieces in which the bytes arrive.

  The functions of the package \<open>readhelper\<close>, which is not part of the repository, are a
  parameter: the record \<open>read_helper\<close>, over readers of any type \<open>'r\<close>. The locale
  \<open>reader_contract\<close> states what the decoders rely on, with \<open>avail r\<close> the bytes a reader will still
  deliver: a read of no more than that succeeds with exactly these bytes, a read of more fails
  with some error.

  The result of a decoder is the count and the error it returns, the command as far as it was
  filled, and the reader afterwards; \<open>None\<close> would be a panic. \<open>b32\<close> is the 32-byte scratch array
  from the pool, whose previous contents are arbitrary.
\<close>

record 'r read_helper =
  rh_AllocToAtLeast :: "bytes \<Rightarrow> nat \<Rightarrow> bytes"
  rh_ReadToBytes :: "'r \<Rightarrow> nat \<Rightarrow> bytes \<Rightarrow> bytes \<times> go_error option \<times> 'r"
  rh_ReadUint8WithBytes :: "'r \<Rightarrow> bytes \<Rightarrow> byte \<times> bytes \<times> go_error option \<times> 'r"
  rh_ReadBigEndianUint32WithBytes ::
    "'r \<Rightarrow> bytes \<Rightarrow> 32 word \<times> bytes \<times> go_error option \<times> 'r"

type_synonym 'r read_result = "(nat \<times> go_error option \<times> command \<times> 'r) option"

text \<open>
  The step every decoder repeats for a variable part:
  \<open>cmd.x = AllocToAtLeast(cmd.x, n)\<close>, then \<open>ReadToBytes(br, n, cmd.x)\<close>, and \<open>goto DONE\<close> with
  count 0 on an error. \<open>upd\<close> stores the slice in the command.
\<close>

definition read_part ::
  "'r read_helper \<Rightarrow> bytes \<Rightarrow> nat \<Rightarrow> (bytes \<Rightarrow> command) \<Rightarrow> 'r \<Rightarrow>
   (command \<Rightarrow> 'r \<Rightarrow> 'r read_result) \<Rightarrow> 'r read_result" where
  "read_part rh old n upd r k =
     (case rh_ReadToBytes rh r n (rh_AllocToAtLeast rh old n) of
        (b, Some e, r) \<Rightarrow> Some (0, Some e, upd b, r)
      | (b, None, r) \<Rightarrow> k (upd b) r)"

text \<open>Class, header block (decoded at once) and content, as all four BOLT decoders read them.\<close>

definition read_body ::
  "'r read_helper \<Rightarrow> (bytes \<Rightarrow> bytes) \<Rightarrow> 16 word \<Rightarrow> 16 word \<Rightarrow> 32 word \<Rightarrow> 'r \<Rightarrow> command \<Rightarrow>
   (command \<Rightarrow> 'r \<Rightarrow> 'r read_result) \<Rightarrow> 'r read_result" where
  "read_body rh keep classLen headerLen contentLen r cmd k =
     read_part rh (keep (c_class cmd)) (unat classLen) (\<lambda>b. cmd\<lparr>c_class := b\<rparr>) r (\<lambda>cmd r.
     read_part rh (keep (c_header cmd)) (unat headerLen) (\<lambda>b. cmd\<lparr>c_header := b\<rparr>) r (\<lambda>cmd r.
       case sm_Decode (c_header cmd) (c_headers cmd) of
         None \<Rightarrow> None
       | Some (Some e, hs) \<Rightarrow> Some (0, Some e, cmd\<lparr>c_headers := hs\<rparr>, r)
       | Some (None, hs) \<Rightarrow>
           let cmd = cmd\<lparr>c_headers := hs\<rparr>
           in read_part rh (keep (c_content cmd)) (unat contentLen)
                (\<lambda>b. cmd\<lparr>c_content := b\<rparr>) r k))"

definition read_crc ::
  "'r read_helper \<Rightarrow> bytes \<Rightarrow> nat \<Rightarrow> command \<Rightarrow> 'r \<Rightarrow> 'r read_result" where
  "read_crc rh b32 n cmd r =
     (if c_switc cmd > 0
      then case rh_ReadBigEndianUint32WithBytes rh r (take 4 b32) of
             (v, b, Some e, r) \<Rightarrow> Some (0, Some e, cmd\<lparr>c_crc32 := v\<rparr>, r)
           | (v, b, None, r) \<Rightarrow> Some (n, None, cmd\<lparr>c_crc32 := v\<rparr>, r)
      else Some (n, None, cmd, r))"

definition readCommandTBRemoting ::
  "'r read_helper \<Rightarrow> bytes \<Rightarrow> 'r \<Rightarrow> command \<Rightarrow> 'r read_result" where
  "readCommandTBRemoting rh b32 r cmd =
     (case rh_ReadToBytes rh r 13 (take 13 b32) of
        (b, Some e, r) \<Rightarrow> Some (0, Some e, cmd, r)
      | (b, None, r) \<Rightarrow>
          let b32 = b @ drop 13 b32;
              cmd = cmd\<lparr>c_proto := ProtoTBRemoting, c_cmdcode := ucast (b32 ! 0),
                        c_codec := b32 ! 1, c_typ := b32 ! 2, c_reserved := b32 ! 3\<rparr>;
              connlen = u32_at 4 b32;
              classlen = b32 ! 8;
              contentlen = u32_at 9 b32
          in read_part rh (c_connection cmd) (unat connlen) (\<lambda>b. cmd\<lparr>c_connection := b\<rparr>) r
               (\<lambda>cmd r. read_part rh (c_class cmd) (unat classlen) (\<lambda>b. cmd\<lparr>c_class := b\<rparr>) r
               (\<lambda>cmd r. read_part rh (c_content cmd) (unat contentlen) (\<lambda>b. cmd\<lparr>c_content := b\<rparr>) r
               (\<lambda>cmd r. Some (14 + unat connlen + unat classlen + unat contentlen, None, cmd, r)))))"

definition readResponseCommandBOLTV1 ::
  "'r read_helper \<Rightarrow> bytes \<Rightarrow> 'r \<Rightarrow> command \<Rightarrow> 'r read_result" where
  "readResponseCommandBOLTV1 rh b32 r cmd =
     (case rh_ReadToBytes rh r 18 (take 18 b32) of
        (b, Some e, r) \<Rightarrow> Some (0, Some e, cmd, r)
      | (b, None, r) \<Rightarrow>
          let b32 = b @ drop 18 b32;
              cmd = cmd\<lparr>c_cmdcode := u16_at 0 b32, c_ver2 := b32 ! 3, c_rid := u32_at 3 b32,
                        c_codec := b32 ! 7, c_status := u16_at 8 b32\<rparr>;
              classLen = u16_at 10 b32;
              headerLen = u16_at 12 b32;
              contentLen = u32_at 14 b32
          in read_body rh id classLen headerLen contentLen r cmd (\<lambda>cmd r.
               Some (14 + 2 + 4 + unat (classLen + headerLen) + unat contentLen, None, cmd, r)))"

definition readRequestCommandBOLTV1 ::
  "'r read_helper \<Rightarrow> bytes \<Rightarrow> 'r \<Rightarrow> command \<Rightarrow> 'r read_result" where
  "readRequestCommandBOLTV1 rh b32 r cmd =
     (case rh_ReadToBytes rh r 20 b32 of
        (b32, Some e, r) \<Rightarrow> Some (0, Some e, cmd, r)
      | (b32, None, r) \<Rightarrow>
          let cmd = cmd\<lparr>c_cmdcode := u16_at 0 b32, c_ver2 := b32 ! 3, c_rid := u32_at 3 b32,
                        c_codec := b32 ! 7, c_timeout := u32_at 8 b32\<rparr>;
              classLen = u16_at 12 b32;
              headerLen = u16_at 14 b32;
              contentLen = u32_at 16 b32
          in read_body rh (\<lambda>_. []) classLen headerLen contentLen r cmd (\<lambda>cmd r.
               Some (16 + 2 + 4 + unat (classLen + headerLen) + unat contentLen, None, cmd, r)))"

definition readCommandBOLTV1 ::
  "'r read_helper \<Rightarrow> bytes \<Rightarrow> 'r \<Rightarrow> command \<Rightarrow> 'r read_result" where
  "readCommandBOLTV1 rh b32 r cmd =
     (case rh_ReadUint8WithBytes rh r (take 1 b32) of
        (u8, b, Some e, r) \<Rightarrow> Some (0, Some e, cmd, r)
      | (u8, b, None, r) \<Rightarrow>
          let b32 = b @ drop 1 b32;
              cmd = cmd\<lparr>c_typ := u8\<rparr>
          in if u8 = TypeBOLTResponse then readResponseCommandBOLTV1 rh b32 r cmd
             else if u8 = TypeBOLTRequest \<or> u8 = TypeBOLTRequestOneWay
             then readRequestCommandBOLTV1 rh b32 r cmd
             else Some (0, Some ErrMalformedType, cmd, r))"

definition readRequestCommandBOLTV2 ::
  "'r read_helper \<Rightarrow> bytes \<Rightarrow> 'r \<Rightarrow> command \<Rightarrow> 'r read_result" where
  "readRequestCommandBOLTV2 rh b32 r cmd =
     (case rh_ReadToBytes rh r 21 b32 of
        (b32, Some e, r) \<Rightarrow> Some (0, Some e, cmd, r)
      | (b32, None, r) \<Rightarrow>
          let cmd = cmd\<lparr>c_cmdcode := u16_at 0 b32, c_ver2 := b32 ! 2, c_rid := u32_at 3 b32,
                        c_codec := b32 ! 7, c_switc := b32 ! 8, c_timeout := u32_at 9 b32\<rparr>;
              classLen = u16_at 13 b32;
              headerLen = u16_at 15 b32;
              contentLen = u32_at 17 b32
          in read_body rh id classLen headerLen contentLen r cmd
               (read_crc rh b32 (24 + unat (classLen + headerLen) + unat contentLen)))"

definition readResponseCommandBOLTV2 ::
  "'r read_helper \<Rightarrow> bytes \<Rightarrow> 'r \<Rightarrow> command \<Rightarrow> 'r read_result" where
  "readResponseCommandBOLTV2 rh b32 r cmd =
     (case rh_ReadToBytes rh r 19 b32 of
        (b32, Some e, r) \<Rightarrow> Some (0, Some e, cmd, r)
      | (b32, None, r) \<Rightarrow>
          let cmd = cmd\<lparr>c_cmdcode := u16_at 0 b32, c_ver2 := b32 ! 2, c_rid := u32_at 3 b32,
                        c_codec := b32 ! 7, c_switc := b32 ! 8, c_status := u16_at 9 b32\<rparr>;
              classLen = u16_at 11 b32;
              headerLen = u16_at 13 b32;
              contentLen = u32_at 15 b32
          in read_body rh id classLen headerLen contentLen r cmd
               (read_crc rh b32 (22 + unat (classLen + headerLen) + unat contentLen)))"

definition readCommandBOLTV2 ::
  "'r read_helper \<Rightarrow> bytes \<Rightarrow> 'r \<Rightarrow> command \<Rightarrow> 'r read_result" where
  "readCommandBOLTV2 rh b32 r cmd =
     (case rh_ReadToBytes rh r 2 [0, 0] of
        (b2, Some e, r) \<Rightarrow> Some (0, Some e, cmd, r)
      | (b2, None, r) \<Rightarrow>
          let cmd = cmd\<lparr>c_ver1 := b2 ! 0, c_typ := b2 ! 1\<rparr>
          in if b2 ! 1 = TypeBOLTResponse then readResponseCommandBOLTV2 rh b32 r cmd
             else if b2 ! 1 = TypeBOLTRequest \<or> b2 ! 1 = TypeBOLTRequestOneWay
             then readRequestCommandBOLTV2 rh b32 r cmd
             else Some (0, Some ErrMalformedType, cmd, r))"

definition ReadCommand ::
  "'r read_helper \<Rightarrow> bytes \<Rightarrow> 'r \<Rightarrow> command \<Rightarrow> 'r read_result" where
  "ReadCommand rh b32 r cmd =
     (case rh_ReadUint8WithBytes rh r [c_reserved cmd] of
        (u8, b, Some e, r) \<Rightarrow> Some (0, Some e, cmd\<lparr>c_reserved := 0\<rparr>, r)
      | (u8, b, None, r) \<Rightarrow>
          let cmd = cmd\<lparr>c_reserved := 0, c_proto := u8\<rparr>
          in if u8 = 0 \<or> u8 = ProtoBOLTV1 then readCommandBOLTV1 rh b32 r cmd
             else if u8 = ProtoBOLTV2 then readCommandBOLTV2 rh b32 r cmd
             else if u8 = ProtoTBRemoting then readCommandTBRemoting rh b32 r cmd
             else Some (0, Some ErrMalformedProto, cmd, r))"

subsection \<open>The grammar of a frame\<close>

text \<open>
  The same decision as a function of the bytes that are available: \<open>Short\<close> when a frame starts
  there but does not end, \<open>Bad\<close> when it is malformed, otherwise the count the decoder reports,
  the command and the bytes after the frame.
\<close>

datatype parsed = Short | Bad go_error | Frame nat command bytes

definition parse_part ::
  "nat \<Rightarrow> (bytes \<Rightarrow> command) \<Rightarrow> bytes \<Rightarrow> (command \<Rightarrow> bytes \<Rightarrow> parsed) \<Rightarrow> parsed" where
  "parse_part n upd d k = (if length d < n then Short else k (upd (take n d)) (drop n d))"

definition parse_body ::
  "16 word \<Rightarrow> 16 word \<Rightarrow> 32 word \<Rightarrow> bytes \<Rightarrow> command \<Rightarrow> (command \<Rightarrow> bytes \<Rightarrow> parsed) \<Rightarrow> parsed" where
  "parse_body cl hl n d c k =
     parse_part (unat cl) (\<lambda>b. c\<lparr>c_class := b\<rparr>) d (\<lambda>c d.
     parse_part (unat hl) (\<lambda>b. c\<lparr>c_header := b\<rparr>) d (\<lambda>c d.
       case kv_parse (c_header c) of
         (es, Some e) \<Rightarrow> Bad e
       | (es, None) \<Rightarrow>
           let c = c\<lparr>c_headers := fold (\<lambda>(k, v). sm_set k v) es
                       ((c_headers c)\<lparr>sm_raw := c_header c\<rparr>)\<rparr>
           in parse_part (unat n) (\<lambda>b. c\<lparr>c_content := b\<rparr>) d k))"

definition parse_v1 :: "command \<Rightarrow> bytes \<Rightarrow> parsed" where
  "parse_v1 c d =
     (if d = [] then Short
      else let c = c\<lparr>c_typ := hd d\<rparr>; t = hd d; d = tl d in
      if t = TypeBOLTResponse then
        if length d < 18 then Short
        else parse_body (u16_at 10 d) (u16_at 12 d) (u32_at 14 d) (drop 18 d)
          (c\<lparr>c_cmdcode := u16_at 0 d, c_ver2 := d ! 3, c_rid := u32_at 3 d, c_codec := d ! 7,
             c_status := u16_at 8 d\<rparr>)
          (Frame (20 + unat (u16_at 10 d + u16_at 12 d) + unat (u32_at 14 d)))
      else if t = TypeBOLTRequest \<or> t = TypeBOLTRequestOneWay then
        if length d < 20 then Short
        else parse_body (u16_at 12 d) (u16_at 14 d) (u32_at 16 d) (drop 20 d)
          (c\<lparr>c_cmdcode := u16_at 0 d, c_ver2 := d ! 3, c_rid := u32_at 3 d, c_codec := d ! 7,
             c_timeout := u32_at 8 d\<rparr>)
          (Frame (22 + unat (u16_at 12 d + u16_at 14 d) + unat (u32_at 16 d)))
      else Bad ErrMalformedType)"

definition parse_crc :: "nat \<Rightarrow> command \<Rightarrow> bytes \<Rightarrow> parsed" where
  "parse_crc n c d =
     (if c_switc c > 0
      then if length d < 4 then Short else Frame n (c\<lparr>c_crc32 := u32_at 0 d\<rparr>) (drop 4 d)
      else Frame n c d)"

definition parse_v2 :: "command \<Rightarrow> bytes \<Rightarrow> parsed" where
  "parse_v2 c d =
     (if length d < 2 then Short
      else let c = c\<lparr>c_ver1 := d ! 0, c_typ := d ! 1\<rparr>; t = d ! 1; d = drop 2 d in
      if t = TypeBOLTResponse then
        if length d < 19 then Short
        else parse_body (u16_at 11 d) (u16_at 13 d) (u32_at 15 d) (drop 19 d)
          (c\<lparr>c_cmdcode := u16_at 0 d, c_ver2 := d ! 2, c_rid := u32_at 3 d, c_codec := d ! 7,
             c_switc := d ! 8, c_status := u16_at 9 d\<rparr>)
          (parse_crc (22 + unat (u16_at 11 d + u16_at 13 d) + unat (u32_at 15 d)))
      else if t = TypeBOLTRequest \<or> t = TypeBOLTRequestOneWay then
        if length d < 21 then Short
        else parse_body (u16_at 13 d) (u16_at 15 d) (u32_at 17 d) (drop 21 d)
          (c\<lparr>c_cmdcode := u16_at 0 d, c_ver2 := d ! 2, c_rid := u32_at 3 d, c_codec := d ! 7,
             c_switc := d ! 8, c_timeout := u32_at 9 d\<rparr>)
          (parse_crc (24 + unat (u16_at 13 d + u16_at 15 d) + unat (u32_at 17 d)))
      else Bad ErrMalformedType)"

definition parse_tb :: "command \<Rightarrow> bytes \<Rightarrow> parsed" where
  "parse_tb c d =
     (if length d < 13 then Short
      else
        parse_part (unat (u32_at 4 d))
          (\<lambda>b. c\<lparr>c_proto := ProtoTBRemoting, c_cmdcode := ucast (d ! 0), c_codec := d ! 1,
             c_typ := d ! 2, c_reserved := d ! 3, c_connection := b\<rparr>) (drop 13 d) (\<lambda>c d'.
        parse_part (unat (d ! 8)) (\<lambda>b. c\<lparr>c_class := b\<rparr>) d' (\<lambda>c d'.
        parse_part (unat (u32_at 9 d)) (\<lambda>b. c\<lparr>c_content := b\<rparr>) d'
          (Frame (14 + unat (u32_at 4 d) + unat (d ! 8) + unat (u32_at 9 d))))))"

definition parse_command :: "command \<Rightarrow> bytes \<Rightarrow> parsed" where
  "parse_command c d =
     (if d = [] then Short
      else let p = hd d; c = c\<lparr>c_reserved := 0, c_proto := p\<rparr> in
        if p = 0 \<or> p = ProtoBOLTV1 then parse_v1 c (tl d)
        else if p = ProtoBOLTV2 then parse_v2 c (tl d)
        else if p = ProtoTBRemoting then parse_tb c (tl d)
        else Bad ErrMalformedProto)"

subsection \<open>Frames are prefix-free\<close>

text \<open>
  More bytes do not change what a complete frame, or a malformed one, is parsed into.
\<close>

definition extend :: "bytes \<Rightarrow> parsed \<Rightarrow> parsed" where
  "extend q out = (case out of Frame n c d \<Rightarrow> Frame n c (d @ q) | _ \<Rightarrow> out)"

definition stable :: "bytes \<Rightarrow> (command \<Rightarrow> bytes \<Rightarrow> parsed) \<Rightarrow> bool" where
  "stable q k \<longleftrightarrow> (\<forall>c d. k c d \<noteq> Short \<longrightarrow> k c (d @ q) = extend q (k c d))"

lemma extend_simps [simp]:
  "extend q Short = Short" "extend q (Bad e) = Bad e" "extend q (Frame n c d) = Frame n c (d @ q)"
  by (simp_all add: extend_def)

lemma stable_Frame: "stable q (Frame n)"
  by (simp add: stable_def)

lemma at_append:
  "i + 1 < length d \<Longrightarrow> u16_at i (d @ q) = u16_at i d"
  "i + 3 < length d \<Longrightarrow> u32_at i (d @ q) = u32_at i d"
  by (simp_all add: u16_at_def u32_at_def nth_append)

lemma stable_crc: "stable q (parse_crc n)"
  by (auto simp: stable_def parse_crc_def at_append)

lemma parse_part_extend:
  assumes "stable q k" and "parse_part n upd d k \<noteq> Short"
  shows "parse_part n upd (d @ q) k = extend q (parse_part n upd d k)"
  using assms by (auto simp: parse_part_def stable_def split: if_splits)

lemma stable_part:
  assumes "\<And>c. stable q (k c)"
  shows "stable q (\<lambda>c d. parse_part (n c) (upd c) d (k c))"
  unfolding stable_def using parse_part_extend [OF assms] by blast

lemma parse_body_extend:
  assumes "stable q k" and "parse_body cl hl n d c k \<noteq> Short"
  shows "parse_body cl hl n (d @ q) c k = extend q (parse_body cl hl n d c k)"
proof -
  have "stable q (\<lambda>c d. case kv_parse (c_header c) of (es, Some e) \<Rightarrow> Bad e
      | (es, None) \<Rightarrow> let c = c\<lparr>c_headers := fold (\<lambda>(k, v). sm_set k v) es
            ((c_headers c)\<lparr>sm_raw := c_header c\<rparr>)\<rparr>
          in parse_part (unat n) (\<lambda>b. c\<lparr>c_content := b\<rparr>) d k)"
    unfolding stable_def Let_def using parse_part_extend [OF assms(1)]
    by (auto split: prod.split option.split)
  from stable_part [of q "\<lambda>_. _", OF this] assms(2) show ?thesis
    unfolding parse_body_def by (intro parse_part_extend)
qed

lemma parse_v1_extend:
  assumes "parse_v1 c d \<noteq> Short"
  shows "parse_v1 c (d @ q) = extend q (parse_v1 c d)"
proof (cases d)
  case Nil
  with assms show ?thesis by (simp add: parse_v1_def)
next
  case (Cons t e)
  consider "t = 0" "18 \<le> length e" | "t = 1 \<or> t = 2" "20 \<le> length e"
    | "t \<noteq> 0" "t \<noteq> 1" "t \<noteq> 2"
    using assms by (fastforce simp: Cons parse_v1_def Let_def not_less split: if_splits)
  then show ?thesis
  proof cases
    case 1
    with assms parse_body_extend [OF stable_Frame] show ?thesis
      by (simp add: Cons parse_v1_def Let_def at_append nth_append)
  next
    case 2
    with assms parse_body_extend [OF stable_Frame] show ?thesis
      by (elim disjE) (simp_all add: Cons parse_v1_def Let_def at_append nth_append)
  qed (simp add: Cons parse_v1_def Let_def)
qed

lemma parse_v2_extend:
  assumes "parse_v2 c d \<noteq> Short"
  shows "parse_v2 c (d @ q) = extend q (parse_v2 c d)"
proof -
  have "2 \<le> length d" using assms by (auto simp: parse_v2_def split: if_splits)
  then obtain v t e where d: "d = v # t # e"
    by (metis (no_types) One_nat_def Suc_1 Suc_le_length_iff)
  consider "t = 0" "19 \<le> length e" | "t = 1 \<or> t = 2" "21 \<le> length e"
    | "t \<noteq> 0" "t \<noteq> 1" "t \<noteq> 2"
    using assms by (fastforce simp: d parse_v2_def Let_def not_less split: if_splits)
  then show ?thesis
  proof cases
    case 1
    with assms parse_body_extend [OF stable_crc] show ?thesis
      by (simp add: d parse_v2_def Let_def at_append nth_append)
  next
    case 2
    with assms parse_body_extend [OF stable_crc] show ?thesis
      by (elim disjE) (simp_all add: d parse_v2_def Let_def at_append nth_append)
  qed (simp add: d parse_v2_def Let_def)
qed

lemma parse_tb_extend: "parse_tb c d \<noteq> Short \<Longrightarrow> parse_tb c (d @ q) = extend q (parse_tb c d)"
  by (auto simp: parse_tb_def at_append nth_append stable_Frame
      intro!: parse_part_extend stable_part split: if_splits)

lemma parse_command_extend:
  "parse_command c d \<noteq> Short \<Longrightarrow> parse_command c (d @ q) = extend q (parse_command c d)"
  by (auto simp: parse_command_def Let_def parse_v1_extend parse_v2_extend parse_tb_extend
      split: if_splits)

lemma parse_strict_prefix:
  assumes "parse_command c (p @ q) = Frame n c' []" and "q \<noteq> []"
  shows "parse_command c p = Short"
  using assms parse_command_extend [of c p q] by (cases "parse_command c p") auto

text \<open>Every frame has at least one byte, so a loop that reads frames makes progress.\<close>

definition shrinking :: "(command \<Rightarrow> bytes \<Rightarrow> parsed) \<Rightarrow> bool" where
  "shrinking k \<longleftrightarrow> (\<forall>c d n c' r. k c d = Frame n c' r \<longrightarrow> length r \<le> length d)"

lemma shrinking_Frame: "shrinking (Frame n)"
  by (simp add: shrinking_def)

lemma shrinking_crc: "shrinking (parse_crc n)"
  by (auto simp: shrinking_def parse_crc_def split: if_splits)

lemma parse_part_shrinks:
  assumes "shrinking k" and "parse_part n upd d k = Frame m c r"
  shows "length r \<le> length d"
proof -
  have "k (upd (take n d)) (drop n d) = Frame m c r"
    using assms(2) by (auto simp: parse_part_def split: if_splits)
  then have "length r \<le> length (drop n d)" using assms(1) unfolding shrinking_def by blast
  then show ?thesis by simp
qed

lemma shrinking_part:
  assumes "\<And>c. shrinking (k c)"
  shows "shrinking (\<lambda>c d. parse_part (n c) (upd c) d (k c))"
  unfolding shrinking_def using parse_part_shrinks [OF assms] by blast

lemma parse_body_shrinks:
  assumes "shrinking k" and "parse_body cl hl n d c k = Frame m c' r"
  shows "length r \<le> length d"
proof -
  have "shrinking (\<lambda>c d. case kv_parse (c_header c) of (es, Some e) \<Rightarrow> Bad e
      | (es, None) \<Rightarrow> let c = c\<lparr>c_headers := fold (\<lambda>(k, v). sm_set k v) es
            ((c_headers c)\<lparr>sm_raw := c_header c\<rparr>)\<rparr>
          in parse_part (unat n) (\<lambda>b. c\<lparr>c_content := b\<rparr>) d k)"
    unfolding shrinking_def Let_def using parse_part_shrinks [OF assms(1)]
    by (auto split: prod.splits option.splits)
  from parse_part_shrinks [OF shrinking_part [OF this] assms(2) [unfolded parse_body_def]]
  show ?thesis .
qed

lemma parse_command_shrinks:
  assumes "parse_command c d = Frame n c' r"
  shows "length r < length d"
proof -
  obtain p e where d: "d = p # e" using assms by (cases d) (auto simp: parse_command_def)
  let ?c = "c\<lparr>c_reserved := 0, c_proto := p\<rparr>"
  have "length r \<le> length e" if "parse_v1 ?c e = Frame n c' r"
    using that by (auto simp: parse_v1_def Let_def split: if_splits
        dest!: parse_body_shrinks [OF shrinking_Frame])
  moreover have "length r \<le> length e" if "parse_v2 ?c e = Frame n c' r"
    using that by (auto simp: parse_v2_def Let_def split: if_splits
        dest!: parse_body_shrinks [OF shrinking_crc])
  moreover have "length r \<le> length e" if "parse_tb ?c e = Frame n c' r"
    using that by (auto simp: parse_tb_def split: if_splits
        dest!: parse_part_shrinks [OF shrinking_part [OF shrinking_part [OF shrinking_Frame]]])
  ultimately show ?thesis
    using assms by (auto simp: d parse_command_def Let_def split: if_splits)
qed

text \<open>The relation between a decoder's result and the grammar's.\<close>

definition agrees :: "('r \<Rightarrow> bytes) \<Rightarrow> 'r read_result \<Rightarrow> parsed \<Rightarrow> bool" where
  "agrees avail res out =
     (case out of
        Short \<Rightarrow> (\<exists>e c r. res = Some (0, Some e, c, r))
      | Bad e \<Rightarrow> (\<exists>c r. res = Some (0, Some e, c, r))
      | Frame n c d \<Rightarrow> (\<exists>r. res = Some (n, None, c, r) \<and> avail r = d))"

lemma agrees_simps [simp]:
  "agrees avail (Some (0, Some e, c, r)) Short"
  "agrees avail (Some (0, Some e, c, r)) (Bad e)"
  "agrees avail (Some (n, None, c, r)) (Frame n c d) = (avail r = d)"
  by (auto simp: agrees_def)

lemma at_take:
  "i < n \<Longrightarrow> n \<le> length d \<Longrightarrow> (take n d @ x) ! i = d ! i"
  "i + 1 < n \<Longrightarrow> n \<le> length d \<Longrightarrow> u16_at i (take n d @ x) = u16_at i d"
  "i + 3 < n \<Longrightarrow> n \<le> length d \<Longrightarrow> u32_at i (take n d @ x) = u32_at i d"
  by (simp_all add: u16_at_def u32_at_def nth_append)

locale reader_contract =
  fixes rh :: "'r read_helper" and avail :: "'r \<Rightarrow> bytes"
  assumes alloc: "length (rh_AllocToAtLeast rh b n) = n"
    and read_ok: "n \<le> length b \<Longrightarrow> n \<le> length (avail r) \<Longrightarrow>
      \<exists>r'. rh_ReadToBytes rh r n b = (take n (avail r) @ drop n b, None, r') \<and>
        avail r' = drop n (avail r)"
    and read_short: "n \<le> length b \<Longrightarrow> length (avail r) < n \<Longrightarrow>
      \<exists>b' e r'. rh_ReadToBytes rh r n b = (b', Some e, r')"
    and u8_ok: "b \<noteq> [] \<Longrightarrow> avail r = x # d \<Longrightarrow>
      \<exists>r'. rh_ReadUint8WithBytes rh r b = (x, x # tl b, None, r') \<and> avail r' = d"
    and u8_short: "b \<noteq> [] \<Longrightarrow> avail r = [] \<Longrightarrow>
      \<exists>x b' e r'. rh_ReadUint8WithBytes rh r b = (x, b', Some e, r')"
    and u32_ok: "length b = 4 \<Longrightarrow> 4 \<le> length (avail r) \<Longrightarrow>
      \<exists>b' r'. rh_ReadBigEndianUint32WithBytes rh r b = (u32_at 0 (avail r), b', None, r') \<and>
        avail r' = drop 4 (avail r)"
    and u32_short: "length b = 4 \<Longrightarrow> length (avail r) < 4 \<Longrightarrow>
      \<exists>x b' e r'. rh_ReadBigEndianUint32WithBytes rh r b = (x, b', Some e, r')"
begin

lemma read_part_agrees:
  assumes "\<And>r'. n \<le> length (avail r) \<Longrightarrow> avail r' = drop n (avail r) \<Longrightarrow>
    agrees avail (k (upd (take n (avail r))) r') (k' (upd (take n (avail r))) (drop n (avail r)))"
  shows "agrees avail (read_part rh old n upd r k) (parse_part n upd (avail r) k')"
proof (cases "n \<le> length (avail r)")
  case True
  then obtain r' where "rh_ReadToBytes rh r n (rh_AllocToAtLeast rh old n) =
      (take n (avail r), None, r')" and "avail r' = drop n (avail r)"
    using read_ok [of n "rh_AllocToAtLeast rh old n" r] by (auto simp: alloc)
  with assms True show ?thesis by (simp add: read_part_def parse_part_def)
next
  case False
  then obtain b' e r' where "rh_ReadToBytes rh r n (rh_AllocToAtLeast rh old n) = (b', Some e, r')"
    using read_short [of n "rh_AllocToAtLeast rh old n" r] by (auto simp: alloc)
  with False show ?thesis by (simp add: read_part_def parse_part_def)
qed

lemma read_part_any:
  assumes "\<And>c r'. agrees avail (k c r') (k' c (avail r'))"
  shows "agrees avail (read_part rh old n upd r k) (parse_part n upd (avail r) k')"
  by (rule read_part_agrees) (metis assms)

lemma read_body_agrees:
  assumes "\<And>c r. agrees avail (k c r) (k' c (avail r))"
  shows "agrees avail (read_body rh keep cl hl n r cmd k) (parse_body cl hl n (avail r) cmd k')"
  unfolding read_body_def parse_body_def
proof (rule read_part_agrees, goal_cases)
  case (1 r1)
  show ?case
    unfolding 1(2) [symmetric]
  proof (rule read_part_agrees, goal_cases)
    case (1 r2)
    show ?case
      unfolding 1(2) [symmetric]
      by (auto simp: sm_Decode_parse Let_def split: prod.split option.split
          intro!: read_part_agrees) (metis assms)
  qed
qed

lemma read_crc_agrees:
  assumes "length b32 = 32"
  shows "agrees avail (read_crc rh b32 n cmd r) (parse_crc n cmd (avail r))"
proof (cases "4 \<le> length (avail r)")
  case True
  then show ?thesis
    using u32_ok [of "take 4 b32" r] assms by (auto simp: read_crc_def parse_crc_def)
next
  case False
  then show ?thesis
    using u32_short [of "take 4 b32" r] assms by (auto simp: read_crc_def parse_crc_def)
qed

text \<open>A read of a fixed part into the scratch array.\<close>

lemma read_fixed_cases:
  assumes "n \<le> length b"
  obtains (ok) r' where "n \<le> length (avail r)"
      "rh_ReadToBytes rh r n b = (take n (avail r) @ drop n b, None, r')" "avail r' = drop n (avail r)"
    | (short) b' e r' where "length (avail r) < n" "rh_ReadToBytes rh r n b = (b', Some e, r')"
  using read_ok [OF assms, of r] read_short [OF assms, of r] by (meson not_less)

lemma readResponseV1_agrees:
  assumes "length b32 = 32"
  shows "agrees avail (readResponseCommandBOLTV1 rh b32 r c)
    (if length (avail r) < 18 then Short
     else parse_body (u16_at 10 (avail r)) (u16_at 12 (avail r)) (u32_at 14 (avail r))
       (drop 18 (avail r))
       (c\<lparr>c_cmdcode := u16_at 0 (avail r), c_ver2 := avail r ! 3, c_rid := u32_at 3 (avail r),
          c_codec := avail r ! 7, c_status := u16_at 8 (avail r)\<rparr>)
       (Frame (20 + unat (u16_at 10 (avail r) + u16_at 12 (avail r)) + unat (u32_at 14 (avail r)))))"
proof (rule read_fixed_cases [of 18 "take 18 b32" r])
  fix r' assume r: "18 \<le> length (avail r)"
      "rh_ReadToBytes rh r 18 (take 18 b32) = (take 18 (avail r) @ drop 18 (take 18 b32), None, r')"
      and a: "avail r' = drop 18 (avail r)"
  show ?thesis
    using r unfolding a [symmetric]
    by (simp add: readResponseCommandBOLTV1_def Let_def at_take) (rule read_body_agrees, simp)
qed (use assms in \<open>auto simp: readResponseCommandBOLTV1_def\<close>)

lemma readRequestV1_agrees:
  assumes "length b32 = 32"
  shows "agrees avail (readRequestCommandBOLTV1 rh b32 r c)
    (if length (avail r) < 20 then Short
     else parse_body (u16_at 12 (avail r)) (u16_at 14 (avail r)) (u32_at 16 (avail r))
       (drop 20 (avail r))
       (c\<lparr>c_cmdcode := u16_at 0 (avail r), c_ver2 := avail r ! 3, c_rid := u32_at 3 (avail r),
          c_codec := avail r ! 7, c_timeout := u32_at 8 (avail r)\<rparr>)
       (Frame (22 + unat (u16_at 12 (avail r) + u16_at 14 (avail r)) + unat (u32_at 16 (avail r)))))"
proof (rule read_fixed_cases [of 20 b32 r])
  fix r' assume r: "20 \<le> length (avail r)"
      "rh_ReadToBytes rh r 20 b32 = (take 20 (avail r) @ drop 20 b32, None, r')"
      and a: "avail r' = drop 20 (avail r)"
  show ?thesis
    using r unfolding a [symmetric]
    by (simp add: readRequestCommandBOLTV1_def Let_def at_take) (rule read_body_agrees, simp)
qed (use assms in \<open>auto simp: readRequestCommandBOLTV1_def\<close>)

lemma readResponseV2_agrees:
  assumes "length b32 = 32"
  shows "agrees avail (readResponseCommandBOLTV2 rh b32 r c)
    (if length (avail r) < 19 then Short
     else parse_body (u16_at 11 (avail r)) (u16_at 13 (avail r)) (u32_at 15 (avail r))
       (drop 19 (avail r))
       (c\<lparr>c_cmdcode := u16_at 0 (avail r), c_ver2 := avail r ! 2, c_rid := u32_at 3 (avail r),
          c_codec := avail r ! 7, c_switc := avail r ! 8, c_status := u16_at 9 (avail r)\<rparr>)
       (parse_crc
         (22 + unat (u16_at 11 (avail r) + u16_at 13 (avail r)) + unat (u32_at 15 (avail r)))))"
proof (rule read_fixed_cases [of 19 b32 r])
  fix r' assume r: "19 \<le> length (avail r)"
      "rh_ReadToBytes rh r 19 b32 = (take 19 (avail r) @ drop 19 b32, None, r')"
      and a: "avail r' = drop 19 (avail r)"
  show ?thesis
    using r assms unfolding a [symmetric]
    by (simp add: readResponseCommandBOLTV2_def Let_def at_take)
       (rule read_body_agrees, rule read_crc_agrees, simp)
qed (use assms in \<open>auto simp: readResponseCommandBOLTV2_def\<close>)

lemma readRequestV2_agrees:
  assumes "length b32 = 32"
  shows "agrees avail (readRequestCommandBOLTV2 rh b32 r c)
    (if length (avail r) < 21 then Short
     else parse_body (u16_at 13 (avail r)) (u16_at 15 (avail r)) (u32_at 17 (avail r))
       (drop 21 (avail r))
       (c\<lparr>c_cmdcode := u16_at 0 (avail r), c_ver2 := avail r ! 2, c_rid := u32_at 3 (avail r),
          c_codec := avail r ! 7, c_switc := avail r ! 8, c_timeout := u32_at 9 (avail r)\<rparr>)
       (parse_crc
         (24 + unat (u16_at 13 (avail r) + u16_at 15 (avail r)) + unat (u32_at 17 (avail r)))))"
proof (rule read_fixed_cases [of 21 b32 r])
  fix r' assume r: "21 \<le> length (avail r)"
      "rh_ReadToBytes rh r 21 b32 = (take 21 (avail r) @ drop 21 b32, None, r')"
      and a: "avail r' = drop 21 (avail r)"
  show ?thesis
    using r assms unfolding a [symmetric]
    by (simp add: readRequestCommandBOLTV2_def Let_def at_take)
       (rule read_body_agrees, rule read_crc_agrees, simp)
qed (use assms in \<open>auto simp: readRequestCommandBOLTV2_def\<close>)

lemma readTB_agrees:
  assumes "length b32 = 32"
  shows "agrees avail (readCommandTBRemoting rh b32 r c) (parse_tb c (avail r))"
proof (rule read_fixed_cases [of 13 "take 13 b32" r])
  fix r' assume r: "13 \<le> length (avail r)"
      "rh_ReadToBytes rh r 13 (take 13 b32) = (take 13 (avail r) @ drop 13 (take 13 b32), None, r')"
      and a: "avail r' = drop 13 (avail r)"
  show ?thesis
    using r unfolding parse_tb_def a [symmetric]
    by (simp add: readCommandTBRemoting_def Let_def at_take)
       (intro read_part_any, simp)
qed (use assms in \<open>auto simp: readCommandTBRemoting_def parse_tb_def\<close>)

lemma readV1_agrees:
  assumes "length b32 = 32"
  shows "agrees avail (readCommandBOLTV1 rh b32 r c) (parse_v1 c (avail r))"
proof (cases "avail r")
  case Nil
  have "take 1 b32 \<noteq> []" using assms by auto
  from u8_short [OF this Nil] show ?thesis
    using Nil by (auto simp: readCommandBOLTV1_def parse_v1_def)
next
  case (Cons x d)
  have "take 1 b32 \<noteq> []" using assms by auto
  from u8_ok [OF this Cons] obtain r' where r': "avail r' = d"
    and eq: "rh_ReadUint8WithBytes rh r (take 1 b32) = (x, x # tl (take 1 b32), None, r')" by auto
  have len: "length ((x # tl (take 1 b32)) @ drop 1 b32) = 32" using assms by (cases b32) auto
  show ?thesis
    using readResponseV1_agrees [OF len, of r' "c\<lparr>c_typ := x\<rparr>"]
      readRequestV1_agrees [OF len, of r' "c\<lparr>c_typ := x\<rparr>"]
    unfolding readCommandBOLTV1_def parse_v1_def eq Cons r' by (auto simp: Let_def)
qed

lemma readV2_agrees:
  assumes "length b32 = 32"
  shows "agrees avail (readCommandBOLTV2 rh b32 r c) (parse_v2 c (avail r))"
proof (rule read_fixed_cases [of 2 "[0, 0]" r])
  fix r' assume r: "2 \<le> length (avail r)"
      "rh_ReadToBytes rh r 2 [0, 0] = (take 2 (avail r) @ drop 2 [0, 0], None, r')"
      and a: "avail r' = drop 2 (avail r)"
  let ?c = "c\<lparr>c_ver1 := avail r ! 0, c_typ := avail r ! 1\<rparr>"
  show ?thesis
    using r readResponseV2_agrees [OF assms, of r' ?c] readRequestV2_agrees [OF assms, of r' ?c]
    unfolding parse_v2_def a [symmetric]
    by (auto simp: readCommandBOLTV2_def Let_def)
qed (use assms in \<open>auto simp: readCommandBOLTV2_def parse_v2_def\<close>)

lemma ReadCommand_agrees:
  assumes "length b32 = 32"
  shows "agrees avail (ReadCommand rh b32 r c) (parse_command c (avail r))"
proof (cases "avail r")
  case Nil
  from u8_short [OF _ Nil, of "[c_reserved c]"] show ?thesis
    using Nil by (auto simp: ReadCommand_def parse_command_def)
next
  case (Cons x d)
  from u8_ok [OF _ Cons, of "[c_reserved c]"] obtain r' where r': "avail r' = d"
    and eq: "rh_ReadUint8WithBytes rh r [c_reserved c] = (x, [x], None, r')" by auto
  let ?c = "c\<lparr>c_reserved := 0, c_proto := x\<rparr>"
  show ?thesis
    using readV1_agrees [OF assms, of r' ?c] readV2_agrees [OF assms, of r' ?c]
      readTB_agrees [OF assms, of r' ?c]
    by (auto simp: ReadCommand_def parse_command_def eq Cons r' Let_def)
qed

end

end
