(* ===== verification/Codec.thy ===== *)
theory Codec
  imports Codec_Read
begin

text \<open>
  Writing and reading together: what a command looks like after it crossed the wire, for each
  protocol, and the byte stream of a connection as a reader that meets the contract of
  \<open>Codec_Read\<close>.
\<close>

subsection \<open>A connection as a reader\<close>

text \<open>
  A connection delivers its bytes in pieces of any size (Go's \<open>io.Reader\<close>), here the list of
  the pieces that are still to come before the end of the stream; \<open>io.ReadFull\<close> collects them.
\<close>

fun read_full :: "nat \<Rightarrow> bytes list \<Rightarrow> bytes \<times> bytes list" where
  "read_full n [] = ([], [])"
| "read_full n (p # ps) =
     (if n = 0 then ([], p # ps)
      else if length p \<le> n then (case read_full (n - length p) ps of (d, ps') \<Rightarrow> (p @ d, ps'))
      else (take n p, drop n p # ps))"

definition stream_read :: "bytes list \<Rightarrow> nat \<Rightarrow> bytes \<Rightarrow> bytes \<times> go_error option \<times> bytes list" where
  "stream_read ps n b =
     (case read_full n ps of
        (d, ps') \<Rightarrow> (d @ drop (length d) b,
          if length d = n then None else if d = [] then Some ErrEOF else Some ErrUnexpectedEOF, ps'))"

definition stream_helper :: "bytes list read_helper" where
  "stream_helper = \<lparr>
     rh_AllocToAtLeast = (\<lambda>b n. take n b @ replicate (n - length b) 0),
     rh_ReadToBytes = stream_read,
     rh_ReadUint8WithBytes =
       (\<lambda>ps b. case stream_read ps 1 b of (b, e, ps) \<Rightarrow> (b ! 0, b, e, ps)),
     rh_ReadBigEndianUint32WithBytes =
       (\<lambda>ps b. case stream_read ps 4 b of (b, e, ps) \<Rightarrow> (u32_at 0 b, b, e, ps))\<rparr>"

lemma read_full_spec:
  "read_full n ps = (d, ps') \<Longrightarrow> d = take n (concat ps) \<and> concat ps' = drop n (concat ps)"
  by (induction n ps arbitrary: d ps' rule: read_full.induct)
     (auto split: if_splits prod.splits)

lemma stream_read_ok:
  "n \<le> length (concat ps) \<Longrightarrow>
   \<exists>ps'. stream_read ps n b = (take n (concat ps) @ drop n b, None, ps') \<and>
     concat ps' = drop n (concat ps)"
  using read_full_spec [of n ps] by (cases "read_full n ps") (auto simp: stream_read_def)

lemma stream_read_short:
  "length (concat ps) < n \<Longrightarrow> \<exists>b' e ps'. stream_read ps n b = (b', Some e, ps')"
  using read_full_spec [of n ps] by (cases "read_full n ps") (auto simp: stream_read_def)

interpretation stream: reader_contract stream_helper concat
proof (unfold_locales, goal_cases)
  case (4 b ps x d)
  then show ?case using stream_read_ok [of 1 ps b]
    by (cases b) (auto simp: stream_helper_def)
next
  case (5 b ps)
  then show ?case using stream_read_short [of ps 1 b] by (auto simp: stream_helper_def)
next
  case (6 b ps)
  then show ?case using stream_read_ok [of 4 ps b]
    by (auto simp: stream_helper_def u32_at_def)
next
  case (7 b ps)
  then show ?case using stream_read_short [of ps 4 b] by (auto simp: stream_helper_def)
qed (auto simp: stream_helper_def stream_read_ok stream_read_short)

subsection \<open>Parsing a written frame\<close>

text \<open>What a command must satisfy for its lengths and headers to be representable.\<close>

definition wire_ok :: "command \<Rightarrow> bool" where
  "wire_ok c \<longleftrightarrow> length (c_class c) < 65536 \<and> length (sm_wire (c_headers c)) < 65536 \<and>
     length (c_content c) < 4294967296 \<and> sm_wf (c_headers c) \<and> sm_fits (c_headers c)"

definition tb_ok :: "command \<Rightarrow> bool" where
  "tb_ok c \<longleftrightarrow> length (c_class c) < 256 \<and> length (c_connection c) < 4294967296 \<and>
     length (c_content c) < 4294967296"

text \<open>The variable parts of \<open>c\<close>, read into \<open>c0\<close>.\<close>

definition with_body :: "command \<Rightarrow> command \<Rightarrow> command" where
  "with_body c c0 = c0\<lparr>c_class := c_class c, c_header := sm_wire (c_headers c),
     c_headers := (c_headers c)\<lparr>sm_raw := sm_wire (c_headers c)\<rparr>, c_content := c_content c\<rparr>"

lemma kv_parse_sm_wire:
  assumes "sm_wf m" and "sm_fits m" and "m0 = sm_Reset m0"
  shows "\<exists>es. kv_parse (sm_wire m) = (es, None) \<and>
    fold (\<lambda>(k, v). sm_set k v) es (m0\<lparr>sm_raw := sm_wire m\<rparr>) = m\<lparr>sm_raw := sm_wire m\<rparr>"
proof -
  have "sm_Decode (sm_wire m) m0 = Some (None, m\<lparr>sm_raw := sm_wire m\<rparr>)"
    using sm_Decode_sm_wire [OF assms(1,2), of m0] assms(3) by simp
  then show ?thesis by (cases "kv_parse (sm_wire m)") (simp add: sm_Decode_parse)
qed

lemma parse_body_frame:
  assumes "wire_ok c" and h: "c_headers c0 = sm_Reset h"
  shows "parse_body (len16 (length (c_class c))) (len16 (length (sm_wire (c_headers c))))
    (len32 (length (c_content c))) (frame_body c @ rest) c0 k = k (with_body c c0) rest"
proof -
  have "sm_Reset h = sm_Reset (sm_Reset h)" by (simp add: sm_Reset_def)
  with assms kv_parse_sm_wire [of "c_headers c" "sm_Reset h"]
  obtain es where "kv_parse (sm_wire (c_headers c)) = (es, None)"
    and "fold (\<lambda>(k, v). sm_set k v) es ((sm_Reset h)\<lparr>sm_raw := sm_wire (c_headers c)\<rparr>) =
      (c_headers c)\<lparr>sm_raw := sm_wire (c_headers c)\<rparr>"
    by (auto simp: wire_ok_def)
  with assms show ?thesis
    by (simp add: parse_body_def parse_part_def frame_body_def with_body_def wire_ok_def Let_def)
qed

text \<open>
  The command a frame of \<open>c\<close> is parsed into when the receiving command was \<open>c0\<close>. In a v1 frame
  \<open>ver2\<close> is read from the place of the first byte of the request id.
\<close>

definition recv_v1 :: "command \<Rightarrow> command \<Rightarrow> command" where
  "recv_v1 c c0 = with_body c (c0\<lparr>c_reserved := 0, c_proto := c_proto c, c_typ := c_typ c,
     c_cmdcode := c_cmdcode c, c_ver2 := ucast (drop_bit 24 (c_rid c)), c_rid := c_rid c,
     c_codec := c_codec c,
     c_timeout := (if is_req_typ (c_typ c) then c_timeout c else c_timeout c0),
     c_status := (if is_req_typ (c_typ c) then c_status c0 else c_status c)\<rparr>)"

definition recv_v2_plain :: "command \<Rightarrow> command \<Rightarrow> command" where
  "recv_v2_plain c c0 = with_body c (c0\<lparr>c_reserved := 0, c_proto := c_proto c,
     c_ver1 := c_ver1 c, c_typ := c_typ c, c_cmdcode := c_cmdcode c, c_ver2 := c_ver2 c,
     c_rid := c_rid c, c_codec := c_codec c, c_switc := c_switc c,
     c_timeout := (if is_req_typ (c_typ c) then c_timeout c else c_timeout c0),
     c_status := (if is_req_typ (c_typ c) then c_status c0 else c_status c)\<rparr>)"

definition recv_v2 :: "command \<Rightarrow> command \<Rightarrow> command" where
  "recv_v2 c c0 = (recv_v2_plain c c0)
     \<lparr>c_crc32 := (if c_switc c > 0 then Checksum (frame_v2_plain c) else c_crc32 c0)\<rparr>"

definition recv_tb :: "command \<Rightarrow> command \<Rightarrow> command" where
  "recv_tb c c0 = c0\<lparr>c_reserved := 0, c_proto := ProtoTBRemoting,
     c_cmdcode := ucast (ucast (c_cmdcode c) :: byte), c_codec := c_codec c, c_typ := c_typ c,
     c_connection := c_connection c, c_class := c_class c, c_content := c_content c\<rparr>"

text \<open>The count a decoder returns: class and header length are added as 16-bit words.\<close>

definition body_count :: "command \<Rightarrow> nat" where
  "body_count c = unat (len16 (length (c_class c)) + len16 (length (sm_wire (c_headers c)))) +
     length (c_content c)"

lemmas head_eval = be16_def be32_def u16_at_def u32_at_def frame_lens_def is_req_typ_def

lemma parse_frame_v1:
  assumes "wire_ok c" and "c_headers c0 = sm_Reset h"
    and "c_proto c \<in> {0, ProtoBOLTV1}" and "c_typ c \<in> {0, 1, 2}"
  shows "parse_command c0 (frame_v1 c @ rest) =
    Frame ((if is_req_typ (c_typ c) then 22 else 20) + body_count c) (recv_v1 c c0) rest"
proof -
  have n: "unat (len32 (length (c_content c))) = length (c_content c)"
    using assms(1) by (simp add: wire_ok_def)
  consider "c_typ c = 0" | "c_typ c = 1" | "c_typ c = 2" using assms(4) by auto
  then show ?thesis
    using assms(2,3) n
    by cases (auto simp: parse_command_def parse_v1_def frame_v1_def head_eval
        parse_body_frame [OF assms(1)] recv_v1_def with_body_def body_count_def)
qed

lemma parse_frame_v2_plain:
  assumes "wire_ok c" and "c_headers c0 = sm_Reset h"
    and "c_proto c = ProtoBOLTV2" and "c_typ c \<in> {0, 1, 2}"
  shows "parse_command c0 (frame_v2_plain c @ tail) =
    parse_crc ((if is_req_typ (c_typ c) then 24 else 22) + body_count c) (recv_v2_plain c c0) tail"
proof -
  have n: "unat (len32 (length (c_content c))) = length (c_content c)"
    using assms(1) by (simp add: wire_ok_def)
  note eval = parse_command_def parse_v2_def frame_v2_plain_def head_eval recv_v2_plain_def
    parse_body_frame [OF assms(1)] with_body_def body_count_def
  consider "c_typ c = 0" | "c_typ c = 1" | "c_typ c = 2" using assms(4) by auto
  then show ?thesis
    using assms(2,3) n by cases (simp_all add: eval add.assoc)
qed

lemma recv_v2_plain_simps [simp]:
  "c_switc (recv_v2_plain c c0) = c_switc c" "c_crc32 (recv_v2_plain c c0) = c_crc32 c0"
  by (simp_all add: recv_v2_plain_def with_body_def)

text \<open>Any four bytes serve as the checksum.\<close>

lemma parse_frame_v2_crc:
  assumes "wire_ok c" and "c_headers c0 = sm_Reset h"
    and "c_proto c = ProtoBOLTV2" and "c_typ c \<in> {0, 1, 2}" and "c_switc c > 0"
  shows "parse_command c0 (frame_v2_plain c @ be32 x @ rest) =
    Frame ((if is_req_typ (c_typ c) then 24 else 22) + body_count c)
      ((recv_v2 c c0)\<lparr>c_crc32 := x\<rparr>) rest"
  using assms(5) parse_frame_v2_plain [OF assms(1-4), of "be32 x @ rest"]
  by (simp add: parse_crc_def recv_v2_def u32_at_be32 [where xs = "[]", simplified])

lemma parse_frame_v2:
  assumes "wire_ok c" and "c_headers c0 = sm_Reset h"
    and "c_proto c = ProtoBOLTV2" and "c_typ c \<in> {0, 1, 2}"
  shows "parse_command c0 (frame_v2 c @ rest) =
    Frame ((if is_req_typ (c_typ c) then 24 else 22) + body_count c) (recv_v2 c c0) rest"
proof (cases "c_switc c > 0")
  case True
  then have "(recv_v2 c c0)\<lparr>c_crc32 := Checksum (frame_v2_plain c)\<rparr> = recv_v2 c c0"
    by (simp add: recv_v2_def)
  with parse_frame_v2_crc [OF assms True] True show ?thesis by (simp add: frame_v2_def)
next
  case False
  then have "recv_v2 c c0 = recv_v2_plain c c0" by (simp add: recv_v2_def)
  with parse_frame_v2_plain [OF assms, of rest] False show ?thesis
    by (simp add: frame_v2_def parse_crc_def)
qed

lemma parse_frame_tb:
  assumes "tb_ok c" and "c_proto c = ProtoTBRemoting"
  shows "parse_command c0 (frame_tb c @ rest) =
    Frame (length (frame_tb c)) (recv_tb c c0) rest"
  using assms
  by (simp add: parse_command_def parse_tb_def frame_tb_def be32_def u32_at_def parse_part_def
      recv_tb_def tb_ok_def)

subsection \<open>The fuzz target\<close>

text \<open>
  \<open>Fuzz\<close> of src/sofabolt/fuzz.go: what is parsed must be written back as the same bytes, or the
  target panics. \<open>reader\<close> is \<open>bytes.NewReader\<close>.
\<close>

definition Fuzz ::
  "'r read_helper \<Rightarrow> (bytes \<Rightarrow> 'r) \<Rightarrow> bytes \<Rightarrow> bytes \<Rightarrow> nat option" where
  "Fuzz rh reader b32 data =
     (case ReadCommand rh b32 (reader data) Command_zero of
        None \<Rightarrow> None
      | Some (n, Some err, cmd, r) \<Rightarrow> Some 0
      | Some (n, None, cmd, r) \<Rightarrow>
          (case WriteCommand (rh_AllocToAtLeast rh) [] cmd of
             None \<Rightarrow> None
           | Some (Inl err) \<Rightarrow> Some 0
           | Some (Inr d) \<Rightarrow> if data = d then Some 1 else None))"

lemma frame_recv:
  "frame_v1 (recv_v1 c c0) = frame_v1 (c\<lparr>c_ver2 := ucast (drop_bit 24 (c_rid c))\<rparr>)"
  "frame_v2 (recv_v2 c c0) = frame_v2 c"
proof -
  have w: "sm_wire (m\<lparr>sm_raw := d\<rparr>) = sm_wire m" for m d
    by (simp add: sm_wire_def sm_Range_def)
  show "frame_v1 (recv_v1 c c0) = frame_v1 (c\<lparr>c_ver2 := ucast (drop_bit 24 (c_rid c))\<rparr>)"
    and "frame_v2 (recv_v2 c c0) = frame_v2 c"
    by (simp_all add: frame_v1_def frame_v2_def frame_v2_plain_def recv_v1_def recv_v2_def
        recv_v2_plain_def with_body_def frame_lens_def frame_body_def w)
qed

lemma recv_tags [simp]:
  "c_proto (recv_v1 c c0) = c_proto c" "c_typ (recv_v1 c c0) = c_typ c"
  "c_proto (recv_v2 c c0) = c_proto c" "c_typ (recv_v2 c c0) = c_typ c"
  by (simp_all add: recv_v1_def recv_v2_def recv_v2_plain_def with_body_def)

lemma frame_v1_ver2: "frame_v1 c = frame_v1 (c\<lparr>c_ver2 := v\<rparr>) \<longleftrightarrow> c_ver2 c = v"
  by (auto simp: frame_v1_def)

context reader_contract
begin

lemma alloc_ok: "alloc_ok (rh_AllocToAtLeast rh)"
  by (simp add: alloc_ok_def alloc)

text \<open>One complete frame at the front of the stream is read and nothing after it.\<close>

lemma read_frame:
  assumes "length b32 = 32" and "avail r = d @ rest"
    and "parse_command c0 (d @ rest) = Frame n c rest"
  shows "\<exists>r'. ReadCommand rh b32 r c0 = Some (n, None, c, r') \<and> avail r' = rest"
  using ReadCommand_agrees [OF assms(1), of r c0] assms(2,3) by (simp add: agrees_def)

lemma read_short_frame:
  assumes "length b32 = 32" and "parse_command c0 (avail r) = Short"
  shows "\<exists>e c r'. ReadCommand rh b32 r c0 = Some (0, Some e, c, r')"
  using ReadCommand_agrees [OF assms(1), of r c0] assms(2) by (simp add: agrees_def)

lemma Fuzz_frame:
  assumes b: "length b32 = 32" and r: "avail (reader d) = d"
    and p: "parse_command Command_zero d = Frame n c []" and w: "write_spec c = Inr d'"
  shows "Fuzz rh reader b32 d = (if d = d' then Some 1 else None)"
proof -
  obtain r' where "ReadCommand rh b32 (reader d) Command_zero = Some (n, None, c, r')"
    using read_frame [OF b, of "reader d" d "[]" Command_zero n c] r p by auto
  with w show ?thesis by (simp add: Fuzz_def WriteCommand_spec [OF alloc_ok])
qed

end

subsection \<open>Properties\<close>

text \<open>The smallest commands, for the witnesses.\<close>

definition sample :: "byte \<Rightarrow> byte \<Rightarrow> command" where
  "sample p t = Command_zero\<lparr>c_proto := p, c_typ := t, c_rid := 0x01000002, c_class := [65],
     c_content := [66, 67]\<rparr>"

lemma sm_wire_New [simp]: "sm_wire sm_New = []"
  by (simp add: sm_wire_def sm_Range_def sm_New_def)

lemma sample_simps [simp]:
  "c_proto (sample p t) = p" "c_typ (sample p t) = t" "c_headers (sample p t) = sm_New"
  "c_rid (sample p t) = 0x01000002" "c_ver2 (sample p t) = 0"
  by (simp_all add: sample_def Command_zero_def)

lemma sample_ok: "wire_ok (sample p t)" "tb_ok (sample p t)"
  by (simp_all add: wire_ok_def tb_ok_def sample_def Command_zero_def)

text \<open>
  C19. Encoding: \<open>WriteCommand\<close> never panics. Over an allocator that returns slices of the length
  asked for, whatever they held, it returns exactly the frame of the protocol diagrams for each
  protocol version and command type, and the package's error for an unknown protocol or type.
\<close>

theorem write_frames:
  assumes "alloc_ok alloc"
  shows "WriteCommand alloc b cmd = Some (write_spec cmd)"
  by (rule WriteCommand_spec [OF assms])

lemma write_frames_witness:
  "WriteCommand (\<lambda>b n. replicate n 7) [1] (sample 9 1) = Some (Inl ErrMalformedProto) \<and>
   WriteCommand (\<lambda>b n. replicate n 7) [1] (sample 1 1) = Some (Inr (frame_v1 (sample 1 1)))"
  using write_frames [of "\<lambda>b n. replicate n 7"] by (simp add: alloc_ok_def write_spec_def)

text \<open>
  C3. Decoding is a function of the byte stream: over any reader that meets the contract,
  however it cuts the stream into pieces and whatever the pooled scratch array and the command
  held before, \<open>ReadCommand\<close> does not panic and returns what the grammar says of the bytes still
  to come: the command and its count, leaving the reader behind the frame; the error of a
  malformed frame; or the reader's error when the stream ends inside a frame.
\<close>

theorem read_refines:
  assumes "reader_contract rh avail" and "length b32 = 32"
  shows "agrees avail (ReadCommand rh b32 r c) (parse_command c (avail r))"
  using assms by (rule reader_contract.ReadCommand_agrees)

lemma read_refines_witness:
  "agrees concat (ReadCommand stream_helper (replicate 32 9) [[1], [], [1, 0]] Command_zero)
     (parse_command Command_zero [1, 1, 0])"
  using read_refines [OF stream.reader_contract_axioms, of "replicate 32 9" "[[1], [], [1, 0]]"]
  by simp

text \<open>
  C2. Round trip of BOLT v2: a request, one-way request or response whose lengths fit the wire
  format, written and then read from any conforming reader into a command with a reset header
  map, gives back every field of the frame (type, codes, ids, timeout or status, class,
  headers in order, content) and consumes exactly its bytes, so that the next frame of a
  pipelined connection is read from its start. The count returned is the length of the frame
  without its checksum, except that class and header length are added as 16-bit words.
\<close>

theorem roundtrip_v2:
  assumes "reader_contract rh avail" and "length b32 = 32" and "wire_ok c"
    and "c_proto c = ProtoBOLTV2" and "c_typ c \<in> {0, 1, 2}" and "c_headers c0 = sm_Reset h"
    and "WriteCommand (rh_AllocToAtLeast rh) b c = Some (Inr f)" and "avail r = f @ rest"
  shows "\<exists>r'. ReadCommand rh b32 r c0 =
      Some ((if is_req_typ (c_typ c) then 24 else 22) + body_count c, None, recv_v2 c c0, r') \<and>
    avail r' = rest"
proof -
  note rc = assms(1)
  have "f = frame_v2 c"
    using assms WriteCommand_spec [OF reader_contract.alloc_ok [OF rc], of b c]
    by (simp add: write_spec_def)
  with reader_contract.read_frame [OF rc assms(2)] parse_frame_v2 [OF assms(3,6,4,5)] assms(8)
  show ?thesis by blast
qed

lemma roundtrip_v2_witness:
  "\<exists>r'. ReadCommand stream_helper (replicate 32 0)
     [take 7 (frame_v2 (sample 2 0)), drop 7 (frame_v2 (sample 2 0)) @ [2]] Command_zero =
     Some ((if is_req_typ (c_typ (sample 2 0)) then 24 else 22) + body_count (sample 2 0), None,
       recv_v2 (sample 2 0) Command_zero, r') \<and> concat r' = [2]"
proof (rule roundtrip_v2 [OF stream.reader_contract_axioms])
  show "WriteCommand (rh_AllocToAtLeast stream_helper) [] (sample 2 0) =
      Some (Inr (frame_v2 (sample 2 0)))"
    by (simp add: WriteCommand_spec [OF stream.alloc_ok] write_spec_def)
  show "c_headers Command_zero = sm_Reset sm_New" by (simp add: Command_zero_def sm_New_Reset [symmetric])
qed (simp_all add: sample_ok)

text \<open>
  C31. Round trip of BOLT v1: the same, except for one field: whatever \<open>ver2\<close> the sender set, the
  receiver sees the first byte of the request id in its place.
\<close>

theorem roundtrip_v1:
  assumes "reader_contract rh avail" and "length b32 = 32" and "wire_ok c"
    and "c_proto c \<in> {0, ProtoBOLTV1}" and "c_typ c \<in> {0, 1, 2}" and "c_headers c0 = sm_Reset h"
    and "WriteCommand (rh_AllocToAtLeast rh) b c = Some (Inr f)" and "avail r = f @ rest"
  shows "\<exists>r'. ReadCommand rh b32 r c0 =
      Some ((if is_req_typ (c_typ c) then 22 else 20) + body_count c, None, recv_v1 c c0, r') \<and>
    avail r' = rest \<and>
    c_ver2 (recv_v1 c c0) = ucast (drop_bit 24 (c_rid c))"
proof -
  note rc = assms(1)
  have "f = frame_v1 c"
    using assms WriteCommand_spec [OF reader_contract.alloc_ok [OF rc], of b c]
    by (simp add: write_spec_def split: if_splits)
  moreover have "c_ver2 (recv_v1 c c0) = ucast (drop_bit 24 (c_rid c))"
    by (simp add: recv_v1_def with_body_def)
  ultimately show ?thesis
    using reader_contract.read_frame [OF rc assms(2)] parse_frame_v1 [OF assms(3,6,4,5)] assms(8)
    by blast
qed

lemma roundtrip_v1_witness:
  "\<exists>r'. ReadCommand stream_helper (replicate 32 0) [frame_v1 (sample 1 1)] Command_zero =
     Some ((if is_req_typ (c_typ (sample 1 1)) then 22 else 20) + body_count (sample 1 1), None,
       recv_v1 (sample 1 1) Command_zero, r') \<and> concat r' = [] \<and>
     c_ver2 (recv_v1 (sample 1 1) Command_zero) = ucast (drop_bit 24 (c_rid (sample 1 1)))"
proof (rule roundtrip_v1 [OF stream.reader_contract_axioms])
  show "WriteCommand (rh_AllocToAtLeast stream_helper) [] (sample 1 1) =
      Some (Inr (frame_v1 (sample 1 1)))"
    by (simp add: WriteCommand_spec [OF stream.alloc_ok] write_spec_def)
  show "c_headers Command_zero = sm_Reset sm_New" by (simp add: Command_zero_def sm_New_Reset [symmetric])
qed (simp_all add: sample_ok)

text \<open>
  C32. Round trip of TBRemoting: connection object, class and content come back, and the count
  returned is the length of the frame; of the command code only the low byte travels.
\<close>

theorem roundtrip_tb:
  assumes "reader_contract rh avail" and "length b32 = 32" and "tb_ok c"
    and "c_proto c = ProtoTBRemoting"
    and "WriteCommand (rh_AllocToAtLeast rh) b c = Some (Inr f)" and "avail r = f @ rest"
  shows "\<exists>r'. ReadCommand rh b32 r c0 = Some (length f, None, recv_tb c c0, r') \<and> avail r' = rest"
proof -
  note rc = assms(1)
  have "f = frame_tb c"
    using assms WriteCommand_spec [OF reader_contract.alloc_ok [OF rc], of b c]
    by (simp add: write_spec_def)
  with reader_contract.read_frame [OF rc assms(2)] parse_frame_tb [OF assms(3,4)] assms(6)
  show ?thesis by blast
qed

lemma roundtrip_tb_witness:
  "\<exists>r'. ReadCommand stream_helper (replicate 32 0) [frame_tb (sample 13 1)] Command_zero =
     Some (length (frame_tb (sample 13 1)), None, recv_tb (sample 13 1) Command_zero, r') \<and>
     concat r' = []"
proof (rule roundtrip_tb [OF stream.reader_contract_axioms])
  show "WriteCommand (rh_AllocToAtLeast stream_helper) [] (sample 13 1) =
      Some (Inr (frame_tb (sample 13 1)))"
    by (simp add: WriteCommand_spec [OF stream.alloc_ok] write_spec_def)
qed (simp_all add: sample_ok)

text \<open>
  C30. Truncation: when the connection ends anywhere inside a well-formed frame, at whatever
  byte, \<open>ReadCommand\<close> returns an error and the count 0, never a partial command as a success.
\<close>

theorem truncated_frame_fails:
  assumes "reader_contract rh avail" and "length b32 = 32"
    and "write_spec c = Inr (avail r @ missing)" and "missing \<noteq> []"
    and "if c_proto c = ProtoTBRemoting then tb_ok c else wire_ok c"
    and "c_headers c0 = sm_Reset h"
  shows "\<exists>e c' r'. ReadCommand rh b32 r c0 = Some (0, Some e, c', r')"
proof (rule reader_contract.read_short_frame [OF assms(1,2)])
  have "\<exists>n c'. parse_command c0 (avail r @ missing) = Frame n c' []"
    using assms(3,5) parse_frame_v1 [OF _ assms(6), of c "[]"]
      parse_frame_v2 [OF _ assms(6), of c "[]"] parse_frame_tb [of c c0 "[]"]
    by (auto simp: write_spec_def split: if_splits)
  then show "parse_command c0 (avail r) = Short" using parse_strict_prefix assms(4) by blast
qed

lemma truncated_frame_fails_witness:
  "\<exists>e c' r'. ReadCommand stream_helper (replicate 32 0) [butlast (frame_v1 (sample 1 1))]
     Command_zero = Some (0, Some e, c', r')"
proof (rule truncated_frame_fails [OF stream.reader_contract_axioms])
  show "write_spec (sample 1 1) =
      Inr (concat [butlast (frame_v1 (sample 1 1))] @ [last (frame_v1 (sample 1 1))])"
  proof -
    have "frame_v1 (sample 1 1) \<noteq> []" by (simp add: frame_v1_def)
    then show ?thesis by (simp add: write_spec_def)
  qed
  show "c_headers Command_zero = sm_Reset sm_New" by (simp add: Command_zero_def sm_New_Reset [symmetric])
qed (simp_all add: sample_ok)

text \<open>
  C39. The sizes and counts the code reports, against the bytes it writes. \<open>Size\<close> is two short for
  a v1 request, four too long for a v1 response, four short for a v2 frame with a checksum, and
  for TBRemoting counts the headers, which are not sent, instead of the connection object.
\<close>

theorem size_vs_frame:
  "case write_spec c of
     Inl e \<Rightarrow> (c_proto c \<notin> {0, 1, 2, 13}) = (e = ErrMalformedProto)
   | Inr f \<Rightarrow> int (length f) = int (Command_Size c) +
       (if c_proto c = ProtoTBRemoting
        then int (length (c_connection c)) - int (length (sm_wire (c_headers c)))
        else if c_proto c = ProtoBOLTV2 then if c_switc c > 0 then 4 else 0
        else if is_req_typ (c_typ c) then 2 else -4)"
  by (auto simp: write_spec_def Command_Size_def frame_v1_def frame_v2_def frame_v2_plain_def
      frame_tb_def frame_lens_def frame_body_def is_req_typ_def sm_GetEncodeSize_wire Let_def)

text \<open>
  The checksum is not checked: a v2 frame with the switch on is accepted with any four
  bytes in the place of its checksum, and gives the same command but for the field \<open>crc32\<close>.
\<close>

theorem crc_not_checked:
  assumes "reader_contract rh avail" and "length b32 = 32" and "wire_ok c"
    and "c_proto c = ProtoBOLTV2" and "c_typ c \<in> {0, 1, 2}" and "c_headers c0 = sm_Reset h"
    and "c_switc c > 0" and "avail r = frame_v2_plain c @ be32 x @ rest"
  shows "\<exists>n r'. ReadCommand rh b32 r c0 = Some (n, None, (recv_v2 c c0)\<lparr>c_crc32 := x\<rparr>, r') \<and>
    avail r' = rest"
proof -
  have "\<exists>n. parse_command c0 (frame_v2_plain c @ be32 x @ rest) =
      Frame n ((recv_v2 c c0)\<lparr>c_crc32 := x\<rparr>) rest"
    using parse_frame_v2_crc [OF assms(3,6,4,5,7)] by blast
  with reader_contract.read_frame [OF assms(1,2), of r "frame_v2_plain c @ be32 x" rest c0] assms(8)
  show ?thesis by auto
qed

lemma crc_not_checked_witness:
  "\<exists>n r'. ReadCommand stream_helper (replicate 32 0)
     [frame_v2_plain ((sample 2 1)\<lparr>c_switc := 1\<rparr>), be32 0] Command_zero =
     Some (n, None, (recv_v2 ((sample 2 1)\<lparr>c_switc := 1\<rparr>) Command_zero)\<lparr>c_crc32 := 0\<rparr>, r') \<and>
     concat r' = []"
proof (rule crc_not_checked [OF stream.reader_contract_axioms])
  show "c_headers Command_zero = sm_Reset sm_New" by (simp add: Command_zero_def sm_New_Reset [symmetric])
qed (use sample_ok [of 2 1] in \<open>simp_all add: wire_ok_def\<close>)

text \<open>
  The fuzz target on frames the package writes: a v2 frame is parsed and written back
  unchanged; a v1 frame only when \<open>ver2\<close> happens to equal the first byte of the request id,
  otherwise the target panics.
\<close>

theorem fuzz_frames:
  assumes "reader_contract rh avail" and "length b32 = 32" and "wire_ok c"
    and "c_proto c \<in> {0, 1, 2}" and "c_typ c \<in> {0, 1, 2}" and "\<And>d. avail (reader d) = d"
  shows "Fuzz rh reader b32 (if c_proto c = ProtoBOLTV2 then frame_v2 c else frame_v1 c) =
    (if c_proto c = ProtoBOLTV2 \<or> c_ver2 c = ucast (drop_bit 24 (c_rid c)) then Some 1 else None)"
proof -
  have zero: "c_headers Command_zero = sm_Reset sm_New"
    by (simp add: Command_zero_def sm_New_Reset [symmetric])
  note fuzz = reader_contract.Fuzz_frame [where reader = reader, OF assms(1,2) assms(6)]
  show ?thesis
  proof (cases "c_proto c = ProtoBOLTV2")
    case True
    then have "write_spec (recv_v2 c Command_zero) = Inr (frame_v2 c)"
      using assms(5) by (simp add: write_spec_def frame_recv)
    with True fuzz [of "frame_v2 c"] parse_frame_v2 [OF assms(3) zero True assms(5), of "[]"]
    show ?thesis by simp
  next
    case False
    let ?c = "c\<lparr>c_ver2 := ucast (drop_bit 24 (c_rid c))\<rparr>"
    from False have p: "c_proto c \<in> {0, 1}" using assms(4) by simp
    then have "write_spec (recv_v1 c Command_zero) = Inr (frame_v1 ?c)"
      using assms(5) by (simp add: write_spec_def frame_recv)
    with False fuzz [of "frame_v1 c"] parse_frame_v1 [OF assms(3) zero p assms(5), of "[]"]
    show ?thesis by (simp add: frame_v1_ver2)
  qed
qed

lemma fuzz_frames_witness:
  "Fuzz stream_helper (\<lambda>d. [d]) (replicate 32 0) (frame_v1 (sample 1 1)) = None \<and>
   Fuzz stream_helper (\<lambda>d. [d]) (replicate 32 0) (frame_v2 (sample 2 2)) = Some 1"
  using fuzz_frames [OF stream.reader_contract_axioms, of "replicate 32 0" "sample 1 1" "\<lambda>d. [d]"]
    fuzz_frames [OF stream.reader_contract_axioms, of "replicate 32 0" "sample 2 2" "\<lambda>d. [d]"]
  by (simp add: sample_ok)

end
