(* ===== verification/Codec_Type.thy ===== *)
theory Codec_Type
  imports Codec
begin

text \<open>
  What the readers of src/sofabolt/command.go accept is well formed, so that a proxy can write it
  again: the type of the result of \<open>ReadCommand\<close>.
\<close>

subsection \<open>Commands that were read can be written\<close>

lemma unat16: "unat (w :: 16 word) < 65536"
  by (rule order_less_le_trans [OF unsigned_less]) simp

lemma unat32: "unat (w :: 32 word) < 4294967296"
  by (rule order_less_le_trans [OF unsigned_less]) simp

text \<open>The length of a header map on the wire, and what parsing a block can make of it.\<close>

lemma wire_set_kvs: "length (wire_kvs (sm_set_kvs k v kvs)) \<le> length (wire_kvs kvs) + (8 + length k + length v)"
  by (induction kvs) auto

lemma wire_set: "length (sm_wire (sm_set k v m)) \<le> length (sm_wire m) + (8 + length k + length v)"
proof -
  have "length (wire_kvs (sm_kvs (sm_set k v m))) \<le> length (wire_kvs (sm_kvs m)) + (8 + length k + length v)"
    if "k \<notin> sm_special"
    using wire_set_kvs [of k v "sm_kvs m"] sm_specialD [OF that] by (simp add: sm_set_def)
  moreover have "length (sm_wire m) = length (wire_kvs [(k, v) \<leftarrow> [(StrService, sm_service m), (StrHost, sm_host m),
      (StrContentType, sm_contentType m), (StrAuthorization, sm_authorization m)]. v \<noteq> []]) +
      length (wire_kvs (sm_kvs m))" for m
    by (simp add: sm_wire_def sm_Range_def)
  ultimately show ?thesis
    by (cases "k \<in> sm_special") (auto simp: sm_special_def sm_set_def)
qed

lemma wire_fold:
  "length (sm_wire (fold (\<lambda>(k, v). sm_set k v) es m)) \<le> length (sm_wire m) + length (wire_kvs es)"
proof (induction es arbitrary: m)
  case (Cons e es)
  obtain k v where e: "e = (k, v)" by fastforce
  show ?case using Cons.IH [of "sm_set k v m"] wire_set [of k v m] by (simp add: e)
qed simp

lemma kv_parse_length: "length (wire_kvs (fst (kv_parse d))) \<le> length d"
proof (induction d rule: kv_parse.induct)
  case (1 d)
  define n where "n = unat (u32_at 0 d)"
  define u where "u = value_len (u32_at 0 (drop (4 + n) d))"
  let ?d = "drop (4 + n + 4 + u) d"
  show ?case
  proof (cases "d \<noteq> [] \<and> 4 + n + 4 + u \<le> length d")
    case True
    then have "length (wire_kvs (fst (kv_parse ?d))) \<le> length ?d"
      using 1 [of n u] by (simp add: n_def u_def)
    moreover have "fst (kv_parse d) = (take n (drop 4 d), take u (drop (4 + n + 4) d)) # fst (kv_parse ?d)"
      using True by (subst kv_parse.simps)
        (simp add: Let_def n_def [symmetric] u_def [symmetric] split: prod.split)
    moreover have "length (take n (drop 4 d)) \<le> n" "length (take u (drop (4 + n + 4) d)) \<le> u" by simp_all
    moreover have "length ?d = length d - (4 + n + 4 + u)" by simp
    ultimately show ?thesis using True by (simp only: wire_kvs_simps length_append length_u32str) linarith
  next
    case False
    then have "fst (kv_parse d) = []"
      by (subst kv_parse.simps) (auto simp: Let_def n_def [symmetric] u_def [symmetric])
    then show ?thesis by simp
  qed
qed

lemma parsed_headers:
  assumes "kv_parse b = (es, None)" and "length b < 65536"
    and "m = fold (\<lambda>(k, v). sm_set k v) es ((sm_Reset h)\<lparr>sm_raw := b\<rparr>)"
  shows "sm_wf m \<and> sm_fits m \<and> length (sm_wire m) < 65536"
proof -
  have d: "sm_Decode b (sm_Reset h) = Some (None, m)"
    using assms(1,3) by (simp add: sm_Decode_parse)
  have "sm_wf m" by (rule sm_Decode_inv [OF d]) auto
  moreover have "sm_fits m" by (rule sm_Decode_inv [OF d]) auto
  moreover have "sm_wire ((sm_Reset h)\<lparr>sm_raw := b\<rparr>) = []"
    by (simp add: sm_wire_def sm_Range_def sm_Reset_def)
  then have "length (sm_wire m) \<le> length (wire_kvs es)"
    using wire_fold [of es "(sm_Reset h)\<lparr>sm_raw := b\<rparr>"] assms(3) by simp
  ultimately show ?thesis using kv_parse_length [of b] assms(1,2) by simp
qed

lemma parse_body_FrameE:
  assumes "parse_body cl hl n d c k = Frame m c' r" and "c_headers c = sm_Reset h"
  obtains c1 d1 where "k c1 d1 = Frame m c' r" and "wire_ok c1" and "c_proto c1 = c_proto c"
    and "c_typ c1 = c_typ c"
proof -
  let ?a = "take (unat cl) d" and ?d = "drop (unat cl) d"
  let ?b = "take (unat hl) ?d" and ?e = "take (unat n) (drop (unat hl) ?d)"
  obtain es where es: "kv_parse ?b = (es, None)"
    using assms(1) by (auto simp: parse_body_def parse_part_def split: if_splits prod.splits option.splits)
  define hm where "hm = fold (\<lambda>(k, v). sm_set k v) es ((sm_Reset h)\<lparr>sm_raw := ?b\<rparr>)"
  let ?c = "c\<lparr>c_class := ?a, c_header := ?b, c_headers := hm, c_content := ?e\<rparr>"
  have "k ?c (drop (unat n) (drop (unat hl) ?d)) = Frame m c' r"
    using assms es by (auto simp: parse_body_def parse_part_def Let_def hm_def split: if_splits)
  moreover have "wire_ok ?c"
  proof -
    have l: "length ?a < 65536" "length ?b < 65536" "length ?e < 4294967296"
      by (simp_all add: unat16 unat32 min.strict_coboundedI2)
    then show ?thesis using parsed_headers [OF es l(2) hm_def] by (simp add: wire_ok_def)
  qed
  ultimately show thesis by (rule that) simp_all
qed

lemma wire_ok_crc: "parse_crc k c d = Frame n c' r \<Longrightarrow>
    (wire_ok c' = wire_ok c) \<and> c_proto c' = c_proto c \<and> c_typ c' = c_typ c"
  by (auto simp: parse_crc_def wire_ok_def split: if_splits)

definition readable :: "command \<Rightarrow> bool" where
  "readable c \<longleftrightarrow> c_proto c \<in> {0, ProtoBOLTV1, ProtoBOLTV2} \<and> c_typ c \<in> {0, 1, 2} \<and> wire_ok c \<or>
     c_proto c = ProtoTBRemoting \<and> tb_ok c"

lemma parse_v1_readable:
  assumes "parse_v1 c d = Frame n c' r" and "c_headers c = sm_Reset h"
    and "c_proto c \<in> {0, ProtoBOLTV1}"
  shows "readable c'"
  using assms by (auto simp: parse_v1_def Let_def readable_def split: if_splits elim!: parse_body_FrameE)

lemma parse_v2_readable:
  assumes "parse_v2 c d = Frame n c' r" and "c_headers c = sm_Reset h" and "c_proto c = ProtoBOLTV2"
  shows "readable c'"
  using assms by (auto simp: parse_v2_def Let_def readable_def split: if_splits
      elim!: parse_body_FrameE dest!: wire_ok_crc)

lemma parse_tb_readable:
  assumes "parse_tb c d = Frame n c' r"
  shows "readable c'"
proof -
  have "unat (d ! 8) < 256" "unat (u32_at 4 d) < 4294967296" "unat (u32_at 9 d) < 4294967296"
    by (simp_all add: unat32 order_less_le_trans [OF unsigned_less])
  with assms show ?thesis
    by (auto simp: parse_tb_def parse_part_def readable_def tb_ok_def split: if_splits)
qed

lemma parse_command_readable:
  assumes "parse_command c d = Frame n c' r" and "c_headers c = sm_Reset h"
  shows "readable c'"
  using assms by (auto simp: parse_command_def Let_def split: if_splits
      intro: parse_v1_readable parse_v2_readable parse_tb_readable)

lemma readable_written:
  assumes "readable c" and "alloc_ok alloc"
  shows "\<exists>f. WriteCommand alloc b c = Some (Inr f)"
  using assms by (auto simp: WriteCommand_spec write_spec_def readable_def)

subsection \<open>Properties\<close>

text \<open>
  C5. Type of what is read: whatever \<open>ReadCommand\<close> accepts, from any conforming reader into a
  command with a reset header map, is a well-formed command: a known protocol and type, no header
  twice, class, header block and content within the ranges of their length fields. So a command
  that was read can be written again, by any allocator, without an error or a panic.
\<close>

theorem read_well_formed:
  assumes "reader_contract rh avail" and "length b32 = 32" and "c_headers c0 = sm_Reset h"
    and "ReadCommand rh b32 r c0 = Some (n, None, c, r')" and "alloc_ok alloc"
  shows "readable c \<and> (\<exists>f. WriteCommand alloc b c = Some (Inr f))"
proof -
  have "agrees avail (Some (n, None, c, r')) (parse_command c0 (avail r))"
    using reader_contract.ReadCommand_agrees [OF assms(1,2), of r c0] assms(4) by simp
  then have "parse_command c0 (avail r) = Frame n c (avail r')"
    by (auto simp: agrees_def split: parsed.splits)
  from parse_command_readable [OF this assms(3)] assms(5) show ?thesis
    by (simp add: readable_written)
qed

lemma read_well_formed_witness:
  "\<exists>n c r'. ReadCommand stream_helper (replicate 32 0) [frame_v2 (sample 2 1)] Command_zero =
       Some (n, None, c, r') \<and> readable c \<and>
     (\<exists>f. WriteCommand (\<lambda>b n. replicate n 7) [] c = Some (Inr f))"
proof -
  have h: "c_headers Command_zero = sm_Reset sm_New"
    by (simp add: Command_zero_def sm_New_Reset [symmetric])
  have "concat [frame_v2 (sample 2 1)] = frame_v2 (sample 2 1) @ []" by simp
  from stream.read_frame [OF _ this parse_frame_v2 [OF sample_ok(1) h], of "replicate 32 0"]
  obtain n c r' where r: "ReadCommand stream_helper (replicate 32 0) [frame_v2 (sample 2 1)]
      Command_zero = Some (n, None, c, r')"
    by auto
  from read_well_formed [OF stream.reader_contract_axioms _ h r, of "\<lambda>b n. replicate n 7"] r
  show ?thesis by (auto simp: alloc_ok_def)
qed

end
