(* ===== verification/Timers.thy ===== *)
theory Timers
  imports Main
begin

text \<open>
  The pool of timers of src/sofabolt/syncpool.go, which bounds how long a call waits. A
  \<open>time.Timer\<close> is modelled as the package documents it: it is active until it fires or is stopped,
  firing puts one tick in its channel of capacity one, \<open>Stop\<close> and \<open>Reset\<close> return whether it was
  active. The pool is a list; \<open>Get\<close> may find it empty at any time.
\<close>

subsection \<open>Timers\<close>

record timer =
  tm_active :: bool
  tm_ticked :: bool

definition NewTimer :: timer where
  "NewTimer = \<lparr>tm_active = True, tm_ticked = False\<rparr>"

definition timer_Stop :: "timer \<Rightarrow> bool \<times> timer" where
  "timer_Stop t = (tm_active t, t\<lparr>tm_active := False\<rparr>)"

definition timer_Reset :: "timer \<Rightarrow> bool \<times> timer" where
  "timer_Reset t = (tm_active t, t\<lparr>tm_active := True\<rparr>)"

definition timer_fire :: "timer \<Rightarrow> timer" where
  "timer_fire t = (if tm_active t then t\<lparr>tm_active := False, tm_ticked := True\<rparr> else t)"

text \<open>A receive on the channel that does not block, and whether there was a tick.\<close>

definition timer_receive :: "timer \<Rightarrow> bool \<times> timer" where
  "timer_receive t = (tm_ticked t, t\<lparr>tm_ticked := False\<rparr>)"

subsection \<open>The pool\<close>

text \<open>\<open>None\<close> is the panic on an active timer, and the nil timer.\<close>

definition initTimer :: "timer option \<Rightarrow> timer option" where
  "initTimer t =
     (case t of
        None \<Rightarrow> Some NewTimer
      | Some t \<Rightarrow> (case timer_Reset t of (active, t) \<Rightarrow> if active then None else Some t))"

definition stopTimer :: "timer \<Rightarrow> timer" where
  "stopTimer t =
     (case timer_Stop t of (active, t) \<Rightarrow> if \<not> active then snd (timer_receive t) else t)"

definition AcquireTimer :: "bool \<Rightarrow> timer list \<Rightarrow> (timer \<times> timer list) option" where
  "AcquireTimer found pool =
     (if \<not> found \<or> pool = [] then Some (NewTimer, pool)
      else map_option (\<lambda>t. (t, tl pool)) (initTimer (Some (hd pool))))"

definition ReleaseTimer :: "timer \<Rightarrow> timer list \<Rightarrow> timer list" where
  "ReleaseTimer t pool = stopTimer t # pool"

text \<open>What a call does with its timer: it fires or not, and its tick is received or not.\<close>

definition timer_use :: "bool \<Rightarrow> bool \<Rightarrow> timer \<Rightarrow> timer" where
  "timer_use fires receives t =
     (let t = (if fires then timer_fire t else t)
      in if receives then snd (timer_receive t) else t)"

text \<open>Calls one after another, each with a timer from the pool.\<close>

fun timer_calls :: "(bool \<times> bool \<times> bool) list \<Rightarrow> timer list \<Rightarrow> timer list option" where
  "timer_calls [] pool = Some pool"
| "timer_calls ((found, fires, receives) # calls) pool =
     (case AcquireTimer found pool of
        None \<Rightarrow> None
      | Some (t, pool) \<Rightarrow> timer_calls calls (ReleaseTimer (timer_use fires receives t) pool))"

subsection \<open>No tick survives its call\<close>

definition idle_timer :: "timer \<Rightarrow> bool" where
  "idle_timer t \<longleftrightarrow> \<not> tm_active t \<and> \<not> tm_ticked t"

lemma stop_active: "tm_active t \<Longrightarrow> \<not> tm_ticked t \<Longrightarrow> idle_timer (stopTimer t)"
  by (simp add: stopTimer_def timer_Stop_def idle_timer_def)

lemma stop_expired: "\<not> tm_active t \<Longrightarrow> idle_timer (stopTimer t)"
  by (simp add: stopTimer_def timer_Stop_def timer_receive_def idle_timer_def)

lemma reset_idle: "idle_timer t \<Longrightarrow> timer_Reset t = (False, NewTimer)"
  by (cases t) (simp add: timer_Reset_def idle_timer_def NewTimer_def)

lemma acquired_fresh:
  assumes "list_all idle_timer pool"
  shows "\<exists>pool'. AcquireTimer found pool = Some (NewTimer, pool') \<and> list_all idle_timer pool'"
  using assms by (cases pool) (auto simp: AcquireTimer_def initTimer_def reset_idle)

text \<open>
  Whatever the calls do, acquiring a timer never panics, every call starts with a timer like a
  new one, and the pool holds only stopped timers without a tick: no call is timed out by the
  timer of an earlier one.
\<close>

lemma timer_calls_idle:
  "list_all idle_timer pool \<Longrightarrow> \<exists>pool'. timer_calls calls pool = Some pool' \<and> list_all idle_timer pool'"
proof (induction calls arbitrary: pool)
  case (Cons call calls)
  obtain found fires receives where c: "call = (found, fires, receives)" by (cases call)
  obtain pool1 where a: "AcquireTimer found pool = Some (NewTimer, pool1)" "list_all idle_timer pool1"
    using acquired_fresh [OF Cons.prems] by blast
  have "idle_timer (stopTimer (timer_use fires receives NewTimer))"
    by (cases fires; cases receives)
      (auto simp: timer_use_def timer_fire_def timer_receive_def NewTimer_def Let_def
        intro: stop_active stop_expired)
  with a(2) have "list_all idle_timer (ReleaseTimer (timer_use fires receives NewTimer) pool1)"
    by (simp add: ReleaseTimer_def)
  from Cons.IH [OF this] a(1) c show ?case by simp
qed simp

subsection \<open>The pools of buffered readers and writers\<close>

text \<open>
  \<open>acquireBufioWriter\<close> and \<open>acquireBufioReader\<close> of the same file, and their counterparts. The objects
  \<open>'b\<close> are those of the package bufiorw, with its constructor and its \<open>Reset\<close> onto a connection, or
  onto none; \<open>i\<close> is what the pool's \<open>Get\<close> returned.
\<close>

definition acquireBufioWriter ::
  "('w option \<Rightarrow> nat \<Rightarrow> 'b) \<Rightarrow> ('w option \<Rightarrow> 'b \<Rightarrow> 'b) \<Rightarrow> 'b option \<Rightarrow> 'w \<Rightarrow> 'b" where
  "acquireBufioWriter NewWriterSize Reset i w =
     (case i of None \<Rightarrow> NewWriterSize (Some w) 8192 | Some bw \<Rightarrow> Reset (Some w) bw)"

definition releaseBufioWriter :: "('w option \<Rightarrow> 'b \<Rightarrow> 'b) \<Rightarrow> 'b \<Rightarrow> 'b list \<Rightarrow> 'b list" where
  "releaseBufioWriter Reset bw pool = Reset None bw # pool"

definition acquireBufioReader ::
  "('r option \<Rightarrow> nat \<Rightarrow> 'b) \<Rightarrow> ('r option \<Rightarrow> 'b \<Rightarrow> 'b) \<Rightarrow> 'b option \<Rightarrow> 'r \<Rightarrow> 'b" where
  "acquireBufioReader NewReaderSize Reset i r =
     (case i of None \<Rightarrow> NewReaderSize (Some r) 8192 | Some br \<Rightarrow> Reset (Some r) br)"

definition releaseBufioReader :: "('r option \<Rightarrow> 'b \<Rightarrow> 'b) \<Rightarrow> 'b \<Rightarrow> 'b list \<Rightarrow> 'b list" where
  "releaseBufioReader Reset br pool = Reset None br # pool"

text \<open>
  When \<open>Reset\<close> makes an object behave (\<open>view\<close>) as a new one of its size, which all objects of these
  pools have, no connection sees buffered bytes of another one.
\<close>

lemma pooled_bufio_fresh:
  assumes "\<And>w b. size b = n \<Longrightarrow> size (Reset w b) = n \<and> view (Reset w b) = view (New w n)"
    and "\<And>w. size (New w n) = n" and "n = 8192" and "list_all (\<lambda>b. size b = n) pool"
    and "i = None \<or> (\<exists>b \<in> set pool. i = Some b)"
  shows "view (acquireBufioWriter New Reset i w) = view (New (Some w) n) \<and>
    view (acquireBufioReader New Reset i w) = view (New (Some w) n) \<and>
    list_all (\<lambda>b. size b = n) (releaseBufioWriter Reset (acquireBufioWriter New Reset i w) pool) \<and>
    list_all (\<lambda>b. size b = n) (releaseBufioReader Reset (acquireBufioReader New Reset i w) pool)"
  using assms by (auto simp: acquireBufioWriter_def acquireBufioReader_def releaseBufioWriter_def
    releaseBufioReader_def list_all_iff split: option.split)

end
