(* ===== verification/Request_Response.thy ===== *)
theory Request_Response
  imports Codec
begin

text \<open>
  src/sofabolt/request.go and response.go: a command with the connection object that
  TBRemoting frames carry, and the rules for the id that pairs a response with its request.

  The connection objects and their Hessian serialisation come from packages outside the
  repository. Of an object the code uses the pointer \<open>Ctx\<close> and its field \<open>ID\<close>; everything else in
  it is the type parameter \<open>'x\<close>. The serialiser, the decoder (which may leave a half-filled
  object behind on an error) and the object's \<open>Reset\<close> are the record \<open>hessian\<close>, a parameter. The
  request's \<open>context.Context\<close>, which nothing in the protocol reads, is in theory \<open>Accessors\<close>.
\<close>

record 'x tbconn =
  tb_Ctx_ID :: "64 word option"
  tb_rest :: 'x

record 'x hessian =
  h_Encode :: "'x tbconn \<Rightarrow> bytes \<times> go_error option"
  h_Decode :: "bytes \<Rightarrow> 'x tbconn \<Rightarrow> 'x tbconn \<times> go_error option"
  h_Reset :: "'x tbconn \<Rightarrow> 'x tbconn"

record 'x message =
  m_command :: command
  m_tbconn :: "'x tbconn"
  m_tbconnbuf :: bytes

text \<open>\<open>Request\<close> and \<open>Response\<close> have the same fields.\<close>

type_synonym 'x request = "'x message"
type_synonym 'x response = "'x message"

definition message_new :: "'x tbconn \<Rightarrow> 'x message" where
  "message_new t = \<lparr>m_command = Command_zero, m_tbconn = t, m_tbconnbuf = []\<rparr>"

definition set_command :: "(command \<Rightarrow> command) \<Rightarrow> 'x message \<Rightarrow> 'x message" where
  "set_command f c = c\<lparr>m_command := f (m_command c)\<rparr>"

definition ShallowCopyCommand :: "command \<Rightarrow> 'x message \<Rightarrow> 'x message" where
  "ShallowCopyCommand cmd c = set_command (ShallowCopyTo cmd) c"

definition CopyCommand :: "command \<Rightarrow> 'x message \<Rightarrow> 'x message" where
  "CopyCommand cmd c = set_command (Command_CopyTo cmd) c"

text \<open>
  \<open>Read\<close>: after a TBRemoting frame the connection object is decoded; a decoding error is
  discarded and leaves an empty context.
\<close>

definition Message_Read ::
  "'x hessian \<Rightarrow> 'r read_helper \<Rightarrow> bytes \<Rightarrow> 'r \<Rightarrow> 'x message \<Rightarrow>
   (nat \<times> go_error option \<times> 'x message \<times> 'r) option" where
  "Message_Read h rh b32 r c =
     (case ReadCommand rh b32 r (m_command c) of
        None \<Rightarrow> None
      | Some (n, Some err, cmd, r) \<Rightarrow> Some (n, Some err, c\<lparr>m_command := cmd\<rparr>, r)
      | Some (n, None, cmd, r) \<Rightarrow>
          let c = c\<lparr>m_command := cmd\<rparr> in
          if c_proto cmd \<noteq> ProtoTBRemoting then Some (n, None, c, r)
          else (case h_Decode h (c_connection cmd) (m_tbconn c) of
                  (t, Some err) \<Rightarrow> Some (n, None, c\<lparr>m_tbconn := t\<lparr>tb_Ctx_ID := Some 0\<rparr>\<rparr>, r)
                | (t, None) \<Rightarrow> Some (n, None, c\<lparr>m_tbconn := t\<rparr>, r)))"

text \<open>
  \<open>Write\<close>: the returned slice or error, and the message with the serialised connection object
  stored in its command. When serialising fails the slice \<open>b\<close> is returned beside the error.
\<close>

definition Message_Write ::
  "'x hessian \<Rightarrow> (bytes \<Rightarrow> nat \<Rightarrow> bytes) \<Rightarrow> bytes \<Rightarrow> 'x message \<Rightarrow>
   ((go_error + bytes) \<times> 'x message) option" where
  "Message_Write h alloc b c =
     (if c_proto (m_command c) \<noteq> ProtoTBRemoting
      then map_option (\<lambda>res. (res, c)) (WriteCommand alloc b (m_command c))
      else case h_Encode h (m_tbconn c) of
             (buf, Some err) \<Rightarrow> Some (Inl err, c\<lparr>m_tbconnbuf := buf\<rparr>)
           | (buf, None) \<Rightarrow>
               let c = c\<lparr>m_tbconnbuf := buf,
                         m_command := (m_command c)\<lparr>c_connection := buf\<rparr>\<rparr>
               in map_option (\<lambda>res. (res, c)) (WriteCommand alloc b (m_command c)))"

text \<open>\<open>Reset\<close> keeps protocol, type and command code; only a request resets its object.\<close>

definition reset_command :: "command \<Rightarrow> command" where
  "reset_command c = (Command_Reset c)
     \<lparr>c_proto := c_proto c, c_typ := c_typ c, c_cmdcode := c_cmdcode c\<rparr>"

definition Request_Reset :: "'x hessian \<Rightarrow> 'x request \<Rightarrow> 'x request" where
  "Request_Reset h c = c\<lparr>m_tbconn := h_Reset h (m_tbconn c), m_tbconnbuf := [],
     m_command := reset_command (m_command c)\<rparr>"

definition Response_Reset :: "'x response \<Rightarrow> 'x response" where
  "Response_Reset c = c\<lparr>m_command := reset_command (m_command c)\<rparr>"

definition Request_SetRequestID :: "32 word \<Rightarrow> 'x request \<Rightarrow> 'x request" where
  "Request_SetRequestID i c =
     (if c_proto (m_command c) = ProtoTBRemoting \<and> tb_Ctx_ID (m_tbconn c) \<noteq> None
      then c\<lparr>m_tbconn := (m_tbconn c)\<lparr>tb_Ctx_ID := Some (ucast i)\<rparr>\<rparr>
      else set_command (\<lambda>cmd. cmd\<lparr>c_rid := i\<rparr>) c)"

definition Response_SetRequestID :: "32 word \<Rightarrow> 'x response \<Rightarrow> 'x response" where
  "Response_SetRequestID i c =
     (let c = (if c_proto (m_command c) = ProtoTBRemoting \<and> tb_Ctx_ID (m_tbconn c) \<noteq> None
               then c\<lparr>m_tbconn := (m_tbconn c)\<lparr>tb_Ctx_ID := Some (ucast i)\<rparr>\<rparr> else c)
      in set_command (\<lambda>cmd. cmd\<lparr>c_rid := i\<rparr>) c)"

definition GetRequestID :: "'x message \<Rightarrow> 32 word" where
  "GetRequestID c =
     (if c_proto (m_command c) = ProtoTBRemoting
      then case tb_Ctx_ID (m_tbconn c) of Some i \<Rightarrow> ucast i | None \<Rightarrow> c_rid (m_command c)
      else c_rid (m_command c))"

definition Response_Derive :: "'x request \<Rightarrow> 'x response \<Rightarrow> 'x response" where
  "Response_Derive b c =
     set_command (\<lambda>d. let s = m_command b in d\<lparr>c_proto := c_proto s, c_ver1 := c_ver1 s,
       c_typ := TypeBOLTResponse, c_cmdcode := CMDCodeBOLTResponse, c_ver2 := c_ver2 s,
       c_rid := c_rid s, c_codec := c_codec s, c_switc := c_switc s, c_timeout := c_timeout s,
       c_status := c_status s\<rparr>) c"

definition Message_CopyTo :: "'x message \<Rightarrow> 'x message \<Rightarrow> 'x message" where
  "Message_CopyTo c d = CopyCommand (m_command c) d"

text \<open>What \<open>AcquireRequest\<close> and \<open>AcquireResponse\<close> (syncpool.go) set on a pooled message.\<close>

definition AcquireRequest :: "'x request \<Rightarrow> 'x request" where
  "AcquireRequest pooled = set_command (\<lambda>c. c\<lparr>c_proto := ProtoBOLTV1,
     c_cmdcode := CMDCodeBOLTRequest, c_typ := TypeBOLTRequest, c_codec := CodecHessian2\<rparr>) pooled"

definition AcquireResponse :: "'x response \<Rightarrow> 'x response" where
  "AcquireResponse pooled = set_command (\<lambda>c. c\<lparr>c_proto := ProtoBOLTV1,
     c_cmdcode := CMDCodeBOLTResponse, c_typ := TypeBOLTResponse, c_codec := CodecHessian2\<rparr>) pooled"

definition ReleaseRequest :: "'x hessian \<Rightarrow> 'x request \<Rightarrow> 'x request" where
  "ReleaseRequest h di = Request_Reset h di"

definition ReleaseResponse :: "'x response \<Rightarrow> 'x response" where
  "ReleaseResponse di = Response_Reset di"

subsection \<open>The id of a message\<close>

lemma ucast_ucast_id [simp]: "ucast (ucast (i :: 32 word) :: 64 word) = i"
  by (rule bit_word_eqI) (simp add: bit_simps)

lemma GetRequestID_set [simp]:
  "GetRequestID (Request_SetRequestID i c) = i"
  "GetRequestID (Response_SetRequestID i c) = i"
  by (auto simp: GetRequestID_def Request_SetRequestID_def Response_SetRequestID_def
      set_command_def Let_def split: option.split)

text \<open>
  What the client and the server rely on: an id that was set is the id that is read, and setting
  it changes nothing that decides how the message is framed.
\<close>

locale identified =
  fixes set_id :: "32 word \<Rightarrow> 'x message \<Rightarrow> 'x message"
  assumes get_set: "GetRequestID (set_id i c) = i"
    and set_frame: "c_proto (m_command (set_id i c)) = c_proto (m_command c)"
      "c_typ (m_command (set_id i c)) = c_typ (m_command c)"
      "c_content (m_command (set_id i c)) = c_content (m_command c)"
begin

lemma set_bolt_rid:
  "c_proto (m_command c) \<noteq> ProtoTBRemoting \<Longrightarrow> c_rid (m_command (set_id i c)) = i"
  using get_set [of i c] by (simp add: GetRequestID_def set_frame)

lemma set_twice: "GetRequestID (set_id j (set_id i c)) = j"
  by (rule get_set)

end

interpretation request_id: identified Request_SetRequestID
  by (unfold_locales, rule GetRequestID_set(1)) (auto simp: Request_SetRequestID_def set_command_def)

interpretation response_id: identified Response_SetRequestID
  by (unfold_locales, rule GetRequestID_set(2))
    (auto simp: Response_SetRequestID_def set_command_def Let_def)

subsection \<open>A released message is clean\<close>

lemma reset_command_simps [simp]:
  "c_proto (reset_command c) = c_proto c" "c_typ (reset_command c) = c_typ c"
  "c_cmdcode (reset_command c) = c_cmdcode c"
  "c_headers (reset_command c) = sm_Reset (c_headers c)"
  "c_class (reset_command c) = []" "c_content (reset_command c) = []" "c_rid (reset_command c) = 0"
  "c_status (reset_command c) = 0" "c_switc (reset_command c) = 0" "c_timeout (reset_command c) = 0"
  by (simp_all add: reset_command_def Command_Reset_def)

lemma reset_command_wire_ok [simp]: "wire_ok (reset_command c)"
  by (simp add: wire_ok_def sm_wire_def sm_Range_def sm_Reset_def sm_wf_def sm_fits_def)

subsection \<open>Properties\<close>

text \<open>
  No state leaks through the request and response pools on the wire: whatever a message held
  when it was released, the message acquired next writes the same frame as a fresh one.
\<close>

theorem pool_messages_clean:
  "write_spec (m_command (AcquireRequest (ReleaseRequest h di))) =
     write_spec (m_command (AcquireRequest (message_new t))) \<and>
   write_spec (m_command (AcquireResponse (ReleaseResponse di))) =
     write_spec (m_command (AcquireResponse (message_new t)))"
  by (simp add: AcquireRequest_def AcquireResponse_def ReleaseRequest_def ReleaseResponse_def
      Request_Reset_def Response_Reset_def set_command_def write_spec_def frame_v1_def
      message_new_def reset_command_def Command_Reset_zero Command_zero_def frame_lens_def
      frame_body_def sm_wire_def sm_Range_def sm_New_def)

lemma Message_Write_bolt:
  assumes "alloc_ok alloc" and "c_proto (m_command c) \<noteq> ProtoTBRemoting"
  shows "Message_Write h alloc b c = Some (write_spec (m_command c), c)"
  using assms(2) by (simp add: Message_Write_def WriteCommand_spec [OF assms(1)])

lemma read_message:
  assumes "reader_contract rh avail" and "length b32 = 32"
    and "wire_ok (m_command q)" and "c_proto (m_command q) \<in> {0, 1, 2}"
    and "c_headers (m_command c0) = sm_Reset h0"
    and "write_spec (m_command q) = Inr f" and "avail r = f @ rest"
    and "Message_Read h rh b32 r c0 = Some (n, e, s, r')"
  shows "e = None \<and> avail r' = rest \<and> c_rid (m_command s) = c_rid (m_command q) \<and>
    c_proto (m_command s) = c_proto (m_command q) \<and> c_typ (m_command s) = c_typ (m_command q) \<and>
    c_class (m_command s) = c_class (m_command q) \<and>
    c_content (m_command s) = c_content (m_command q)"
proof -
  let ?c = "m_command q"
  have t: "c_typ ?c \<in> {0, 1, 2}" using assms(4,6) by (auto simp: write_spec_def split: if_splits)
  have f: "f = (if c_proto ?c = ProtoBOLTV2 then frame_v2 ?c else frame_v1 ?c)"
    using assms(4,6) t by (auto simp: write_spec_def)
  define c' where "c' = (if c_proto ?c = ProtoBOLTV2 then recv_v2 ?c (m_command c0)
    else recv_v1 ?c (m_command c0))"
  have "\<exists>n r1. ReadCommand rh b32 r (m_command c0) = Some (n, None, c', r1) \<and> avail r1 = rest"
  proof (cases "c_proto ?c = ProtoBOLTV2")
    case True
    from reader_contract.read_frame [OF assms(1,2), of r f rest "m_command c0"]
      parse_frame_v2 [OF assms(3,5) True t, of rest] assms(7)
    show ?thesis by (auto simp: f c'_def True)
  next
    case False
    then have p: "c_proto ?c \<in> {0, 1}" using assms(4) by auto
    from False reader_contract.read_frame [OF assms(1,2), of r f rest "m_command c0"]
      parse_frame_v1 [OF assms(3,5) p t, of rest] assms(7)
    show ?thesis by (auto simp: f c'_def)
  qed
  moreover have "c_proto c' \<noteq> ProtoTBRemoting" using assms(4) by (auto simp: c'_def)
  moreover have "c_rid c' = c_rid ?c" "c_class c' = c_class ?c" "c_content c' = c_content ?c"
    by (simp_all add: c'_def recv_v1_def recv_v2_def recv_v2_plain_def with_body_def)
  ultimately show ?thesis
    using assms(8) by (auto simp: Message_Read_def c'_def Let_def)
qed

lemma Response_Derive_simps [simp]:
  "c_proto (m_command (Response_Derive s res)) = c_proto (m_command s)"
  "c_rid (m_command (Response_Derive s res)) = c_rid (m_command s)"
  "c_typ (m_command (Response_Derive s res)) = 0"
  "wire_ok (m_command (Response_Derive s res)) = wire_ok (m_command res)"
  by (simp_all add: Response_Derive_def set_command_def wire_ok_def Let_def)

text \<open>
  C28. Pairing ids across the wire: a BOLT request with id \<open>i\<close>, written by a client and read by a
  server, has id \<open>i\<close> there; the response the server derives from it, written and read back by
  the client, has id \<open>i\<close> again. It holds for both protocol versions and whatever the messages
  held before, as long as they were reset before they are read into.
\<close>

theorem ids_pair_up:
  assumes "reader_contract rh avail" and "length b32 = 32" and "alloc_ok alloc"
    and "wire_ok (m_command (Request_SetRequestID i q))" and "c_proto (m_command q) \<in> {0, 1, 2}"
    and "Message_Write h alloc b (Request_SetRequestID i q) = Some (Inr f, q')"
    and "avail r = f @ rest"
    and "Message_Read h rh b32 r (Request_Reset h q0) = Some (n, e, s, r')"
    and "wire_ok (m_command res)"
    and "Message_Write h alloc b' (Response_Derive s res) = Some (Inr g, res')"
    and "avail t = g @ rest'"
    and "Message_Read h rh b32 t (Response_Reset res0) = Some (m, e', u, t')"
  shows "e = None \<and> e' = None \<and> GetRequestID s = i \<and> GetRequestID u = i \<and>
    avail r' = rest \<and> avail t' = rest'"
proof -
  let ?q = "Request_SetRequestID i q"
  have p: "c_proto (m_command ?q) \<in> {0, 1, 2}" using assms(5) by (simp add: request_id.set_frame)
  then have pq: "c_proto (m_command ?q) \<noteq> ProtoTBRemoting" by auto
  then have "write_spec (m_command ?q) = Inr f"
    using assms(6) Message_Write_bolt [OF assms(3) pq, of h b] by (metis Pair_inject option.inject)
  from read_message [OF assms(1,2,4) p _ this assms(7,8), of "c_headers (m_command q0)"]
  have s: "e = None" "avail r' = rest" "c_rid (m_command s) = c_rid (m_command ?q)"
      "c_proto (m_command s) = c_proto (m_command ?q)"
    by (auto simp: Request_Reset_def)
  have i: "c_rid (m_command ?q) = i"
    using pq request_id.set_bolt_rid [of q i] by (simp add: request_id.set_frame)
  let ?d = "Response_Derive s res"
  have pd: "c_proto (m_command ?d) \<in> {0, 1, 2}" and nd: "c_proto (m_command ?d) \<noteq> ProtoTBRemoting"
    using p s(4) by auto
  have "write_spec (m_command ?d) = Inr g"
    using assms(10) Message_Write_bolt [OF assms(3) nd, of h b'] by (metis Pair_inject option.inject)
  from read_message [OF assms(1,2) _ pd _ this assms(11,12), of "c_headers (m_command res0)"] assms(9)
  have u: "e' = None" "avail t' = rest'" "c_rid (m_command u) = c_rid (m_command s)"
      "c_proto (m_command u) = c_proto (m_command s)"
    by (auto simp: Response_Reset_def)
  show ?thesis using s u i pq by (auto simp: GetRequestID_def)
qed

lemma Message_Read_total:
  assumes "reader_contract rh avail" and "length b32 = 32"
  obtains n e s r' where "Message_Read h rh b32 r c = Some (n, e, s, r')"
proof -
  obtain n e cmd r' where "ReadCommand rh b32 r (m_command c) = Some (n, e, cmd, r')"
    using reader_contract.ReadCommand_agrees [OF assms, of r "m_command c"]
    by (cases "parse_command (m_command c) (avail r)") (auto simp: agrees_def)
  then have "Message_Read h rh b32 r c \<noteq> None"
    by (auto simp: Message_Read_def Let_def split: option.split prod.split)
  then show thesis using that by (metis not_Some_eq prod_cases4)
qed

text \<open>A serialiser without connection objects, for the witness.\<close>

definition plain_hessian :: "unit hessian" where
  "plain_hessian = \<lparr>h_Encode = (\<lambda>t. ([], None)), h_Decode = (\<lambda>b t. (t, None)), h_Reset = (\<lambda>t. t)\<rparr>"

definition blank :: "unit message" where
  "blank = message_new \<lparr>tb_Ctx_ID = None, tb_rest = ()\<rparr>"

lemma ids_pair_up_witness:
  "\<exists>f g s u n m e e' r' t'.
     Message_Read plain_hessian stream_helper (replicate 32 0) [f]
       (Request_Reset plain_hessian blank) = Some (n, e, s, r') \<and> GetRequestID s = 77 \<and>
     Message_Read plain_hessian stream_helper (replicate 32 0) [g] (Response_Reset blank) =
       Some (m, e', u, t') \<and> GetRequestID u = 77"
proof -
  let ?h = plain_hessian and ?b = "replicate 32 0 :: bytes"
  let ?alloc = "\<lambda>(b :: bytes) n. replicate n (0 :: byte)"
  let ?q = "AcquireRequest blank"
  have tags: "c_proto (m_command ?q) = 1" "c_typ (m_command ?q) = 1"
    "c_headers (m_command blank) = sm_New" "c_class (m_command blank) = []"
    "c_content (m_command blank) = []"
    by (simp_all add: AcquireRequest_def set_command_def blank_def message_new_def
        Command_zero_def)
  have q: "c_proto (m_command (Request_SetRequestID 77 ?q)) = 1"
    "c_typ (m_command (Request_SetRequestID 77 ?q)) = 1"
    using tags by (simp_all add: request_id.set_frame)
  have ok: "wire_ok (m_command (Request_SetRequestID 77 ?q))" "wire_ok (m_command blank)"
    by (simp_all add: Request_SetRequestID_def AcquireRequest_def set_command_def blank_def
        message_new_def Command_zero_def wire_ok_def)
  have al: "alloc_ok ?alloc" by (simp add: alloc_ok_def)
  obtain f where f: "Message_Write ?h ?alloc [] (Request_SetRequestID 77 ?q) =
      Some (Inr f, Request_SetRequestID 77 ?q)"
    using Message_Write_bolt [OF al, of "Request_SetRequestID 77 ?q" ?h "[]"] q
    by (simp add: write_spec_def)
  obtain n e s r' where s:
    "Message_Read ?h stream_helper ?b [f] (Request_Reset ?h blank) = Some (n, e, s, r')"
    by (rule Message_Read_total [OF stream.reader_contract_axioms, of ?b]) auto
  have ws: "write_spec (m_command (Request_SetRequestID 77 ?q)) = Inr f"
    using f Message_Write_bolt [OF al, of "Request_SetRequestID 77 ?q" ?h "[]"] q by simp
  have "c_proto (m_command s) = 1"
    using read_message [OF stream.reader_contract_axioms _ ok(1) _ _ ws _ s, of sm_New "[]"] q tags
    by (auto simp: Request_Reset_def)
  then obtain g where g: "Message_Write ?h ?alloc [] (Response_Derive s blank) =
      Some (Inr g, Response_Derive s blank)"
    using Message_Write_bolt [OF al, of "Response_Derive s blank" ?h "[]"]
    by (simp add: write_spec_def)
  obtain m e' u t' where u:
    "Message_Read ?h stream_helper ?b [g] (Response_Reset blank) = Some (m, e', u, t')"
    by (rule Message_Read_total [OF stream.reader_contract_axioms, of ?b]) auto
  have "GetRequestID s = 77 \<and> GetRequestID u = 77"
    using ids_pair_up [OF stream.reader_contract_axioms _ al ok(1) _ f _ s ok(2) g _ u, of "[]" "[]"]
      tags by simp
  with s u show ?thesis by blast
qed

end
