(* ===== verification/Client.thy ===== *)
theory Client
  imports Request_Response "HOL-Library.AList"
begin

text \<open>
  The multiplexing client of src/sofabolt/client.go and invoke_context.go: many goroutines call
  \<open>Do\<close>, \<open>DoTimeout\<close> or \<open>DoCallback\<close>, each registers an \<open>InvokeContext\<close> under its request id and
  writes its frame; one goroutine, \<open>doread\<close>, reads commands and hands each response to the context
  registered under its id.

  The model is a machine of small steps over the state they share. A call is a record with a
  program counter (\<open>phase\<close>), the reader another; every access to shared state is a step of its own,
  so that any interleaving is a list of \<open>action\<close>s. Contexts live in a heap, a pointer to one is a
  number; a channel is the list of values buffered in it, \<open>None\<close> the nil channel. The outcomes the
  environment chooses (what \<open>Read\<close>, \<open>Write\<close> and \<open>Dial\<close> return, which context the pool hands out,
  when a timer fires, when someone calls \<open>Close\<close>) are the actions' arguments. An action that is not
  possible in a state gives \<open>None\<close>.

  The callback and the handler of the user are recorded, not run. The connection object of a
  TBRemoting response is not decoded by \<open>doread\<close>, so its id is that of the zero object. Heartbeats
  (\<open>doheartbeat\<close>) are \<open>Do\<close> actions. Deadlines of the connection are part of what \<open>Read\<close> returns.
\<close>

subsection \<open>State\<close>

record 'x ictx =
  ic_callback :: bool
  ic_owner :: nat
  ic_ires :: "'x response"
  ic_errCh :: "go_error option list option"
  ic_res :: "'x response option"
  ic_calls :: "(go_error option \<times> 'x response option) list"

text \<open>
  \<open>ic_owner\<close> stands for the pointers \<open>req\<close> and \<open>res\<close>: the call whose request and response they are.
  Of a context with a callback, \<open>ic_res\<close> is the response it was given, and \<open>ic_calls\<close> lists the
  calls of the callback, with the error and \<open>res\<close> at that moment.
\<close>

datatype phase =
    Entering | Open | Numbering | Adding bytes | Writing bytes | WriteFailed go_error
  | OneWayWritten | Waiting | TimedOut | Copying
  | Finishing "go_error option" | Returned "go_error option"

record 'x call =
  cc_ictx :: nat
  cc_callback :: bool
  cc_timeout :: bool
  cc_req :: "'x request"
  cc_res :: "'x response"
  cc_rid :: "32 word"
  cc_phase :: phase

datatype 'x reader =
    Reading | Delivering nat "'x response" | Sending nat
  | Cleaning go_error | Redialing go_error | Dialing go_error
  | Closing go_error | Storing go_error | Notifying go_error | Stopped

record 'x client =
  cl_requests :: "(32 word \<times> nat) list"
  cl_rid :: "32 word"
  cl_ictxs :: "nat \<Rightarrow> 'x ictx"
  cl_nictxs :: nat
  cl_pool :: "nat list"
  cl_calls :: "nat \<Rightarrow> 'x call"
  cl_ncalls :: nat
  cl_reader :: "'x reader"
  cl_handled :: "command list"
  cl_closed :: bool
  cl_rerr :: "go_error option"
  cl_rerrCh :: "go_error list"
  cl_conn :: nat
  cl_closes :: "nat list"
  cl_written :: "(nat \<times> bytes) list"
  cl_nread :: int
  cl_references :: int
  cl_used :: int
  cl_lasted :: int
  cl_now :: int

record 'x client_env =
  ce_hessian :: "'x hessian"
  ce_alloc :: "bytes \<Rightarrow> nat \<Rightarrow> bytes"
  ce_tbconn :: "'x tbconn"
  ce_disableAutoIncrementRequestID :: bool
  ce_dialer :: bool
  ce_handler :: bool

definition ictx_new :: "'x client_env \<Rightarrow> 'x ictx" where
  "ictx_new env = \<lparr>ic_callback = False, ic_owner = 0, ic_ires = message_new (ce_tbconn env),
     ic_errCh = None, ic_res = None, ic_calls = []\<rparr>"

definition call_new :: "'x client_env \<Rightarrow> 'x call" where
  "call_new env = \<lparr>cc_ictx = 0, cc_callback = False, cc_timeout = False,
     cc_req = message_new (ce_tbconn env), cc_res = message_new (ce_tbconn env), cc_rid = 0,
     cc_phase = Returned None\<rparr>"

text \<open>\<open>NewClient\<close> on a connection.\<close>

definition NewClient :: "'x client_env \<Rightarrow> nat \<Rightarrow> 'x client" where
  "NewClient env conn = \<lparr>cl_requests = [], cl_rid = 0, cl_ictxs = (\<lambda>_. ictx_new env), cl_nictxs = 0,
     cl_pool = [], cl_calls = (\<lambda>_. call_new env), cl_ncalls = 0, cl_reader = Reading,
     cl_handled = [], cl_closed = False, cl_rerr = None, cl_rerrCh = [], cl_conn = conn,
     cl_closes = [], cl_written = [], cl_nread = 0, cl_references = 0, cl_used = 0,
     cl_lasted = 0, cl_now = 0\<rparr>"

definition set_ictx :: "nat \<Rightarrow> ('x ictx \<Rightarrow> 'x ictx) \<Rightarrow> 'x client \<Rightarrow> 'x client" where
  "set_ictx p f c = c\<lparr>cl_ictxs := (cl_ictxs c)(p := f (cl_ictxs c p))\<rparr>"

definition set_call :: "nat \<Rightarrow> ('x call \<Rightarrow> 'x call) \<Rightarrow> 'x client \<Rightarrow> 'x client" where
  "set_call i f c = c\<lparr>cl_calls := (cl_calls c)(i := f (cl_calls c i))\<rparr>"

abbreviation set_phase :: "nat \<Rightarrow> phase \<Rightarrow> 'x client \<Rightarrow> 'x client" where
  "set_phase i ph \<equiv> set_call i (\<lambda>k. k\<lparr>cc_phase := ph\<rparr>)"

abbreviation phase_of :: "'x client \<Rightarrow> nat \<Rightarrow> phase" where
  "phase_of c i \<equiv> cc_phase (cl_calls c i)"

subsection \<open>Starting a call\<close>

text \<open>\<open>AcquireInvokeContext\<close> on the context \<open>p\<close>, from the pool or new, for the call \<open>i\<close>.\<close>

definition AcquireInvokeContext :: "nat \<Rightarrow> nat \<Rightarrow> 'x client \<Rightarrow> 'x client" where
  "AcquireInvokeContext p i c =
     set_ictx p (\<lambda>x. x\<lparr>ic_owner := i,
       ic_errCh := (case ic_errCh x of None \<Rightarrow> Some []
                    | Some ch \<Rightarrow> if length ch = 1 then Some [] else Some ch)\<rparr>) c"

definition add_call :: "'x call \<Rightarrow> 'x client \<Rightarrow> 'x client" where
  "add_call k c = c\<lparr>cl_calls := (cl_calls c)(cl_ncalls c := k), cl_ncalls := cl_ncalls c + 1\<rparr>"

definition DoTimeout ::
  "'x client_env \<Rightarrow> 'x request \<Rightarrow> 'x response \<Rightarrow> bool \<Rightarrow> nat option \<Rightarrow> 'x client \<Rightarrow> 'x client option"
  where
  "DoTimeout env req res timeout pooled c =
     (let c = c\<lparr>cl_references := cl_references c + 1, cl_used := cl_used c + 1\<rparr>;
          start = (\<lambda>p c. add_call \<lparr>cc_ictx = p, cc_callback = False, cc_timeout = timeout,
                       cc_req = req, cc_res = res, cc_rid = 0, cc_phase = Entering\<rparr>
                     (AcquireInvokeContext p (cl_ncalls c) c))
      in case pooled of
           None \<Rightarrow> Some (start (cl_nictxs c)
             (set_ictx (cl_nictxs c) (\<lambda>_. ictx_new env) (c\<lparr>cl_nictxs := cl_nictxs c + 1\<rparr>)))
         | Some p \<Rightarrow>
             if p \<in> set (cl_pool c) then Some (start p (c\<lparr>cl_pool := remove1 p (cl_pool c)\<rparr>))
             else None)"

definition DoCallbackTimeout :: "'x client_env \<Rightarrow> 'x request \<Rightarrow> 'x client \<Rightarrow> 'x client" where
  "DoCallbackTimeout env req c =
     (let p = cl_nictxs c; i = cl_ncalls c
      in add_call \<lparr>cc_ictx = p, cc_callback = True, cc_timeout = False, cc_req = req,
             cc_res = message_new (ce_tbconn env), cc_rid = 0, cc_phase = Entering\<rparr>
           (set_ictx p (\<lambda>_. (ictx_new env)\<lparr>ic_callback := True, ic_owner := i\<rparr>)
             (c\<lparr>cl_references := cl_references c + 1, cl_nictxs := p + 1\<rparr>)))"

subsection \<open>Invoke\<close>

definition delRequestContext :: "32 word \<Rightarrow> 'x client \<Rightarrow> 'x client" where
  "delRequestContext rid c = c\<lparr>cl_requests := AList.delete rid (cl_requests c)\<rparr>"

definition addRequestContext :: "32 word \<Rightarrow> nat \<Rightarrow> 'x client \<Rightarrow> 'x client" where
  "addRequestContext rid p c = c\<lparr>cl_requests := AList.update rid p (cl_requests c)\<rparr>"

definition getAndDelRequestContext :: "32 word \<Rightarrow> 'x client \<Rightarrow> nat option \<times> 'x client" where
  "getAndDelRequestContext rid c =
     (map_of (cl_requests c) rid, c\<lparr>cl_requests := AList.delete rid (cl_requests c)\<rparr>)"

text \<open>The request id, from the counter or the caller's own; from the type check to the frame.\<close>

definition assign_id ::
  "'x client_env \<Rightarrow> 'x request \<Rightarrow> 'x client \<Rightarrow> 32 word \<times> 'x request \<times> 'x client" where
  "assign_id env req c =
     (if \<not> ce_disableAutoIncrementRequestID env
      then let rid = cl_rid c + 1 in (rid, Request_SetRequestID rid req, c\<lparr>cl_rid := rid\<rparr>)
      else (GetRequestID req, req, c))"

definition number_request :: "'x client_env \<Rightarrow> nat \<Rightarrow> 'x client \<Rightarrow> 'x client option" where
  "number_request env i c =
     (let k = cl_calls c i; req = cc_req k; t = c_typ (m_command req)
      in if t \<noteq> TypeBOLTRequest \<and> t \<noteq> TypeBOLTRequestOneWay
         then Some (set_phase i (Finishing (Some ErrClientNotARequest)) c)
         else
           let (rid, req, c) = assign_id env req c
           in case Message_Write (ce_hessian env) (ce_alloc env) [] req of
                None \<Rightarrow> None
              | Some (Inl err, req) \<Rightarrow>
                  Some (set_call i (\<lambda>k. k\<lparr>cc_rid := rid, cc_req := req,
                                          cc_phase := Finishing (Some err)\<rparr>) c)
              | Some (Inr dst, req) \<Rightarrow>
                  Some (set_call i (\<lambda>k. k\<lparr>cc_rid := rid, cc_req := req,
                                          cc_phase := Adding dst\<rparr>) c))"

text \<open>The end of \<open>DoTimeout\<close> and \<open>DoCallbackTimeout\<close>, after \<open>invoke\<close> returned \<open>err\<close>.\<close>

definition finish_call :: "nat \<Rightarrow> go_error option \<Rightarrow> 'x client \<Rightarrow> 'x client" where
  "finish_call i err c =
     (let k = cl_calls c i;
          c = (if cc_callback k then c\<lparr>cl_used := cl_used c + 1\<rparr>
               else if err \<noteq> Some ErrClientTimeout then c\<lparr>cl_pool := cc_ictx k # cl_pool c\<rparr>
               else c)
      in set_phase i (Returned err)
           (c\<lparr>cl_lasted := cl_now c, cl_references := cl_references c - 1\<rparr>))"

definition invoke_step :: "'x client_env \<Rightarrow> nat \<Rightarrow> 'x client \<Rightarrow> 'x client option" where
  "invoke_step env i c =
     (let k = cl_calls c i; p = cc_ictx k; rid = cc_rid k
      in case cc_phase k of
           Entering \<Rightarrow>
             Some (set_phase i
               (if cl_closed c then Finishing (Some ErrClientWasClosed) else Open) c)
         | Open \<Rightarrow>
             Some (set_phase i
               (case cl_rerr c of Some err \<Rightarrow> Finishing (Some err) | None \<Rightarrow> Numbering) c)
         | Numbering \<Rightarrow> number_request env i c
         | Adding dst \<Rightarrow> Some (set_phase i (Writing dst) (addRequestContext rid p c))
         | WriteFailed err \<Rightarrow>
             Some (set_phase i (Finishing (Some err)) (delRequestContext rid c))
         | OneWayWritten \<Rightarrow> Some (set_phase i (Finishing None) (delRequestContext rid c))
         | Waiting \<Rightarrow>
             (case ic_errCh (cl_ictxs c p) of
                Some (m # ch) \<Rightarrow>
                  Some (set_phase i (case m of Some err \<Rightarrow> Finishing (Some err) | None \<Rightarrow> Copying)
                    (set_ictx p (\<lambda>x. x\<lparr>ic_errCh := Some ch\<rparr>) c))
              | _ \<Rightarrow> None)
         | TimedOut \<Rightarrow>
             Some (set_phase i (Finishing (Some ErrClientTimeout)) (delRequestContext rid c))
         | Copying \<Rightarrow>
             Some (set_call i (\<lambda>k. k\<lparr>cc_res := Message_CopyTo (ic_ires (cl_ictxs c p)) (cc_res k),
                                     cc_phase := Finishing None\<rparr>) c)
         | Finishing err \<Rightarrow> Some (finish_call i err c)
         | _ \<Rightarrow> None)"

text \<open>The connection's \<open>Write\<close> returns.\<close>

definition write_returns :: "nat \<Rightarrow> go_error option \<Rightarrow> 'x client \<Rightarrow> 'x client option" where
  "write_returns i err c =
     (let k = cl_calls c i
      in case cc_phase k of
           Writing dst \<Rightarrow>
             Some (set_phase i
               (case err of
                  Some e \<Rightarrow> WriteFailed e
                | None \<Rightarrow>
                    if c_typ (m_command (cc_req k)) = TypeBOLTRequestOneWay then OneWayWritten
                    else if ic_errCh (cl_ictxs c (cc_ictx k)) \<noteq> None then Waiting
                    else Finishing None)
               (c\<lparr>cl_written := cl_written c @ [(cl_conn c, dst)]\<rparr>))
         | _ \<Rightarrow> None)"

definition timer_fires :: "nat \<Rightarrow> 'x client \<Rightarrow> 'x client option" where
  "timer_fires i c =
     (if phase_of c i = Waiting \<and> cc_timeout (cl_calls c i)
      then Some (set_phase i TimedOut c) else None)"

subsection \<open>The reader\<close>

definition set_reader :: "'x reader \<Rightarrow> 'x client \<Rightarrow> 'x client" where
  "set_reader r c = c\<lparr>cl_reader := r\<rparr>"

definition AssignResponse :: "'x response \<Rightarrow> 'x ictx \<Rightarrow> 'x ictx" where
  "AssignResponse res x = x\<lparr>ic_ires := Message_CopyTo res (Response_Reset (ic_ires x))\<rparr>"

definition handleRequest :: "'x client_env \<Rightarrow> command \<Rightarrow> 'x client \<Rightarrow> 'x client" where
  "handleRequest env req c =
     (if \<not> ce_handler env then c else c\<lparr>cl_handled := cl_handled c @ [req]\<rparr>)"

definition handleResponse :: "'x response \<Rightarrow> 'x client \<Rightarrow> 'x client" where
  "handleResponse res c =
     (case getAndDelRequestContext (GetRequestID res) c of
        (None, c) \<Rightarrow> c
      | (Some p, c) \<Rightarrow> set_reader (Delivering p res) c)"

text \<open>One turn of the read loop: a request goes to the handler, a response to its context.\<close>

definition read_returns :: "'x client_env \<Rightarrow> nat \<Rightarrow> command \<Rightarrow> 'x client \<Rightarrow> 'x client option" where
  "read_returns env nr cmd c =
     (if cl_reader c \<noteq> Reading then None
      else
        let c = c\<lparr>cl_nread := cl_nread c + int nr\<rparr>
        in if IsRequest cmd then Some (handleRequest env cmd c)
           else Some (handleResponse ((message_new (ce_tbconn env))\<lparr>m_command := cmd\<rparr>) c))"

lemma read_returns_eq:
  "read_returns env nr cmd c =
     (if cl_reader c \<noteq> Reading then None
      else
        let c = c\<lparr>cl_nread := cl_nread c + int nr\<rparr>
        in if IsRequest cmd
           then Some (if ce_handler env then c\<lparr>cl_handled := cl_handled c @ [cmd]\<rparr> else c)
           else
             let res = (message_new (ce_tbconn env))\<lparr>m_command := cmd\<rparr>
             in case getAndDelRequestContext (GetRequestID res) c of
                  (None, c) \<Rightarrow> Some c
                | (Some p, c) \<Rightarrow> Some (set_reader (Delivering p res) c))"
  by (simp add: read_returns_def handleRequest_def handleResponse_def Let_def
      split: prod.split option.split)

text \<open>\<open>InvokeContext.Invoke\<close> up to the send on the channel, which is a step of its own.\<close>

definition Invoke :: "nat \<Rightarrow> 'x response \<Rightarrow> 'x client \<Rightarrow> 'x client" where
  "Invoke p res c =
     (if ic_callback (cl_ictxs c p)
      then set_reader Reading (set_ictx p (\<lambda>x. x\<lparr>ic_res := Some res,
             ic_calls := ic_calls x @ [(None, Some res)]\<rparr>) c)
      else set_reader (Sending p) (set_ictx p (AssignResponse res) c))"

definition Invoke_send :: "nat \<Rightarrow> 'x client \<Rightarrow> 'x client option" where
  "Invoke_send p c =
     (case ic_errCh (cl_ictxs c p) of
        Some ch \<Rightarrow>
          if length ch < 1
          then Some (set_reader Reading (set_ictx p (\<lambda>x. x\<lparr>ic_errCh := Some (ch @ [None])\<rparr>) c))
          else None
      | None \<Rightarrow> None)"

text \<open>A pending context at the end of the read loop; the send does not block.\<close>

definition fail_pending :: "go_error \<Rightarrow> 'x ictx \<Rightarrow> 'x ictx" where
  "fail_pending err x =
     (if ic_callback x then x\<lparr>ic_calls := ic_calls x @ [(Some err, ic_res x)]\<rparr>
      else case ic_errCh x of
             Some ch \<Rightarrow> if length ch < 1 then x\<lparr>ic_errCh := Some (ch @ [Some err])\<rparr> else x
           | None \<Rightarrow> x)"

definition client_Close :: "'x client \<Rightarrow> go_error option \<times> 'x client" where
  "client_Close c =
     (if cl_closed c then (Some ErrClientWasClosed, c)
      else (None, c\<lparr>cl_closed := True, cl_closes := cl_closes c @ [cl_conn c]\<rparr>))"

text \<open>All pending requests fail and the table is cleared.\<close>

definition fail_requests :: "go_error \<Rightarrow> 'x client \<Rightarrow> 'x client" where
  "fail_requests err c =
     (fold (\<lambda>(_, p). set_ictx p (fail_pending err)) (cl_requests c) c)\<lparr>cl_requests := []\<rparr>"

text \<open>The checks of \<open>mayRedial\<close> and \<open>redial\<close> before a dial.\<close>

definition mayRedial :: "'x client_env \<Rightarrow> 'x client \<Rightarrow> bool" where
  "mayRedial env c \<longleftrightarrow> \<not> (cl_closed c \<or> \<not> ce_dialer env)"

definition reader_step :: "'x client_env \<Rightarrow> 'x client \<Rightarrow> 'x client option" where
  "reader_step env c =
     (case cl_reader c of
        Delivering p res \<Rightarrow> Some (Invoke p res c)
      | Sending p \<Rightarrow> Invoke_send p c
      | Cleaning err \<Rightarrow> Some (set_reader (Redialing err) (fail_requests err c))
      | Redialing err \<Rightarrow> Some (set_reader (if mayRedial env c then Dialing err else Closing err) c)
      | Closing err \<Rightarrow> Some (set_reader (Storing err) (snd (client_Close c)))
      | Storing err \<Rightarrow> Some (set_reader (Notifying err) (c\<lparr>cl_rerr := Some err\<rparr>))
      | Notifying err \<Rightarrow>
          if length (cl_rerrCh c) < 1
          then Some (set_reader Stopped (c\<lparr>cl_rerrCh := cl_rerrCh c @ [err]\<rparr>)) else None
      | _ \<Rightarrow> None)"

lemma reader_step_eq:
  "reader_step env c =
     (case cl_reader c of
        Delivering p res \<Rightarrow>
          Some (if ic_callback (cl_ictxs c p)
                then set_reader Reading (set_ictx p (\<lambda>x. x\<lparr>ic_res := Some res,
                       ic_calls := ic_calls x @ [(None, Some res)]\<rparr>) c)
                else set_reader (Sending p) (set_ictx p (AssignResponse res) c))
      | Sending p \<Rightarrow>
          (case ic_errCh (cl_ictxs c p) of
             Some ch \<Rightarrow>
               if length ch < 1
               then Some (set_reader Reading (set_ictx p (\<lambda>x. x\<lparr>ic_errCh := Some (ch @ [None])\<rparr>) c))
               else None
           | None \<Rightarrow> None)
      | Cleaning err \<Rightarrow>
          Some (set_reader (Redialing err)
            ((fold (\<lambda>(_, p). set_ictx p (fail_pending err)) (cl_requests c) c)\<lparr>cl_requests := []\<rparr>))
      | Redialing err \<Rightarrow>
          Some (set_reader (if cl_closed c \<or> \<not> ce_dialer env then Closing err else Dialing err) c)
      | Closing err \<Rightarrow> Some (set_reader (Storing err) (snd (client_Close c)))
      | Storing err \<Rightarrow> Some (set_reader (Notifying err) (c\<lparr>cl_rerr := Some err\<rparr>))
      | Notifying err \<Rightarrow>
          if length (cl_rerrCh c) < 1
          then Some (set_reader Stopped (c\<lparr>cl_rerrCh := cl_rerrCh c @ [err]\<rparr>)) else None
      | _ \<Rightarrow> None)"
  by (cases "cl_reader c") (simp_all add: reader_step_def Invoke_def Invoke_send_def fail_requests_def
      mayRedial_def)

text \<open>
  \<open>redial\<close>: a dial that fails is tried again; when the new connection cannot be wrapped the reader
  gives up, otherwise it closes the old one and reads on.
\<close>

definition dial_returns :: "(go_error + (nat \<times> go_error option)) \<Rightarrow> 'x client \<Rightarrow> 'x client option" where
  "dial_returns r c =
     (case cl_reader c of
        Dialing err \<Rightarrow>
          Some (case r of
                  Inl _ \<Rightarrow> set_reader (Redialing err) c
                | Inr (conn, Some dialerr) \<Rightarrow> set_reader (Closing err) c
                | Inr (conn, None) \<Rightarrow>
                    set_reader Reading (c\<lparr>cl_closes := cl_closes c @ [cl_conn c], cl_conn := conn\<rparr>))
      | _ \<Rightarrow> None)"

subsection \<open>Runs\<close>

datatype 'x action =
    Do "'x request" "'x response" bool "nat option"
  | Do_callback "'x request"
  | Run nat
  | Write_returns nat "go_error option"
  | Timer_fires nat
  | Read_command nat command
  | Read_fails go_error
  | Run_reader
  | Dial_returns "go_error + (nat \<times> go_error option)"
  | Close_client
  | Tick int

definition client_act :: "'x client_env \<Rightarrow> 'x action \<Rightarrow> 'x client \<Rightarrow> 'x client option" where
  "client_act env a c =
     (case a of
        Do req res timeout pooled \<Rightarrow> DoTimeout env req res timeout pooled c
      | Do_callback req \<Rightarrow> Some (DoCallbackTimeout env req c)
      | Run i \<Rightarrow> if i < cl_ncalls c then invoke_step env i c else None
      | Write_returns i err \<Rightarrow> if i < cl_ncalls c then write_returns i err c else None
      | Timer_fires i \<Rightarrow> if i < cl_ncalls c then timer_fires i c else None
      | Read_command nr cmd \<Rightarrow> read_returns env nr cmd c
      | Read_fails err \<Rightarrow> if cl_reader c = Reading then Some (set_reader (Cleaning err) c) else None
      | Run_reader \<Rightarrow> reader_step env c
      | Dial_returns r \<Rightarrow> dial_returns r c
      | Close_client \<Rightarrow> Some (snd (client_Close c))
      | Tick t \<Rightarrow> Some (c\<lparr>cl_now := t\<rparr>))"

fun client_run :: "'x client_env \<Rightarrow> 'x action list \<Rightarrow> 'x client \<Rightarrow> 'x client option" where
  "client_run env [] c = Some c"
| "client_run env (a # as) c = Option.bind (client_act env a c) (client_run env as)"

text \<open>The reader has a pointer to context \<open>p\<close> in its hands.\<close>

definition holds :: "'x client \<Rightarrow> nat \<Rightarrow> bool" where
  "holds c p \<longleftrightarrow> (case cl_reader c of Delivering q _ \<Rightarrow> q = p | Sending q \<Rightarrow> q = p | _ \<Rightarrow> False)"

text \<open>
  \<open>pool\<close> says which contexts the pool may hand out in a state. The pool of the standard library may
  hand out any context that was put back, or none.
\<close>

inductive client_step ::
  "('x client \<Rightarrow> nat \<Rightarrow> bool) \<Rightarrow> 'x client_env \<Rightarrow> 'x client \<Rightarrow> 'x client \<Rightarrow> bool"
  for pool env where
  step: "client_act env a c = Some c' \<Longrightarrow>
    (\<And>req res t p. a = Do req res t (Some p) \<Longrightarrow> pool c p) \<Longrightarrow> client_step pool env c c'"

inductive_cases client_stepE: "client_step pool env c c'"

inductive reachable ::
  "('x client \<Rightarrow> nat \<Rightarrow> bool) \<Rightarrow> 'x client_env \<Rightarrow> 'x client \<Rightarrow> bool"
  for pool env where
  start: "reachable pool env (NewClient env conn)"
| more: "reachable pool env c \<Longrightarrow> client_step pool env c c' \<Longrightarrow> reachable pool env c'"

end
