(* ===== verification/Client_Inv.thy ===== *)
theory Client_Inv
  imports Client
begin

text \<open>
  The safety of the client of theory \<open>Client\<close>: an invariant of every reachable state that ties the
  table of pending requests, the contexts' channels, the reader and the calls together, and is kept
  by every step as long as the pool does not hand out a context the reader still holds.
\<close>

subsection \<open>The invariant\<close>

text \<open>A response belongs to an id; for TBRemoting \<open>doread\<close> knows no id.\<close>

definition matches :: "'x response \<Rightarrow> 32 word \<Rightarrow> bool" where
  "matches res rid \<longleftrightarrow>
     c_proto (m_command res) \<noteq> ProtoTBRemoting \<longrightarrow> c_rid (m_command res) = rid"

definition held :: "'x client \<Rightarrow> nat \<Rightarrow> 'x response option" where
  "held c p = (case cl_reader c of
     Delivering q res \<Rightarrow> if q = p then Some res else None
   | Sending q \<Rightarrow> if q = p then Some (ic_ires (cl_ictxs c p)) else None
   | _ \<Rightarrow> None)"

fun before_add :: "phase \<Rightarrow> bool" where
  "before_add Entering = True" | "before_add Open = True" | "before_add Numbering = True"
| "before_add (Adding _) = True" | "before_add _ = False"

fun registered :: "phase \<Rightarrow> bool" where
  "registered (Writing _) = True" | "registered (WriteFailed _) = True"
| "registered OneWayWritten = True" | "registered Waiting = True" | "registered TimedOut = True"
| "registered _ = False"

fun is_returned :: "phase \<Rightarrow> bool" where
  "is_returned (Returned _) = True" | "is_returned _ = False"

text \<open>Nothing was delivered to the context yet.\<close>

definition quiet :: "'x ictx \<Rightarrow> bool" where
  "quiet x \<longleftrightarrow> (if ic_callback x then ic_errCh x = None else ic_errCh x = Some []) \<and> ic_calls x = []"

definition ictx_wf :: "'x ictx \<Rightarrow> bool" where
  "ictx_wf x \<longleftrightarrow> (if ic_callback x then ic_errCh x = None \<and> length (ic_calls x) \<le> 1
     else ic_calls x = [] \<and> (ic_errCh x = Some [] \<or> (\<exists>m. ic_errCh x = Some [m])))"

text \<open>
  A context \<open>x\<close> at address \<open>p\<close> with its owner \<open>k\<close>, the response in the reader's hands for it, the ids
  it is registered under and whether it is in the pool.
\<close>

definition ictx_ok ::
  "'x ictx \<Rightarrow> 'x call \<Rightarrow> nat \<Rightarrow> 'x response option \<Rightarrow> (32 word \<Rightarrow> bool) \<Rightarrow> bool \<Rightarrow> bool" where
  "ictx_ok x k p h t b \<longleftrightarrow>
     cc_ictx k = p \<and> cc_callback k = ic_callback x \<and> ictx_wf x \<and>
     (\<forall>res. h = Some res \<longrightarrow> quiet x \<and> \<not> before_add (cc_phase k) \<and> cc_phase k \<noteq> Copying \<and>
        matches res (cc_rid k)) \<and>
     (\<forall>rid. t rid \<longrightarrow> quiet x \<and> rid = cc_rid k \<and> h = None \<and> \<not> before_add (cc_phase k) \<and>
        cc_phase k \<noteq> Copying \<and> (ic_callback x \<or> registered (cc_phase k))) \<and>
     (\<forall>m. ic_errCh x = Some [m] \<longrightarrow> \<not> before_add (cc_phase k) \<and> cc_phase k \<noteq> Copying \<and>
        (m = None \<longrightarrow> matches (ic_ires x) (cc_rid k))) \<and>
     (before_add (cc_phase k) \<longrightarrow> quiet x) \<and>
     (cc_phase k = Copying \<longrightarrow> matches (ic_ires x) (cc_rid k)) \<and>
     (b \<longrightarrow> is_returned (cc_phase k) \<and> \<not> ic_callback x)"

definition ictx_inv :: "'x client \<Rightarrow> nat \<Rightarrow> bool" where
  "ictx_inv c p \<longleftrightarrow> ic_owner (cl_ictxs c p) < cl_ncalls c \<and>
     ictx_ok (cl_ictxs c p) (cl_calls c (ic_owner (cl_ictxs c p))) p (held c p)
       (\<lambda>rid. map_of (cl_requests c) rid = Some p) (p \<in> set (cl_pool c))"

lemma ictx_ok_mono:
  assumes "ictx_ok x k p h t b" and "h' = None \<or> h' = h" and "\<And>rid. t' rid \<Longrightarrow> t rid"
    and "b' \<Longrightarrow> b"
  shows "ictx_ok x k p h' t' b'"
  using assms(1,2) assms(3,4) unfolding ictx_ok_def by (intro conjI) (blast | auto)+

definition call_inv :: "'x client \<Rightarrow> nat \<Rightarrow> bool" where
  "call_inv c i \<longleftrightarrow>
     (let k = cl_calls c i; ph = cc_phase k in
      cc_ictx k < cl_nictxs c \<and>
      (\<not> is_returned ph \<longrightarrow> ic_owner (cl_ictxs c (cc_ictx k)) = i) \<and>
      (cc_callback k \<longrightarrow> ph \<noteq> Waiting \<and> ph \<noteq> TimedOut \<and> ph \<noteq> Copying) \<and>
      (ph = OneWayWritten \<longrightarrow> c_typ (m_command (cc_req k)) = TypeBOLTRequestOneWay) \<and>
      (\<not> cc_callback k \<and> c_typ (m_command (cc_req k)) = TypeBOLTRequest \<and>
       ph \<in> {Finishing None, Returned None} \<longrightarrow> matches (cc_res k) (cc_rid k)))"

definition client_inv :: "'x client \<Rightarrow> bool" where
  "client_inv c \<longleftrightarrow>
     (\<forall>p < cl_nictxs c. ictx_inv c p) \<and> (\<forall>i < cl_ncalls c. call_inv c i) \<and>
     (\<forall>rid p. map_of (cl_requests c) rid = Some p \<longrightarrow> p < cl_nictxs c) \<and>
     (\<forall>p. held c p \<noteq> None \<longrightarrow> p < cl_nictxs c) \<and>
     distinct (cl_pool c) \<and> (\<forall>p \<in> set (cl_pool c). p < cl_nictxs c)"

text \<open>
  A step that touches one context \<open>p\<close> and one call \<open>i\<close>, which owns it: the rest of the invariant
  carries over, since it only forbids what is in the table, the pool and the reader's hands.
\<close>

lemma inv_local:
  assumes inv: "client_inv c"
    and calls: "\<And>j. j \<noteq> i \<Longrightarrow> j < cl_ncalls c' \<Longrightarrow> j < cl_ncalls c \<and> cl_calls c' j = cl_calls c j \<and>
      (cc_ictx (cl_calls c j) = p \<longrightarrow> is_returned (phase_of c j))"
    and ictxs: "\<And>q. q \<noteq> p \<Longrightarrow> q < cl_nictxs c' \<Longrightarrow> q < cl_nictxs c \<and> cl_ictxs c' q = cl_ictxs c q \<and>
      ic_owner (cl_ictxs c q) \<noteq> i"
    and n: "cl_ncalls c \<le> cl_ncalls c'" "cl_nictxs c \<le> cl_nictxs c'" "p < cl_nictxs c'"
    and table: "\<And>rid q. q \<noteq> p \<Longrightarrow> map_of (cl_requests c') rid = Some q \<Longrightarrow>
      map_of (cl_requests c) rid = Some q"
    and held: "\<And>q res. q \<noteq> p \<Longrightarrow> held c' q = Some res \<Longrightarrow> held c q = Some res"
    and pool: "distinct (cl_pool c')" "\<And>q. q \<noteq> p \<Longrightarrow> q \<in> set (cl_pool c') \<Longrightarrow> q \<in> set (cl_pool c)"
    and new: "ictx_inv c' p" "i < cl_ncalls c' \<Longrightarrow> call_inv c' i"
  shows "client_inv c'"
proof -
  have P: "ictx_inv c' q" if q: "q < cl_nictxs c'" for q
  proof (cases "q = p")
    case False
    note x = ictxs [OF False q]
    have old: "ictx_inv c q" using inv x by (simp add: client_inv_def)
    let ?i = "ic_owner (cl_ictxs c q)"
    have k: "cl_calls c' ?i = cl_calls c ?i" and lt: "?i < cl_ncalls c'"
      using old x calls [of ?i] n(1) by (auto simp: ictx_inv_def)
    have h: "held c' q = None \<or> held c' q = held c q"
      using held [OF False] by (cases "held c' q") auto
    from old have "ictx_ok (cl_ictxs c q) (cl_calls c ?i) q (held c q)
        (\<lambda>rid. map_of (cl_requests c) rid = Some q) (q \<in> set (cl_pool c))"
      by (simp add: ictx_inv_def)
    then have "ictx_ok (cl_ictxs c q) (cl_calls c ?i) q (held c' q)
        (\<lambda>rid. map_of (cl_requests c') rid = Some q) (q \<in> set (cl_pool c'))"
      by (rule ictx_ok_mono) (use h table [OF False] pool(2) [OF False] in auto)
    with x k lt show ?thesis by (simp add: ictx_inv_def)
  qed (simp add: new)
  have C: "call_inv c' j" if j: "j < cl_ncalls c'" for j
  proof (cases "j = i")
    case False
    note k = calls [OF False j]
    have old: "call_inv c j" using inv k by (simp add: client_inv_def)
    let ?q = "cc_ictx (cl_calls c j)"
    have q: "?q < cl_nictxs c'" using old n(2) by (simp add: call_inv_def Let_def)
    then have "\<not> is_returned (phase_of c j) \<Longrightarrow> cl_ictxs c' ?q = cl_ictxs c ?q"
      using ictxs [of ?q] k by blast
    with old k q show ?thesis by (auto simp: call_inv_def Let_def)
  qed (use j in \<open>simp add: new\<close>)
  have "p' < cl_nictxs c'" if "map_of (cl_requests c') rid = Some p'" for rid p'
  proof (cases "p' = p")
    case False
    have "p' < cl_nictxs c" using inv table [OF False that] by (simp add: client_inv_def)
    with n(2) show ?thesis by simp
  qed (simp add: n)
  moreover have "p' < cl_nictxs c'" if "held c' p' \<noteq> None" for p'
  proof (cases "p' = p")
    case False
    with that held [of p'] have "held c p' \<noteq> None" by (cases "held c' p'") auto
    then have "p' < cl_nictxs c" using inv by (simp add: client_inv_def)
    with n(2) show ?thesis by simp
  qed (simp add: n)
  moreover have "p' < cl_nictxs c'" if "p' \<in> set (cl_pool c')" for p'
  proof (cases "p' = p")
    case False
    have "p' < cl_nictxs c" using inv pool(2) [OF False that] by (simp add: client_inv_def)
    with n(2) show ?thesis by simp
  qed (simp add: n)
  ultimately show ?thesis using P C pool(1) by (simp add: client_inv_def)
qed

text \<open>The same when neither calls nor contexts are created.\<close>

lemma inv_step:
  assumes inv: "client_inv c" and p: "p < cl_nictxs c" and i: "i = ic_owner (cl_ictxs c p)"
    and calls: "\<And>j. j \<noteq> i \<Longrightarrow> cl_calls c' j = cl_calls c j"
    and ictxs: "\<And>q. q \<noteq> p \<Longrightarrow> cl_ictxs c' q = cl_ictxs c q"
    and n: "cl_ncalls c' = cl_ncalls c" "cl_nictxs c' = cl_nictxs c"
    and table: "\<And>rid q. q \<noteq> p \<Longrightarrow> map_of (cl_requests c') rid = Some q \<Longrightarrow>
      map_of (cl_requests c) rid = Some q"
    and held: "\<And>q res. q \<noteq> p \<Longrightarrow> held c' q = Some res \<Longrightarrow> held c q = Some res"
    and pool: "distinct (cl_pool c')" "\<And>q. q \<noteq> p \<Longrightarrow> q \<in> set (cl_pool c') \<Longrightarrow> q \<in> set (cl_pool c)"
    and new: "ictx_inv c' p" "call_inv c' i"
  shows "client_inv c'"
proof (rule inv_local [OF inv, of i c' p])
  have old: "ictx_inv c q" if "q < cl_nictxs c" for q using inv that by (simp add: client_inv_def)
  show "q < cl_nictxs c \<and> cl_ictxs c' q = cl_ictxs c q \<and> ic_owner (cl_ictxs c q) \<noteq> i"
    if "q \<noteq> p" and "q < cl_nictxs c'" for q
  proof -
    have "ictx_inv c q" and "ictx_inv c p" using old that p n by simp_all
    then have "cc_ictx (cl_calls c (ic_owner (cl_ictxs c q))) = q" and "cc_ictx (cl_calls c i) = p"
      by (simp_all add: ictx_inv_def ictx_ok_def i)
    with that n ictxs show ?thesis by auto
  qed
  show "j < cl_ncalls c \<and> cl_calls c' j = cl_calls c j \<and>
      (cc_ictx (cl_calls c j) = p \<longrightarrow> is_returned (phase_of c j))"
    if "j \<noteq> i" and "j < cl_ncalls c'" for j
  proof -
    have "call_inv c j" using inv that n by (simp add: client_inv_def)
    with that i n calls show ?thesis by (auto simp: call_inv_def Let_def)
  qed
qed (use assms in auto)

lemma set_simps [simp]:
  "cl_requests (set_call i f c) = cl_requests c" "cl_requests (set_ictx p g c) = cl_requests c"
  "cl_pool (set_call i f c) = cl_pool c" "cl_pool (set_ictx p g c) = cl_pool c"
  "cl_reader (set_call i f c) = cl_reader c" "cl_reader (set_ictx p g c) = cl_reader c"
  "cl_ncalls (set_call i f c) = cl_ncalls c" "cl_ncalls (set_ictx p g c) = cl_ncalls c"
  "cl_nictxs (set_call i f c) = cl_nictxs c" "cl_nictxs (set_ictx p g c) = cl_nictxs c"
  "cl_ictxs (set_call i f c) = cl_ictxs c" "cl_calls (set_ictx p g c) = cl_calls c"
  "cl_calls (set_call i f c) = (cl_calls c)(i := f (cl_calls c i))"
  "cl_ictxs (set_ictx p g c) = (cl_ictxs c)(p := g (cl_ictxs c p))"
  by (simp_all add: set_call_def set_ictx_def)

lemma held_eq:
  "cl_reader c' = cl_reader c \<Longrightarrow> ic_ires (cl_ictxs c' q) = ic_ires (cl_ictxs c q) \<Longrightarrow> held c' q = held c q"
  by (simp add: held_def split: reader.split)

lemma live_call:
  assumes "client_inv c" and "i < cl_ncalls c" and "\<not> is_returned (phase_of c i)"
  shows "cc_ictx (cl_calls c i) < cl_nictxs c" and "ic_owner (cl_ictxs c (cc_ictx (cl_calls c i))) = i"
    and "ictx_ok (cl_ictxs c (cc_ictx (cl_calls c i))) (cl_calls c i) (cc_ictx (cl_calls c i))
      (held c (cc_ictx (cl_calls c i)))
      (\<lambda>rid. map_of (cl_requests c) rid = Some (cc_ictx (cl_calls c i)))
      (cc_ictx (cl_calls c i) \<in> set (cl_pool c))"
    and "call_inv c i"
proof -
  have C: "call_inv c i" using assms(1,2) by (simp add: client_inv_def)
  show C: "call_inv c i" by (rule C)
  show p: "cc_ictx (cl_calls c i) < cl_nictxs c" and
    o: "ic_owner (cl_ictxs c (cc_ictx (cl_calls c i))) = i"
    using C assms(3) by (simp_all add: call_inv_def Let_def)
  have "ictx_inv c (cc_ictx (cl_calls c i))" using assms(1) p by (simp add: client_inv_def)
  then show "ictx_ok (cl_ictxs c (cc_ictx (cl_calls c i))) (cl_calls c i) (cc_ictx (cl_calls c i))
      (held c (cc_ictx (cl_calls c i)))
      (\<lambda>rid. map_of (cl_requests c) rid = Some (cc_ictx (cl_calls c i)))
      (cc_ictx (cl_calls c i) \<in> set (cl_pool c))"
    by (simp add: ictx_inv_def o)
qed

text \<open>A step of call \<open>i\<close> that may also drop entries of the table.\<close>

lemma inv_call:
  assumes inv: "client_inv c" and i: "i < cl_ncalls c" and live: "\<not> is_returned (phase_of c i)"
    and p: "p = cc_ictx (cl_calls c i)"
    and c': "cl_calls c' = (cl_calls c)(i := k)" "cl_ictxs c' = (cl_ictxs c)(p := x)"
      "cl_ncalls c' = cl_ncalls c" "cl_nictxs c' = cl_nictxs c" "cl_reader c' = cl_reader c"
    and x: "ic_owner x = i" "ic_ires x = ic_ires (cl_ictxs c p)"
    and table: "\<And>rid q. q \<noteq> p \<Longrightarrow> map_of (cl_requests c') rid = Some q \<Longrightarrow>
      map_of (cl_requests c) rid = Some q"
    and pool: "cl_pool c' = cl_pool c \<or> cl_pool c' = p # cl_pool c"
    and ok: "ictx_ok x k p (held c p) (\<lambda>rid. map_of (cl_requests c') rid = Some p)
      (p \<in> set (cl_pool c'))"
    and k: "call_inv c' i"
  shows "client_inv c'"
proof (rule inv_step [OF inv, of p i])
  note l = live_call [OF inv i live, folded p]
  show "p < cl_nictxs c" "i = ic_owner (cl_ictxs c p)" using l by simp_all
  have h: "held c' q = held c q" for q by (rule held_eq) (simp_all add: c' x)
  show "\<And>q res. q \<noteq> p \<Longrightarrow> held c' q = Some res \<Longrightarrow> held c q = Some res" by (simp add: h)
  show "ictx_inv c' p" using ok i by (simp add: ictx_inv_def c' x h)
  have "p \<notin> set (cl_pool c)" using l(3) live by (simp add: ictx_ok_def)
  then show "distinct (cl_pool c')" using pool inv by (auto simp: client_inv_def)
  show "\<And>q. q \<noteq> p \<Longrightarrow> q \<in> set (cl_pool c') \<Longrightarrow> q \<in> set (cl_pool c)" using pool by auto
qed (use c' table k in auto)

lemma map_of_delete_Some:
  "map_of (AList.delete rid t) r = Some q \<longleftrightarrow> r \<noteq> rid \<and> map_of t r = Some q"
  by (simp add: delete_conv')

lemma map_of_update_Some:
  "map_of (AList.update rid p t) r = Some q \<longleftrightarrow> (if r = rid then q = p else map_of t r = Some q)"
  by (auto simp: update_conv')

lemma inv_globals:
  assumes "client_inv c" and "cl_calls c' = cl_calls c" "cl_ictxs c' = cl_ictxs c"
    "cl_ncalls c' = cl_ncalls c" "cl_nictxs c' = cl_nictxs c" "cl_reader c' = cl_reader c"
    "cl_requests c' = cl_requests c" "cl_pool c' = cl_pool c"
  shows "client_inv c'"
proof -
  have "held c' q = held c q" for q by (rule held_eq) (simp_all add: assms)
  with assms show ?thesis by (simp add: client_inv_def ictx_inv_def call_inv_def)
qed

lemma fun_upd_id: "f = f(x := f x)" by simp

lemma matches_CopyTo [simp]: "matches (Message_CopyTo res d) rid = matches res rid"
  by (simp add: matches_def Message_CopyTo_def CopyCommand_def set_command_def Command_CopyTo_def)

lemma number_request_effect:
  assumes "number_request env i c = Some c'"
  shows "\<exists>k n. c' = (set_call i (\<lambda>_. k) c)\<lparr>cl_rid := n\<rparr> \<and>
    cc_ictx k = cc_ictx (cl_calls c i) \<and> cc_callback k = cc_callback (cl_calls c i) \<and>
    cc_timeout k = cc_timeout (cl_calls c i) \<and>
    ((\<exists>d. cc_phase k = Adding d) \<or> (\<exists>e. cc_phase k = Finishing (Some e))) \<and>
    (\<not> ce_disableAutoIncrementRequestID env \<longrightarrow>
       (n = cl_rid c + 1 \<and> cc_rid k = n) \<or>
       (n = cl_rid c \<and> cc_rid k = cc_rid (cl_calls c i) \<and> (\<exists>e. cc_phase k = Finishing (Some e))))"
proof (cases "c_typ (m_command (cc_req (cl_calls c i))) \<noteq> TypeBOLTRequest \<and>
    c_typ (m_command (cc_req (cl_calls c i))) \<noteq> TypeBOLTRequestOneWay")
  case True
  with assms show ?thesis
    by (intro exI [of _ "(cl_calls c i)\<lparr>cc_phase := Finishing (Some ErrClientNotARequest)\<rparr>"]
          exI [of _ "cl_rid c"])
       (auto simp add: number_request_def Let_def set_call_def)
next
  case False
  let ?q = "cc_req (cl_calls c i)"
  obtain rid req n where a: "assign_id env ?q c = (rid, req, c\<lparr>cl_rid := n\<rparr>)"
    and n: "\<not> ce_disableAutoIncrementRequestID env \<Longrightarrow> n = cl_rid c + 1 \<and> rid = n"
  proof (cases "ce_disableAutoIncrementRequestID env")
    case True
    then show ?thesis by (intro that [of _ _ "cl_rid c"]) (simp_all add: assign_id_def)
  qed (simp add: assign_id_def Let_def)
  have "(case Message_Write (ce_hessian env) (ce_alloc env) [] req of
      None \<Rightarrow> None
    | Some (Inl err, req) \<Rightarrow>
        Some (set_call i (\<lambda>k. k\<lparr>cc_rid := rid, cc_req := req,
                                cc_phase := Finishing (Some err)\<rparr>) (c\<lparr>cl_rid := n\<rparr>))
    | Some (Inr dst, req) \<Rightarrow>
        Some (set_call i (\<lambda>k. k\<lparr>cc_rid := rid, cc_req := req,
                                cc_phase := Adding dst\<rparr>) (c\<lparr>cl_rid := n\<rparr>))) = Some c'"
    using assms False by (simp add: number_request_def Let_def a)
  then obtain req' ph where "c' = set_call i (\<lambda>k. k\<lparr>cc_rid := rid, cc_req := req', cc_phase := ph\<rparr>)
        (c\<lparr>cl_rid := n\<rparr>)" and "(\<exists>d. ph = Adding d) \<or> (\<exists>e. ph = Finishing (Some e))"
    by (auto split: option.splits prod.splits sum.splits)
  with n show ?thesis
    by (intro exI [of _ "(cl_calls c i)\<lparr>cc_rid := rid, cc_req := req', cc_phase := ph\<rparr>"] exI [of _ n])
       (simp add: set_call_def)
qed

lemma inv_number_request:
  assumes inv: "client_inv c" and i: "i < cl_ncalls c" and ph: "phase_of c i = Numbering"
    and s: "number_request env i c = Some c'"
  shows "client_inv c'"
proof -
  have live: "\<not> is_returned (phase_of c i)" by (simp add: ph)
  note l = live_call [OF inv i live]
  let ?p = "cc_ictx (cl_calls c i)"
  obtain k n where c': "c' = (set_call i (\<lambda>_. k) c)\<lparr>cl_rid := n\<rparr>"
    and k: "cc_ictx k = ?p" "cc_callback k = cc_callback (cl_calls c i)"
      "(\<exists>d. cc_phase k = Adding d) \<or> (\<exists>e. cc_phase k = Finishing (Some e))"
    using number_request_effect [OF s] by blast
  show ?thesis
  proof (rule inv_call [OF inv i live refl, of c' k "cl_ictxs c ?p"])
    show "ictx_ok (cl_ictxs c ?p) k ?p (held c ?p) (\<lambda>rid. map_of (cl_requests c') rid = Some ?p)
      (?p \<in> set (cl_pool c'))"
      using l(3) k ph by (auto simp: ictx_ok_def c')
    show "call_inv c' i" using l k by (auto simp: call_inv_def Let_def c')
  qed (use l in \<open>auto simp: c'\<close>)
qed

text \<open>The three ends of a call that drop its id from the table.\<close>

lemma inv_drop:
  assumes inv: "client_inv c" and i: "i < cl_ncalls c" and reg: "registered (phase_of c i)"
    and err: "e = None \<Longrightarrow> phase_of c i = OneWayWritten"
  shows "client_inv (set_phase i (Finishing e) (delRequestContext (cc_rid (cl_calls c i)) c))"
    (is "client_inv ?c")
proof -
  let ?p = "cc_ictx (cl_calls c i)"
  have live: "\<not> is_returned (phase_of c i)" using reg by (cases "phase_of c i") simp_all
  note l = live_call [OF inv i live]
  have gone: "map_of (cl_requests ?c) r \<noteq> Some ?p" for r
    using l(3) by (auto simp: ictx_ok_def delRequestContext_def map_of_delete_Some)
  have nb: "\<not> before_add (phase_of c i)" using reg by (cases "phase_of c i") simp_all
  show ?thesis
  proof (rule inv_call [OF inv i live refl, of ?c "cl_calls ?c i" "cl_ictxs c ?p"])
    show "ictx_ok (cl_ictxs c ?p) (cl_calls ?c i) ?p (held c ?p)
        (\<lambda>r. map_of (cl_requests ?c) r = Some ?p) (?p \<in> set (cl_pool ?c))"
      using l(3) gone nb live by (simp add: ictx_ok_def delRequestContext_def)
    show "call_inv ?c i"
      using l err by (cases e) (simp_all add: call_inv_def Let_def delRequestContext_def)
  qed (use l in \<open>simp_all add: delRequestContext_def map_of_delete_Some\<close>)
qed

lemma inv_invoke_step:
  assumes inv: "client_inv c" and i: "i < cl_ncalls c" and s: "invoke_step env i c = Some c'"
  shows "client_inv c'"
proof -
  let ?k = "cl_calls c i" let ?p = "cc_ictx ?k"
  have live: "\<not> is_returned (phase_of c i)" using s by (cases "phase_of c i") (simp_all add: invoke_step_def Let_def)
  note l = live_call [OF inv i live]
  note call = inv_call [OF inv i live refl]
  show ?thesis
  proof (cases "phase_of c i")
    case Entering
    then show ?thesis
      using s l by (intro call [of c' "cl_calls c' i" "cl_ictxs c ?p"])
        (auto simp: invoke_step_def Let_def ictx_ok_def call_inv_def split: if_splits)
  next
    case Open
    then show ?thesis
      using s l by (intro call [of c' "cl_calls c' i" "cl_ictxs c ?p"])
        (auto simp: invoke_step_def Let_def ictx_ok_def call_inv_def split: option.splits)
  next
    case Numbering
    then show ?thesis using inv_number_request [OF inv i] s by (simp add: invoke_step_def Let_def)
  next
    case (Adding d)
    then show ?thesis
      using s l by (intro call [of c' "cl_calls c' i" "cl_ictxs c ?p"])
        (auto simp: invoke_step_def Let_def ictx_ok_def call_inv_def addRequestContext_def
           map_of_update_Some split: if_splits)
  next
    case (WriteFailed e)
    with s inv_drop [OF inv i] show ?thesis by (auto simp: invoke_step_def Let_def)
  next
    case OneWayWritten
    with s inv_drop [OF inv i] show ?thesis by (auto simp: invoke_step_def Let_def)
  next
    case Waiting
    then obtain m ch where ch: "ic_errCh (cl_ictxs c ?p) = Some (m # ch)"
      and c': "c' = set_phase i (case m of Some err \<Rightarrow> Finishing (Some err) | None \<Rightarrow> Copying)
                (set_ictx ?p (\<lambda>x. x\<lparr>ic_errCh := Some ch\<rparr>) c)"
      using s by (auto simp: invoke_step_def Let_def split: option.splits list.splits)
    have nil: "ch = []" and nc: "\<not> ic_callback (cl_ictxs c ?p)"
      using l(3) ch by (auto simp: ictx_ok_def ictx_wf_def split: if_splits)
    have nt: "held c ?p = None" "map_of (cl_requests c) rid \<noteq> Some ?p" for rid
      using l(3) ch nc by (auto simp: ictx_ok_def quiet_def)
    show ?thesis
      by (rule call [of c' "cl_calls c' i" "(cl_ictxs c ?p)\<lparr>ic_errCh := Some []\<rparr>"])
         (use l Waiting nc nt ch nil in \<open>auto simp: c' ictx_ok_def ictx_wf_def call_inv_def quiet_def
            split: option.splits\<close>)
  next
    case TimedOut
    with s inv_drop [OF inv i] show ?thesis by (auto simp: invoke_step_def Let_def)
  next
    case Copying
    then show ?thesis
      using s l by (intro call [of c' "cl_calls c' i" "cl_ictxs c ?p"])
        (auto simp: invoke_step_def Let_def ictx_ok_def call_inv_def quiet_def)
  next
    case (Finishing e)
    then have c': "c' = finish_call i e c" using s by (simp add: invoke_step_def Let_def)
    show ?thesis
      by (rule call [of c' "?k\<lparr>cc_phase := Returned e\<rparr>" "cl_ictxs c ?p"])
        (use l Finishing in \<open>auto simp: c' finish_call_def Let_def ictx_ok_def call_inv_def set_call_def
           split: if_splits\<close>)
  qed (use s in \<open>auto simp: invoke_step_def Let_def\<close>)
qed

lemma inv_write_returns:
  assumes inv: "client_inv c" and i: "i < cl_ncalls c" and s: "write_returns i err c = Some c'"
  shows "client_inv c'"
proof -
  let ?p = "cc_ictx (cl_calls c i)"
  obtain dst where w: "phase_of c i = Writing dst"
    using s by (auto simp: write_returns_def Let_def split: phase.splits)
  have live: "\<not> is_returned (phase_of c i)" by (simp add: w)
  note l = live_call [OF inv i live]
  define ph where "ph = (case err of Some e \<Rightarrow> WriteFailed e
    | None \<Rightarrow> if c_typ (m_command (cc_req (cl_calls c i))) = TypeBOLTRequestOneWay then OneWayWritten
        else if ic_errCh (cl_ictxs c ?p) \<noteq> None then Waiting else Finishing None)"
  have c': "c' = set_phase i ph (c\<lparr>cl_written := cl_written c @ [(cl_conn c, dst)]\<rparr>)"
    using s w by (simp add: write_returns_def Let_def ph_def)
  have ph: "registered ph \<or> (ph = Finishing None \<and> ic_errCh (cl_ictxs c ?p) = None)"
    "ph = OneWayWritten \<Longrightarrow> c_typ (m_command (cc_req (cl_calls c i))) = TypeBOLTRequestOneWay"
    "ph = Waiting \<Longrightarrow> ic_errCh (cl_ictxs c ?p) \<noteq> None" "ph \<noteq> TimedOut"
    by (simp_all add: ph_def split: option.splits if_splits)
  have e: "ic_callback (cl_ictxs c ?p) \<longleftrightarrow> ic_errCh (cl_ictxs c ?p) = None"
    using l(3) by (auto simp: ictx_ok_def ictx_wf_def split: if_splits)
  have nb: "\<not> before_add ph" "ph \<noteq> Copying" using ph(1) by (cases ph; simp)+
  show ?thesis
  proof (rule inv_call [OF inv i live refl, of c' "cl_calls c' i" "cl_ictxs c ?p"])
    show "ictx_ok (cl_ictxs c ?p) (cl_calls c' i) ?p (held c ?p)
        (\<lambda>r. map_of (cl_requests c') r = Some ?p) (?p \<in> set (cl_pool c'))"
      using l(3) nb ph(1) live e by (auto simp: ictx_ok_def c')
    have cb: "cc_callback (cl_calls c i) \<longleftrightarrow> ic_errCh (cl_ictxs c ?p) = None"
      using l(3) e by (simp add: ictx_ok_def)
    have "ph \<noteq> Returned None" "ph = Finishing None \<Longrightarrow> cc_callback (cl_calls c i)"
      using ph(1) cb by auto
    then show "call_inv c' i"
      using l(1,2) ph(2,3,4) nb(2) cb by (auto simp: call_inv_def Let_def c')
  qed (use l in \<open>simp_all add: c'\<close>)
qed

lemma inv_timer_fires:
  assumes inv: "client_inv c" and i: "i < cl_ncalls c" and s: "timer_fires i c = Some c'"
  shows "client_inv c'"
proof -
  let ?p = "cc_ictx (cl_calls c i)"
  have w: "phase_of c i = Waiting" and c': "c' = set_phase i TimedOut c"
    using s by (auto simp: timer_fires_def split: if_splits)
  have live: "\<not> is_returned (phase_of c i)" by (simp add: w)
  note l = live_call [OF inv i live]
  show ?thesis
  proof (rule inv_call [OF inv i live refl, of c' "cl_calls c' i" "cl_ictxs c ?p"])
    show "ictx_ok (cl_ictxs c ?p) (cl_calls c' i) ?p (held c ?p)
        (\<lambda>r. map_of (cl_requests c') r = Some ?p) (?p \<in> set (cl_pool c'))"
      using l(3) w by (simp add: ictx_ok_def c')
    show "call_inv c' i" using l w by (simp add: call_inv_def Let_def c')
  qed (use l in \<open>simp_all add: c'\<close>)
qed

text \<open>A new call \<open>k\<close> on the context \<open>x\<close> at \<open>p\<close>, which nobody else uses.\<close>

lemma inv_add_call:
  assumes inv: "client_inv c" and p: "p \<le> cl_nictxs c"
    and free: "p < cl_nictxs c \<Longrightarrow> p \<in> set (cl_pool c) \<and> held c p = None"
    and c': "cl_calls c' = (cl_calls c)(cl_ncalls c := k)" "cl_ncalls c' = cl_ncalls c + 1"
      "cl_ictxs c' = (cl_ictxs c)(p := x)" "cl_nictxs c' = max (cl_nictxs c) (p + 1)"
      "cl_requests c' = cl_requests c" "cl_reader c' = cl_reader c"
      "cl_pool c' = remove1 p (cl_pool c)"
    and k: "cc_ictx k = p" "cc_callback k = ic_callback x" "cc_phase k = Entering"
    and x: "ic_owner x = cl_ncalls c" "quiet x" "ictx_wf x"
  shows "client_inv c'"
proof (rule inv_local [OF inv, of "cl_ncalls c" c' p])
  have old: "ictx_inv c q" if "q < cl_nictxs c" for q using inv that by (simp add: client_inv_def)
  have h: "held c' q = held c q" if "q \<noteq> p" for q
    by (rule held_eq) (simp_all add: c' that)
  have hp: "held c' p = None"
  proof -
    have "held c p = None" using free inv p by (cases "p < cl_nictxs c") (auto simp: client_inv_def)
    then show ?thesis by (auto simp: held_def c' split: reader.splits if_splits)
  qed
  have tp: "map_of (cl_requests c) rid \<noteq> Some p" for rid
  proof (cases "p < cl_nictxs c")
    case True
    then have "ictx_inv c p" and "p \<in> set (cl_pool c)" using free old by simp_all
    then show ?thesis
      by (cases "cc_phase (cl_calls c (ic_owner (cl_ictxs c p)))") (auto simp: ictx_inv_def ictx_ok_def)
  qed (use inv in \<open>auto simp: client_inv_def\<close>)
  show "j < cl_ncalls c \<and> cl_calls c' j = cl_calls c j \<and>
      (cc_ictx (cl_calls c j) = p \<longrightarrow> is_returned (phase_of c j))"
    if "j \<noteq> cl_ncalls c" and "j < cl_ncalls c'" for j
  proof -
    have j: "j < cl_ncalls c" using that by (simp add: c')
    then have cj: "call_inv c j" using inv by (simp add: client_inv_def)
    have "is_returned (phase_of c j)" if jp: "cc_ictx (cl_calls c j) = p"
    proof (rule ccontr)
      assume live: "\<not> is_returned (phase_of c j)"
      have "ic_owner (cl_ictxs c p) = j" and lt: "p < cl_nictxs c"
        using cj live jp by (simp_all add: call_inv_def Let_def)
      then show False using old [OF lt] free live by (simp add: ictx_inv_def ictx_ok_def)
    qed
    with j that(1) show ?thesis by (simp add: c')
  qed
  show "q < cl_nictxs c \<and> cl_ictxs c' q = cl_ictxs c q \<and> ic_owner (cl_ictxs c q) \<noteq> cl_ncalls c"
    if "q \<noteq> p" and "q < cl_nictxs c'" for q
  proof -
    have q: "q < cl_nictxs c" using that p by (auto simp: c' max_def split: if_splits)
    with old [OF q] that(1) show ?thesis by (auto simp: ictx_inv_def c')
  qed
  have np: "p \<notin> set (cl_pool c')" using inv by (simp add: c' client_inv_def)
  show "ictx_inv c' p"
  proof -
    have "ic_errCh x \<noteq> Some [m]" for m using x(2) by (auto simp: quiet_def split: if_splits)
    then show ?thesis using k x hp tp np by (simp add: ictx_inv_def ictx_ok_def c')
  qed
  show "call_inv c' (cl_ncalls c)" using k x by (simp add: call_inv_def c')
  show "\<And>q res. q \<noteq> p \<Longrightarrow> held c' q = Some res \<Longrightarrow> held c q = Some res" by (simp add: h)
  show "distinct (cl_pool c')" using inv by (simp add: c' client_inv_def)
  show "\<And>q. q \<noteq> p \<Longrightarrow> q \<in> set (cl_pool c') \<Longrightarrow> q \<in> set (cl_pool c)" by (simp add: c')
qed (simp_all add: c')

lemma inv_DoCallback: "client_inv c \<Longrightarrow> client_inv (DoCallbackTimeout env req c)"
  by (rule inv_add_call [of c "cl_nictxs c"])
     (auto simp: DoCallbackTimeout_def Let_def add_call_def set_ictx_def ictx_new_def quiet_def
        ictx_wf_def client_inv_def remove1_idem split: if_splits)

lemma inv_Do:
  assumes inv: "client_inv c" and s: "DoTimeout env req res t pooled c = Some c'"
    and pool: "\<And>p. pooled = Some p \<Longrightarrow> held c p = None"
  shows "client_inv c'"
proof (cases pooled)
  case None
  with s inv show ?thesis
    by (intro inv_add_call [of c "cl_nictxs c" c' "cl_calls c' (cl_ncalls c)"
          "cl_ictxs c' (cl_nictxs c)"])
       (auto simp: DoTimeout_def Let_def add_call_def set_ictx_def AcquireInvokeContext_def
          ictx_new_def quiet_def ictx_wf_def client_inv_def remove1_idem)
next
  case (Some p)
  have p: "p \<in> set (cl_pool c)" using s Some by (auto simp: DoTimeout_def Let_def split: if_splits)
  then have lt: "p < cl_nictxs c" using inv by (simp add: client_inv_def)
  then have "ictx_inv c p" using inv by (simp add: client_inv_def)
  with p have wf: "ictx_wf (cl_ictxs c p)" and nc: "\<not> ic_callback (cl_ictxs c p)"
    by (simp_all add: ictx_inv_def ictx_ok_def)
  show ?thesis
    using s Some p lt wf nc pool [OF Some]
    by (intro inv_add_call [OF inv, of p c' "cl_calls c' (cl_ncalls c)" "cl_ictxs c' p"])
       (auto simp: DoTimeout_def Let_def add_call_def set_ictx_def AcquireInvokeContext_def
          quiet_def ictx_wf_def)
qed

lemma ictx_invD:
  assumes "client_inv c" and "p < cl_nictxs c"
  shows "ictx_ok (cl_ictxs c p) (cl_calls c (ic_owner (cl_ictxs c p))) p (held c p)
    (\<lambda>rid. map_of (cl_requests c) rid = Some p) (p \<in> set (cl_pool c))"
  using assms unfolding client_inv_def ictx_inv_def by blast

text \<open>A step of the reader on the context \<open>p\<close>, which has not been notified yet.\<close>

lemma inv_reader:
  assumes inv: "client_inv c" and p: "p < cl_nictxs c"
    and c': "cl_calls c' = cl_calls c" "cl_ictxs c' = (cl_ictxs c)(p := x)"
      "cl_ncalls c' = cl_ncalls c" "cl_nictxs c' = cl_nictxs c" "cl_pool c' = cl_pool c"
    and x: "ic_owner x = ic_owner (cl_ictxs c p)"
    and table: "\<And>rid q. map_of (cl_requests c') rid = Some q \<Longrightarrow> map_of (cl_requests c) rid = Some q"
    and held: "\<And>q. q \<noteq> p \<Longrightarrow> held c' q = None"
    and ok: "ictx_ok x (cl_calls c (ic_owner (cl_ictxs c p))) p (held c' p)
      (\<lambda>rid. map_of (cl_requests c') rid = Some p) (p \<in> set (cl_pool c))"
  shows "client_inv c'"
proof (rule inv_step [OF inv p refl])
  have old: "ictx_inv c p" using inv p by (simp add: client_inv_def)
  then show "ictx_inv c' p" using ok by (simp add: ictx_inv_def c' x)
  have i: "ic_owner (cl_ictxs c p) < cl_ncalls c" using old by (simp add: ictx_inv_def)
  then have "call_inv c (ic_owner (cl_ictxs c p))" using inv by (simp add: client_inv_def)
  then show "call_inv c' (ic_owner (cl_ictxs c p))" by (auto simp: call_inv_def Let_def c' x)
qed (use c' table held inv in \<open>auto simp: client_inv_def\<close>)

text \<open>A step that only takes things out of the reader's hands or out of the table.\<close>

lemma inv_fewer:
  assumes inv: "client_inv c"
    and c': "cl_calls c' = cl_calls c" "cl_ictxs c' = cl_ictxs c" "cl_ncalls c' = cl_ncalls c"
      "cl_nictxs c' = cl_nictxs c" "cl_pool c' = cl_pool c"
    and table: "\<And>rid q. map_of (cl_requests c') rid = Some q \<Longrightarrow> map_of (cl_requests c) rid = Some q"
    and held: "\<And>q. held c' q = None \<or> held c' q = held c q"
  shows "client_inv c'"
proof -
  have "ictx_inv c' p" if "ictx_inv c p" for p
  proof -
    have ok: "ictx_ok (cl_ictxs c p) (cl_calls c (ic_owner (cl_ictxs c p))) p (held c p)
        (\<lambda>rid. map_of (cl_requests c) rid = Some p) (p \<in> set (cl_pool c))"
      using that by (simp add: ictx_inv_def)
    have "ictx_ok (cl_ictxs c p) (cl_calls c (ic_owner (cl_ictxs c p))) p (held c' p)
        (\<lambda>rid. map_of (cl_requests c') rid = Some p) (p \<in> set (cl_pool c))"
      by (rule ictx_ok_mono [OF ok held]) (auto intro: table)
    with that show ?thesis by (simp add: ictx_inv_def c')
  qed
  moreover have "held c' q \<noteq> None \<Longrightarrow> held c q \<noteq> None" for q using held [of q] by auto
  moreover have "\<forall>rid p. map_of (cl_requests c') rid = Some p \<longrightarrow> p < cl_nictxs c"
    using inv table unfolding client_inv_def by blast
  ultimately show ?thesis
    using inv by (simp add: client_inv_def call_inv_def c')
qed

lemma inv_read_returns:
  assumes inv: "client_inv c" and s: "read_returns env nr cmd c = Some c'"
  shows "client_inv c'"
proof -
  have rd: "cl_reader c = Reading" using s by (auto simp: read_returns_eq split: if_splits)
  have none: "held c q = None" for q by (simp add: held_def rd)
  let ?res = "(message_new (ce_tbconn env))\<lparr>m_command := cmd\<rparr>"
  show ?thesis
  proof (cases "\<exists>p. \<not> IsRequest cmd \<and> map_of (cl_requests c) (GetRequestID ?res) = Some p")
    case True
    then obtain p where ir: "\<not> IsRequest cmd" and m: "map_of (cl_requests c) (GetRequestID ?res) = Some p"
      by auto
    have p: "p < cl_nictxs c" using inv m unfolding client_inv_def by blast
    then have ok: "ictx_ok (cl_ictxs c p) (cl_calls c (ic_owner (cl_ictxs c p))) p (held c p)
        (\<lambda>rid. map_of (cl_requests c) rid = Some p) (p \<in> set (cl_pool c))"
      by (rule ictx_invD [OF inv])
    have c': "c' = (set_reader (Delivering p ?res) (c\<lparr>cl_nread := cl_nread c + int nr,
        cl_requests := AList.delete (GetRequestID ?res) (cl_requests c)\<rparr>))"
      using s rd ir m by (simp add: read_returns_eq getAndDelRequestContext_def Let_def)
    have rid: "map_of (cl_requests c) rid = Some p \<Longrightarrow>
        rid = cc_rid (cl_calls c (ic_owner (cl_ictxs c p)))" for rid
      using ok by (simp add: ictx_ok_def)
    have ne: "cc_phase (cl_calls c (ic_owner (cl_ictxs c p))) \<noteq> Copying"
      using ok m by (auto simp: ictx_ok_def)
    have "matches ?res (cc_rid (cl_calls c (ic_owner (cl_ictxs c p))))"
      using rid [OF m] by (auto simp: matches_def GetRequestID_def)
    then have new: "ictx_ok (cl_ictxs c p) (cl_calls c (ic_owner (cl_ictxs c p))) p (Some ?res)
        (\<lambda>rid. False) (p \<in> set (cl_pool c))"
      using ok m ne by (simp add: ictx_ok_def) metis
    have "map_of (cl_requests c') r \<noteq> Some p" for r
      using rid [of r] rid [OF m] by (auto simp: c' set_reader_def map_of_delete_Some)
    then have gone: "(\<lambda>rid. map_of (cl_requests c') rid = Some p) = (\<lambda>rid. False)" by simp
    have h: "held c' q = (if q = p then Some ?res else None)" for q
      by (simp add: held_def c' set_reader_def)
    show ?thesis
      by (rule inv_reader [OF inv p, of c' "cl_ictxs c p"])
         (use new in \<open>simp_all add: gone h\<close>, simp_all add: c' set_reader_def map_of_delete_Some)
  next
    case False
    then have "cl_calls c' = cl_calls c" "cl_ictxs c' = cl_ictxs c" "cl_ncalls c' = cl_ncalls c"
      "cl_nictxs c' = cl_nictxs c" "cl_pool c' = cl_pool c" "cl_reader c' = cl_reader c"
      "\<And>rid q. map_of (cl_requests c') rid = Some q \<Longrightarrow> map_of (cl_requests c) rid = Some q"
      using s rd by (auto simp: read_returns_eq Let_def getAndDelRequestContext_def
          map_of_delete_Some split: if_splits option.splits)
    moreover from this have "held c' q = held c q" for q by (intro held_eq) simp_all
    ultimately show ?thesis by (intro inv_fewer [OF inv]) simp_all
  qed
qed

lemma inv_deliver:
  assumes inv: "client_inv c" and rd: "cl_reader c = Delivering p res"
    and s: "reader_step env c = Some c'"
  shows "client_inv c'"
proof -
  have hp: "held c p = Some res" by (simp add: held_def rd)
  then have p: "p < cl_nictxs c" using inv by (auto simp: client_inv_def)
  then have ok: "ictx_ok (cl_ictxs c p) (cl_calls c (ic_owner (cl_ictxs c p))) p (Some res)
      (\<lambda>rid. map_of (cl_requests c) rid = Some p) (p \<in> set (cl_pool c))"
    using ictx_invD [OF inv p] hp by simp
  have nt: "map_of (cl_requests c) rid \<noteq> Some p" for rid using ok by (auto simp: ictx_ok_def)
  show ?thesis
  proof (cases "ic_callback (cl_ictxs c p)")
    case True
    let ?x = "(cl_ictxs c p)\<lparr>ic_res := Some res, ic_calls := ic_calls (cl_ictxs c p) @ [(None, Some res)]\<rparr>"
    have c': "c' = set_reader Reading (set_ictx p (\<lambda>_. ?x) c)"
      using s rd True by (simp add: reader_step_eq set_ictx_def)
    have "ictx_ok ?x (cl_calls c (ic_owner (cl_ictxs c p))) p None
        (\<lambda>rid. map_of (cl_requests c) rid = Some p) (p \<in> set (cl_pool c))"
      using ok True nt by (simp add: ictx_ok_def quiet_def ictx_wf_def)
    then show ?thesis
      by (intro inv_reader [OF inv p, of c' ?x]) (simp_all add: c' set_reader_def held_def)
  next
    case False
    let ?x = "AssignResponse res (cl_ictxs c p)"
    have c': "c' = set_reader (Sending p) (set_ictx p (\<lambda>_. ?x) c)"
      using s rd False by (simp add: reader_step_eq set_ictx_def)
    have "ictx_ok ?x (cl_calls c (ic_owner (cl_ictxs c p))) p (Some (ic_ires ?x))
        (\<lambda>rid. map_of (cl_requests c) rid = Some p) (p \<in> set (cl_pool c))"
      using ok False nt by (simp add: ictx_ok_def quiet_def ictx_wf_def AssignResponse_def)
    then show ?thesis
      by (intro inv_reader [OF inv p, of c' ?x])
         (simp_all add: c' set_reader_def held_def AssignResponse_def)
  qed
qed

lemma inv_send:
  assumes inv: "client_inv c" and rd: "cl_reader c = Sending p"
    and s: "reader_step env c = Some c'"
  shows "client_inv c'"
proof -
  have hp: "held c p = Some (ic_ires (cl_ictxs c p))" by (simp add: held_def rd)
  then have p: "p < cl_nictxs c" using inv by (auto simp: client_inv_def)
  then have ok: "ictx_ok (cl_ictxs c p) (cl_calls c (ic_owner (cl_ictxs c p))) p
      (Some (ic_ires (cl_ictxs c p)))
      (\<lambda>rid. map_of (cl_requests c) rid = Some p) (p \<in> set (cl_pool c))"
    using ictx_invD [OF inv p] hp by simp
  then have nt: "map_of (cl_requests c) rid \<noteq> Some p" for rid by (auto simp: ictx_ok_def)
  have ch: "ic_errCh (cl_ictxs c p) = Some []" and nc: "\<not> ic_callback (cl_ictxs c p)"
    using s rd ok by (auto simp: reader_step_eq ictx_ok_def quiet_def split: option.splits if_splits)
  let ?x = "(cl_ictxs c p)\<lparr>ic_errCh := Some [None]\<rparr>"
  have c': "c' = set_reader Reading (set_ictx p (\<lambda>_. ?x) c)"
    using s rd ch by (simp add: reader_step_eq set_ictx_def)
  have "ictx_ok ?x (cl_calls c (ic_owner (cl_ictxs c p))) p None
      (\<lambda>rid. map_of (cl_requests c) rid = Some p) (p \<in> set (cl_pool c))"
    using ok nc nt by (simp add: ictx_ok_def quiet_def ictx_wf_def)
  then show ?thesis
    by (intro inv_reader [OF inv p, of c' ?x]) (simp_all add: c' set_reader_def held_def)
qed

text \<open>The end of the read loop notifies every pending context once.\<close>

lemma fold_fail_pending:
  "fold (\<lambda>(_, p). set_ictx p (fail_pending err)) t c =
     c\<lparr>cl_ictxs := (\<lambda>q. (fail_pending err ^^ length (filter (\<lambda>(_, p). p = q) t)) (cl_ictxs c q))\<rparr>"
proof (induction t arbitrary: c)
  case (Cons a t)
  obtain r p where "a = (r, p)" by fastforce
  with Cons show ?case
    by (auto simp: set_ictx_def fun_eq_iff funpow_swap1 intro!: arg_cong [where f = "\<lambda>f. c\<lparr>cl_ictxs := f\<rparr>"])
qed simp

lemma once_in_table:
  assumes "distinct (map fst t)" and "\<And>r. map_of t r = Some q \<Longrightarrow> r = r0"
  shows "length (filter (\<lambda>(_, p). p = q) t) = (if map_of t r0 = Some q then 1 else 0)"
  using assms
proof (induction t)
  case (Cons a t)
  obtain r p where a: "a = (r, p)" by fastforce
  have n: "map_of t r = None" using Cons.prems by (simp add: a map_of_eq_None_iff)
  have t: "map_of t x = Some q \<Longrightarrow> x = r0" for x using Cons.prems(2) [of x] n by (cases "x = r") (auto simp: a)
  have IH: "length (filter (\<lambda>(_, p). p = q) t) = (if map_of t r0 = Some q then 1 else 0)"
    using Cons.IH Cons.prems(1) t by (simp add: a)
  show ?case
  proof (cases "p = q")
    case True
    then have "r = r0" using Cons.prems(2) [of r] by (simp add: a)
    with True IH n show ?thesis by (simp add: a)
  next
    case False
    have "map_of t r0 = Some q \<Longrightarrow> r \<noteq> r0" using n by auto
    with False IH show ?thesis by (auto simp: a)
  qed
qed simp

text \<open>The keys of the table are distinct.\<close>

definition table_inv :: "'x client \<Rightarrow> bool" where
  "table_inv c \<longleftrightarrow> distinct (map fst (cl_requests c))"

lemma table_simps [simp]:
  "cl_requests (set_reader r c) = cl_requests c" "cl_requests (add_call k c) = cl_requests c"
  "cl_requests (AcquireInvokeContext p i c) = cl_requests c"
  "cl_requests (snd (client_Close c)) = cl_requests c" "cl_requests (finish_call i e c) = cl_requests c"
  by (simp_all add: set_reader_def add_call_def AcquireInvokeContext_def client_Close_def
      finish_call_def Let_def)

lemma table_number_request: "number_request env i c = Some c' \<Longrightarrow> cl_requests c' = cl_requests c"
  by (auto simp: number_request_def assign_id_def Let_def split: if_splits option.splits sum.splits)

lemma table_act:
  assumes "client_act env a c = Some c'" and "table_inv c"
  shows "table_inv c'"
proof (cases a)
  case (Run i)
  then have "invoke_step env i c = Some c'" using assms(1) by (simp add: client_act_def split: if_splits)
  then show ?thesis using assms(2)
    by (cases "phase_of c i")
       (auto simp: invoke_step_def Let_def addRequestContext_def delRequestContext_def table_inv_def
          distinct_update distinct_delete
          dest: table_number_request split: option.splits list.splits)
next
  case Run_reader
  then have "reader_step env c = Some c'" using assms(1) by (simp add: client_act_def)
  then show ?thesis using assms(2)
    by (cases "cl_reader c") (auto simp: reader_step_eq table_inv_def split: option.splits if_splits)
next
  case (Read_command nr cmd)
  then have "read_returns env nr cmd c = Some c'" using assms(1) by (simp add: client_act_def)
  then show ?thesis using assms(2)
    by (auto simp: read_returns_eq getAndDelRequestContext_def Let_def table_inv_def distinct_delete
        split: option.splits if_splits)
next
  case (Do req res t pooled)
  then have "DoTimeout env req res t pooled c = Some c'" using assms(1) by (simp add: client_act_def)
  then show ?thesis using assms(2)
    by (auto simp: DoTimeout_def Let_def table_inv_def split: option.splits if_splits)
next
  case (Do_callback req)
  then have "c' = DoCallbackTimeout env req c" using assms(1) by (simp add: client_act_def)
  then show ?thesis using assms(2) by (simp add: DoCallbackTimeout_def Let_def table_inv_def)
next
  case (Write_returns i e)
  then show ?thesis using assms
    by (auto simp: client_act_def write_returns_def Let_def table_inv_def split: if_splits phase.splits)
next
  case (Timer_fires i)
  then show ?thesis using assms
    by (auto simp: client_act_def timer_fires_def table_inv_def split: if_splits)
next
  case (Dial_returns r)
  then show ?thesis using assms
    by (auto simp: client_act_def dial_returns_def table_inv_def
        split: reader.splits sum.splits option.splits prod.splits)
qed (use assms in \<open>auto simp: client_act_def table_inv_def split: if_splits\<close>)

lemma inv_clean:
  assumes inv: "client_inv c" and tab: "table_inv c" and rd: "cl_reader c = Cleaning err"
    and s: "reader_step env c = Some c'"
  shows "client_inv c'"
proof -
  define hit where "hit q \<longleftrightarrow> (\<exists>r. map_of (cl_requests c) r = Some q)" for q
  define x' where "x' q = (if hit q then fail_pending err (cl_ictxs c q) else cl_ictxs c q)" for q
  have once: "length (filter (\<lambda>(_, p). p = q) (cl_requests c)) = (if hit q then 1 else 0)"
    if q: "q < cl_nictxs c" for q
  proof -
    have "\<And>r. map_of (cl_requests c) r = Some q \<Longrightarrow>
        r = cc_rid (cl_calls c (ic_owner (cl_ictxs c q)))"
      using ictx_invD [OF inv q] by (simp add: ictx_ok_def)
    from once_in_table [OF tab [unfolded table_inv_def] this] this show ?thesis
      by (auto simp: hit_def)
  qed
  have xs: "cl_ictxs c' q = x' q" if "q < cl_nictxs c" for q
    using s rd once that by (auto simp: reader_step_eq fold_fail_pending set_reader_def x'_def)
  have fields: "cl_calls c' = cl_calls c" "cl_ncalls c' = cl_ncalls c" "cl_nictxs c' = cl_nictxs c"
      "cl_pool c' = cl_pool c" "cl_requests c' = []" "cl_reader c' = Redialing err"
    using s rd by (auto simp: reader_step_eq fold_fail_pending set_reader_def)
  have h: "held c' q = None" "held c q = None" for q by (simp_all add: held_def fields rd)
  have own: "ic_owner (x' q) = ic_owner (cl_ictxs c q)" for q
    by (simp add: x'_def fail_pending_def split: option.split)
  have P: "ictx_inv c' q" if q: "q < cl_nictxs c" for q
  proof -
    let ?k = "cl_calls c (ic_owner (cl_ictxs c q))"
    have ok: "ictx_ok (cl_ictxs c q) ?k q None (\<lambda>rid. map_of (cl_requests c) rid = Some q)
        (q \<in> set (cl_pool c))"
      using ictx_invD [OF inv q] by (simp add: h)
    have lt: "ic_owner (cl_ictxs c q) < cl_ncalls c"
      using inv q by (simp add: client_inv_def ictx_inv_def)
    have "ictx_ok (x' q) ?k q None (\<lambda>rid. False) (q \<in> set (cl_pool c))"
    proof (cases "hit q")
      case True
      then obtain r where r: "map_of (cl_requests c) r = Some q" by (auto simp: hit_def)
      then have "quiet (cl_ictxs c q)" "\<not> before_add (cc_phase ?k)" "cc_phase ?k \<noteq> Copying"
        using ok by (auto simp: ictx_ok_def)
      with ok True show ?thesis
        by (cases "ic_callback (cl_ictxs c q)")
           (simp_all add: ictx_ok_def x'_def fail_pending_def quiet_def ictx_wf_def)
    next
      case False
      then show ?thesis unfolding x'_def using ictx_ok_mono [OF ok, of None "\<lambda>_. False"] by simp
    qed
    then show ?thesis using lt by (simp add: ictx_inv_def fields xs [OF q] own h)
  qed
  have "call_inv c' i" if "i < cl_ncalls c" for i
  proof -
    have "call_inv c i" using inv that by (simp add: client_inv_def)
    then show ?thesis by (simp add: call_inv_def Let_def fields xs own)
  qed
  with P inv show ?thesis by (simp add: client_inv_def fields h)
qed

text \<open>The remaining steps of the reader hold no context and leave the table alone.\<close>

lemma inv_other:
  assumes inv: "client_inv c"
    and c': "cl_calls c' = cl_calls c" "cl_ictxs c' = cl_ictxs c" "cl_ncalls c' = cl_ncalls c"
      "cl_nictxs c' = cl_nictxs c" "cl_pool c' = cl_pool c" "cl_requests c' = cl_requests c"
    and none: "\<And>q. held c' q = None"
  shows "client_inv c'"
  by (rule inv_fewer [OF inv]) (simp_all add: c' none)

lemma inv_reader_step:
  assumes inv: "client_inv c" and tab: "table_inv c" and s: "reader_step env c = Some c'"
  shows "client_inv c'"
proof (cases "cl_reader c")
  case (Redialing err)
  with s show ?thesis
    by (intro inv_other [OF inv]) (auto simp: reader_step_eq set_reader_def held_def)
next
  case (Closing err)
  with s show ?thesis
    by (intro inv_other [OF inv])
       (auto simp: reader_step_eq set_reader_def held_def client_Close_def)
next
  case (Storing err)
  with s show ?thesis
    by (intro inv_other [OF inv]) (auto simp: reader_step_eq set_reader_def held_def)
next
  case (Notifying err)
  with s show ?thesis
    by (intro inv_other [OF inv])
       (auto simp: reader_step_eq set_reader_def held_def split: if_splits)
qed (use inv_deliver [OF inv _ s] inv_send [OF inv _ s] inv_clean [OF inv tab _ s] s
     in \<open>auto simp: reader_step_eq\<close>)

lemma inv_dial_returns:
  assumes inv: "client_inv c" and s: "dial_returns r c = Some c'"
  shows "client_inv c'"
  using s by (intro inv_other [OF inv])
    (auto simp: dial_returns_def set_reader_def held_def
      split: reader.splits sum.splits option.splits prod.splits)

lemma inv_act:
  assumes inv: "client_inv c" and tab: "table_inv c" and s: "client_act env a c = Some c'"
    and pool: "\<And>req res t p. a = Do req res t (Some p) \<Longrightarrow> held c p = None"
  shows "client_inv c'"
proof (cases a)
  case (Do req res t pooled)
  with s inv pool show ?thesis by (auto simp: client_act_def intro: inv_Do)
next
  case (Do_callback req)
  with s inv inv_DoCallback show ?thesis by (auto simp: client_act_def)
next
  case (Run i)
  with s inv show ?thesis by (auto simp: client_act_def intro: inv_invoke_step split: if_splits)
next
  case (Write_returns i err)
  with s inv show ?thesis by (auto simp: client_act_def intro: inv_write_returns split: if_splits)
next
  case (Timer_fires i)
  with s inv show ?thesis by (auto simp: client_act_def intro: inv_timer_fires split: if_splits)
next
  case (Read_command nr cmd)
  with s inv show ?thesis by (auto simp: client_act_def intro: inv_read_returns)
next
  case (Read_fails err)
  with s show ?thesis
    by (intro inv_other [OF inv]) (auto simp: client_act_def set_reader_def held_def split: if_splits)
next
  case Run_reader
  with s inv tab show ?thesis by (auto simp: client_act_def intro: inv_reader_step)
next
  case (Dial_returns r)
  with s inv show ?thesis by (auto simp: client_act_def intro: inv_dial_returns)
next
  case Close_client
  with s show ?thesis by (intro inv_globals [OF inv]) (auto simp: client_act_def client_Close_def)
next
  case (Tick t)
  with s show ?thesis by (intro inv_globals [OF inv]) (auto simp: client_act_def)
qed

text \<open>The pool that does not hand out a context the reader is still working on.\<close>

definition patient :: "'x client \<Rightarrow> nat \<Rightarrow> bool" where
  "patient c p \<longleftrightarrow> \<not> holds c p"

lemma holds_held: "holds c p \<longleftrightarrow> held c p \<noteq> None"
  by (simp add: holds_def held_def split: reader.split)

lemma reachable_inv: "reachable patient env c \<Longrightarrow> client_inv c \<and> table_inv c"
proof (induction rule: reachable.induct)
  case (start conn)
  show ?case by (simp add: client_inv_def table_inv_def NewClient_def held_def)
next
  case (more c c')
  then obtain a where a: "client_act env a c = Some c'"
    and "\<And>req res t p. a = Do req res t (Some p) \<Longrightarrow> held c p = None"
    by (auto simp: patient_def holds_held elim!: client_stepE)
  then show ?case using more.IH inv_act [of c env a c'] table_act [OF a] by blast
qed

end
