(* ===== verification/Client_Safety.thy ===== *)
theory Client_Safety
  imports Client_Inv
begin

text \<open>
  What the client of theory \<open>Client\<close> promises its callers, from the invariant of \<open>Client_Inv\<close>, and
  the runs in which it does not keep the promise.
\<close>

definition demo_env :: "bool \<Rightarrow> unit client_env" where
  "demo_env own_ids = \<lparr>ce_hessian = plain_hessian, ce_alloc = (\<lambda>b n. replicate n 0),
     ce_tbconn = \<lparr>tb_Ctx_ID = None, tb_rest = ()\<rparr>, ce_disableAutoIncrementRequestID = own_ids,
     ce_dialer = False, ce_handler = False\<rparr>"

definition ask :: "32 word \<Rightarrow> unit request" where
  "ask i = blank\<lparr>m_command := (sample 1 1)\<lparr>c_rid := i\<rparr>\<rparr>"

definition answer :: "32 word \<Rightarrow> command" where
  "answer i = (sample 1 0)\<lparr>c_rid := i\<rparr>"

lemma write_ask:
  "Message_Write (ce_hessian (demo_env b)) (ce_alloc (demo_env b)) [] (ask i) =
     Some (Inr (frame_v1 (m_command (ask i))), ask i)"
proof -
  have "alloc_ok (ce_alloc (demo_env b))" by (simp add: alloc_ok_def demo_env_def)
  from WriteCommand_spec [OF this] show ?thesis
    by (simp add: Message_Write_def ask_def blank_def message_new_def write_spec_def)
qed

lemma ask_simps [simp]:
  "c_typ (m_command (ask i)) = TypeBOLTRequest" "Request_SetRequestID j (ask i) = ask j"
  "GetRequestID (ask i) = i" "c_rid (m_command (ask i)) = i"
  by (simp_all add: ask_def Request_SetRequestID_def GetRequestID_def set_command_def blank_def
      message_new_def)

lemma answer_simps [simp]:
  "IsRequest (answer i) = False" "c_rid (answer i) = i" "c_proto (answer i) = ProtoBOLTV1"
  by (simp_all add: answer_def IsRequest_def)

lemma CopyTo_simps [simp]:
  "c_proto (m_command (Message_CopyTo r d)) = c_proto (m_command r)"
  "c_rid (m_command (Message_CopyTo r d)) = c_rid (m_command r)"
  by (simp_all add: Message_CopyTo_def CopyCommand_def set_command_def Command_CopyTo_def)

lemma demo_simps [simp]:
  "ce_disableAutoIncrementRequestID (demo_env b) = b" "ce_dialer (demo_env b) = False"
  "ce_handler (demo_env b) = False"
  by (simp_all add: demo_env_def)

lemma get_answer [simp]: "GetRequestID ((message_new t)\<lparr>m_command := answer i\<rparr>) = i"
  by (simp add: GetRequestID_def)

lemmas client_eval = client_act_def DoTimeout_def AcquireInvokeContext_def add_call_def
  invoke_step_def number_request_def assign_id_def write_ask write_returns_def timer_fires_def
  addRequestContext_def delRequestContext_def getAndDelRequestContext_def read_returns_eq
  reader_step_eq finish_call_def set_ictx_def set_call_def set_reader_def AssignResponse_def
  fail_pending_def client_Close_def ictx_new_def NewClient_def Let_def

definition one_call :: "unit action list" where
  "one_call = [Do (ask 0) blank False None, Run 0, Run 0, Run 0, Run 0, Write_returns 0 None,
     Read_command 0 (answer 1), Run_reader, Run_reader, Run 0, Run 0, Run 0]"

lemma one_call_run:
  "\<exists>c. client_run (demo_env False) one_call (NewClient (demo_env False) 0) = Some c \<and>
     cl_ncalls c = 1 \<and> \<not> cc_callback (cl_calls c 0) \<and> phase_of c 0 = Returned None \<and>
     c_typ (m_command (cc_req (cl_calls c 0))) = TypeBOLTRequest \<and> cc_rid (cl_calls c 0) = 1 \<and>
     c_proto (m_command (cc_res (cl_calls c 0))) = ProtoBOLTV1"
  by (simp add: one_call_def client_eval)


text \<open>A run in which no context is reused, or only one the pool may hand out.\<close>

fun run_ok :: "('x client \<Rightarrow> nat \<Rightarrow> bool) \<Rightarrow> 'x client_env \<Rightarrow> 'x action list \<Rightarrow> 'x client \<Rightarrow> bool" where
  "run_ok pool env [] c = True"
| "run_ok pool env (a # as) c =
     ((case a of Do _ _ _ (Some p) \<Rightarrow> pool c p | _ \<Rightarrow> True) \<and>
      (case client_act env a c of None \<Rightarrow> False | Some c \<Rightarrow> run_ok pool env as c))"

lemma run_reachable:
  "client_run env as c = Some c' \<Longrightarrow> run_ok pool env as c \<Longrightarrow> reachable pool env c \<Longrightarrow>
   reachable pool env c'"
proof (induction as arbitrary: c)
  case (Cons a as)
  obtain c1 where a: "client_act env a c = Some c1" and r: "client_run env as c1 = Some c'"
    using Cons.prems(1) by (cases "client_act env a c") auto
  have "client_step pool env c c1"
    by (rule client_step.step [OF a]) (use Cons.prems(2) in auto)
  with Cons.prems a r show ?case by (intro Cons.IH [OF r]) (auto intro: reachable.more)
qed simp

lemma client_run_append:
  "client_run env (as @ bs) c = Option.bind (client_run env as c) (client_run env bs)"
  by (induction as arbitrary: c) (auto split: Option.bind_split)

lemma tick_step: "client_step pool env c (c\<lparr>cl_now := t\<rparr>)"
  by (rule client_step.step [of env "Tick t"]) (simp_all add: client_act_def)

lemma NewClient_reachable: "client_run env as (NewClient env conn) = Some c \<Longrightarrow>
    run_ok pool env as (NewClient env conn) \<Longrightarrow> reachable pool env c"
  using run_reachable reachable.start by blast

text \<open>Nothing will ever be sent to a waiting call that has no timer.\<close>

definition forgotten :: "'x client \<Rightarrow> nat \<Rightarrow> bool" where
  "forgotten c i \<longleftrightarrow> i < cl_ncalls c \<and> phase_of c i = Waiting \<and> \<not> cc_timeout (cl_calls c i) \<and>
     ic_errCh (cl_ictxs c (cc_ictx (cl_calls c i))) = Some [] \<and>
     (cl_reader c = Stopped \<or>
      held c (cc_ictx (cl_calls c i)) = None \<and>
      (\<forall>rid. map_of (cl_requests c) rid \<noteq> Some (cc_ictx (cl_calls c i))))"

lemma forgotten_run:
  assumes inv: "client_inv c" and f: "forgotten c i" and j: "j < cl_ncalls c"
    and s: "invoke_step env j c = Some c'"
  shows "forgotten c' i"
proof -
  let ?p = "cc_ictx (cl_calls c i)" and ?q = "cc_ictx (cl_calls c j)"
  have i: "i < cl_ncalls c" and w: "phase_of c i = Waiting" using f by (simp_all add: forgotten_def)
  have ne: "j \<noteq> i" using s f by (auto simp: forgotten_def invoke_step_def Let_def)
  have live: "\<not> is_returned (phase_of c j)"
    using s by (cases "phase_of c j") (simp_all add: invoke_step_def Let_def)
  have "ic_owner (cl_ictxs c ?p) = i" "ic_owner (cl_ictxs c ?q) = j"
    using live_call(2) [OF inv i] live_call(2) [OF inv j live] w by simp_all
  with ne have pq: "?q \<noteq> ?p" by auto
  have "cl_ncalls c' = cl_ncalls c \<and> cl_calls c' i = cl_calls c i \<and> cl_ictxs c' ?p = cl_ictxs c ?p \<and>
      cl_reader c' = cl_reader c \<and>
      (\<forall>rid. map_of (cl_requests c') rid = Some ?p \<longrightarrow> map_of (cl_requests c) rid = Some ?p)"
  proof (cases "phase_of c j = Numbering")
    case True
    then have "number_request env j c = Some c'" using s by (simp add: invoke_step_def Let_def)
    from number_request_effect [OF this] ne show ?thesis by auto
  next
    case False
    with s ne pq show ?thesis
      by (cases "phase_of c j")
         (auto simp: invoke_step_def Let_def addRequestContext_def delRequestContext_def
            map_of_update_Some map_of_delete_Some finish_call_def set_call_def set_ictx_def
            split: option.splits list.splits if_splits)
  qed
  moreover from this have "held c' ?p = held c ?p" by (intro held_eq) simp_all
  ultimately show ?thesis using f by (auto simp: forgotten_def)
qed

lemma forgotten_reader:
  assumes inv: "client_inv c" and tab: "table_inv c" and f: "forgotten c i"
    and s: "reader_step env c = Some c'"
  shows "forgotten c' i"
proof -
  let ?p = "cc_ictx (cl_calls c i)"
  have ns: "cl_reader c \<noteq> Stopped" using s by (auto simp: reader_step_eq)
  then have h: "held c ?p = None" and t: "map_of (cl_requests c) rid \<noteq> Some ?p" for rid
    using f by (auto simp: forgotten_def)
  have same: "cl_ncalls c' = cl_ncalls c \<and> cl_calls c' i = cl_calls c i \<and>
      cl_ictxs c' ?p = cl_ictxs c ?p \<and>
      (\<forall>rid. map_of (cl_requests c') rid \<noteq> Some ?p)"
  proof (cases "cl_reader c")
    case (Cleaning err)
    have "filter (\<lambda>(_, p). p = ?p) (cl_requests c) = []"
      using t tab by (auto simp: filter_empty_conv table_inv_def dest: map_of_is_SomeI)
    with s Cleaning show ?thesis
      by (auto simp: reader_step_eq fold_fail_pending set_reader_def)
  qed (use s h t in \<open>auto simp: reader_step_eq held_def set_reader_def set_ictx_def client_Close_def
      split: if_splits option.splits\<close>)
  have "held c' ?p = None"
    using s h by (cases "cl_reader c")
      (auto simp: reader_step_eq held_def set_reader_def set_ictx_def client_Close_def fold_fail_pending
         split: if_splits option.splits)
  with same f show ?thesis by (auto simp: forgotten_def)
qed

lemma forgotten_act:
  assumes inv: "client_inv c" and tab: "table_inv c" and f: "forgotten c i" and s: "client_act env a c = Some c'"
  shows "forgotten c' i"
proof -
  let ?p = "cc_ictx (cl_calls c i)"
  have i: "i < cl_ncalls c" and w: "phase_of c i = Waiting" and nt: "\<not> cc_timeout (cl_calls c i)"
    using f by (simp_all add: forgotten_def)
  note l = live_call [OF inv i, unfolded w, simplified]
  have np: "?p \<notin> set (cl_pool c)" using l(3) w by (simp add: ictx_ok_def)
  have keep: "forgotten c' i" if "cl_ncalls c \<le> cl_ncalls c'" "cl_calls c' i = cl_calls c i"
    "cl_ictxs c' ?p = cl_ictxs c ?p" "cl_reader c' = cl_reader c" "cl_requests c' = cl_requests c"
  proof -
    have "held c' ?p = held c ?p" by (rule held_eq) (simp_all add: that)
    with f that show ?thesis by (auto simp: forgotten_def)
  qed
  show ?thesis
  proof (cases a)
    case (Do req res t pooled)
    then show ?thesis
      using s i l(1) np by (intro keep)
        (auto simp: client_act_def DoTimeout_def AcquireInvokeContext_def add_call_def set_ictx_def
           Let_def split: option.splits if_splits)
  next
    case (Do_callback req)
    then show ?thesis
      using s i l(1) by (intro keep)
        (auto simp: client_act_def DoCallbackTimeout_def add_call_def set_ictx_def Let_def)
  next
    case (Run j)
    then show ?thesis using s forgotten_run [OF inv f] by (auto simp: client_act_def split: if_splits)
  next
    case (Write_returns j err)
    then have "j \<noteq> i" using s w by (auto simp: client_act_def write_returns_def split: if_splits)
    with Write_returns s show ?thesis
      by (intro keep) (auto simp: client_act_def write_returns_def Let_def
          split: phase.splits if_splits)
  next
    case (Timer_fires j)
    then have "j \<noteq> i" using s nt by (auto simp: client_act_def timer_fires_def split: if_splits)
    with Timer_fires s show ?thesis
      by (intro keep) (auto simp: client_act_def timer_fires_def split: if_splits)
  next
    case (Read_command nr cmd)
    then have s: "read_returns env nr cmd c = Some c'" using s by (simp add: client_act_def)
    then have rd: "cl_reader c = Reading" by (auto simp: read_returns_eq split: if_splits)
    then have t: "map_of (cl_requests c) rid \<noteq> Some ?p" for rid using f by (simp add: forgotten_def)
    have "cl_ncalls c' = cl_ncalls c \<and> cl_calls c' = cl_calls c \<and> cl_ictxs c' = cl_ictxs c \<and>
        held c' ?p = None \<and> (\<forall>rid. map_of (cl_requests c') rid \<noteq> Some ?p)"
      using s rd t by (auto simp: read_returns_eq Let_def getAndDelRequestContext_def set_reader_def
          held_def map_of_delete_Some split: if_splits option.splits)
    with f show ?thesis by (simp add: forgotten_def)
  next
    case (Read_fails err)
    with s f show ?thesis
      by (auto simp: client_act_def forgotten_def set_reader_def held_def split: if_splits)
  next
    case Run_reader
    with s forgotten_reader [OF inv tab f] show ?thesis by (simp add: client_act_def)
  next
    case (Dial_returns r)
    with s f show ?thesis
      by (auto simp: client_act_def dial_returns_def forgotten_def set_reader_def held_def
          split: reader.splits sum.splits option.splits prod.splits)
  next
    case Close_client
    with s show ?thesis by (intro keep) (auto simp: client_act_def client_Close_def)
  next
    case (Tick t)
    with s show ?thesis by (intro keep) (auto simp: client_act_def)
  qed
qed

lemma forgotten_forever:
  assumes "(client_step patient env)\<^sup>*\<^sup>* c c'" and "reachable patient env c" and "forgotten c i"
  shows "reachable patient env c' \<and> forgotten c' i"
  using assms
proof (induction rule: rtranclp_induct)
  case (step c1 c2)
  then have r: "reachable patient env c1" and f: "forgotten c1 i" by simp_all
  have "client_inv c1" and "table_inv c1" using reachable_inv [OF r] by simp_all
  with step.hyps(2) f have "forgotten c2 i" by (auto elim!: client_stepE intro: forgotten_act)
  then show ?case using r step.hyps(2) by (blast intro: reachable.more)
qed simp

subsection \<open>The reader never blocks\<close>

definition reader_inv :: "'x client \<Rightarrow> bool" where
  "reader_inv c \<longleftrightarrow> (cl_rerrCh c = [] \<or> cl_reader c = Stopped) \<and>
     (\<forall>p. cl_reader c = Sending p \<longrightarrow> \<not> ic_callback (cl_ictxs c p))"

lemma reader_inv_act:
  assumes inv: "client_inv c" and r: "reader_inv c" and s: "client_act env a c = Some c'"
  shows "reader_inv c'"
proof -
  have keep: "reader_inv c'" if "cl_reader c' = cl_reader c" "cl_rerrCh c' = cl_rerrCh c"
    "\<And>p. p < cl_nictxs c \<Longrightarrow> ic_callback (cl_ictxs c' p) = ic_callback (cl_ictxs c p)"
  proof -
    have "p < cl_nictxs c" if "cl_reader c = Sending p" for p
      using inv that by (simp add: client_inv_def held_def)
    with r that show ?thesis by (simp add: reader_inv_def)
  qed
  show ?thesis
  proof (cases a)
    case (Run i)
    then have i: "invoke_step env i c = Some c'" using s by (simp add: client_act_def split: if_splits)
    show ?thesis
    proof (cases "phase_of c i = Numbering")
      case True
      then have "number_request env i c = Some c'" using i by (simp add: invoke_step_def Let_def)
      from number_request_effect [OF this] show ?thesis by (intro keep) (auto simp: set_call_def)
    next
      case False
      with i show ?thesis
        by (intro keep; cases "phase_of c i")
           (auto simp: invoke_step_def Let_def addRequestContext_def delRequestContext_def
              finish_call_def set_call_def set_ictx_def split: option.splits list.splits if_splits)
    qed
  next
    case (Do req res t pooled)
    with s show ?thesis
      by (intro keep) (auto simp: client_act_def DoTimeout_def AcquireInvokeContext_def add_call_def
          set_ictx_def Let_def split: option.splits if_splits)
  next
    case (Do_callback req)
    with s show ?thesis
      by (intro keep) (auto simp: client_act_def DoCallbackTimeout_def add_call_def set_ictx_def Let_def)
  next
    case (Write_returns j err)
    with s show ?thesis
      by (intro keep) (auto simp: client_act_def write_returns_def set_call_def Let_def
          split: phase.splits if_splits)
  next
    case (Timer_fires j)
    with s show ?thesis
      by (intro keep) (auto simp: client_act_def timer_fires_def set_call_def split: if_splits)
  next
    case (Read_command nr cmd)
    with s r show ?thesis
      by (auto simp: client_act_def read_returns_eq Let_def getAndDelRequestContext_def
          set_reader_def reader_inv_def split: if_splits option.splits)
  next
    case Run_reader
    with s r show ?thesis
      by (cases "cl_reader c")
         (auto simp: client_act_def reader_step_eq reader_inv_def set_reader_def set_ictx_def
            fold_fail_pending client_Close_def AssignResponse_def split: option.splits if_splits)
  next
    case (Dial_returns x)
    with s r show ?thesis
      by (auto simp: client_act_def dial_returns_def reader_inv_def set_reader_def
          split: reader.splits sum.splits option.splits prod.splits)
  qed (use s r in \<open>auto simp: client_act_def reader_inv_def set_reader_def client_Close_def
      split: if_splits\<close>)
qed

lemma reachable_reader_inv: "reachable patient env c \<Longrightarrow> reader_inv c"
proof (induction rule: reachable.induct)
  case (start conn)
  show ?case by (simp add: reader_inv_def NewClient_def)
next
  case (more c c')
  have "client_inv c" using reachable_inv [OF more.hyps(1)] by simp
  with more.hyps(2) more.IH show ?case by (auto elim!: client_stepE intro: reader_inv_act)
qed

subsection \<open>Ids\<close>

lemma set_rid [simp]: "cl_rid (set_call i f c) = cl_rid c" "cl_rid (set_ictx p g c) = cl_rid c"
  by (simp_all add: set_call_def set_ictx_def)

fun unnumbered :: "phase \<Rightarrow> bool" where
  "unnumbered Entering = True" | "unnumbered Open = True" | "unnumbered Numbering = True"
| "unnumbered _ = False"

definition with_id :: "phase \<Rightarrow> bool" where
  "with_id ph \<longleftrightarrow> registered ph \<or> (\<exists>d. ph = Adding d)"

lemma with_id_simps [simp]:
  "with_id (Adding d)" "with_id (Writing d)" "with_id (WriteFailed e)" "with_id OneWayWritten"
  "with_id Waiting" "with_id TimedOut" "\<not> with_id Entering" "\<not> with_id Open" "\<not> with_id Numbering"
  "\<not> with_id Copying" "\<not> with_id (Finishing x)" "\<not> with_id (Returned x)"
  by (simp_all add: with_id_def)

lemma act_ids:
  assumes "client_act env a c = Some c'" and "\<not> ce_disableAutoIncrementRequestID env"
  shows "(\<exists>i < cl_ncalls c. phase_of c i = Numbering \<and> cl_ncalls c' = cl_ncalls c \<and>
      cl_rid c' = cl_rid c + 1 \<and> cc_rid (cl_calls c' i) = cl_rid c + 1 \<and>
      \<not> unnumbered (phase_of c' i) \<and> (\<forall>j. j \<noteq> i \<longrightarrow> cl_calls c' j = cl_calls c j)) \<or>
    (cl_rid c' = cl_rid c \<and>
     (cl_ncalls c' = cl_ncalls c \<or>
      cl_ncalls c' = cl_ncalls c + 1 \<and> cc_rid (cl_calls c' (cl_ncalls c)) = 0 \<and>
      \<not> with_id (phase_of c' (cl_ncalls c))) \<and>
     (\<forall>j < cl_ncalls c. cc_rid (cl_calls c' j) = cc_rid (cl_calls c j) \<and>
        (unnumbered (phase_of c' j) \<longrightarrow> unnumbered (phase_of c j)) \<and>
        (with_id (phase_of c' j) \<longrightarrow> with_id (phase_of c j))))"
    (is "?number \<or> ?same")
proof (cases a)
  case (Run i)
  then have i: "invoke_step env i c = Some c'" "i < cl_ncalls c"
    using assms(1) by (simp_all add: client_act_def split: if_splits)
  show ?thesis
  proof (cases "phase_of c i = Numbering")
    case True
    then have "number_request env i c = Some c'" using i by (simp add: invoke_step_def Let_def)
    from number_request_effect [OF this] assms(2) obtain k n where
      c': "c' = (set_call i (\<lambda>_. k) c)\<lparr>cl_rid := n\<rparr>" and
      k: "(\<exists>d. cc_phase k = Adding d) \<or> (\<exists>e. cc_phase k = Finishing (Some e))"
        "(n = cl_rid c + 1 \<and> cc_rid k = n) \<or> (n = cl_rid c \<and> cc_rid k = cc_rid (cl_calls c i) \<and>
          (\<exists>e. cc_phase k = Finishing (Some e)))"
      by blast
    have "\<not> unnumbered (cc_phase k)" using k(1) by auto
    with k(2) i True show ?thesis by (auto simp: c')
  next
    case False
    with i have ?same
      by (cases "phase_of c i")
         (auto simp: invoke_step_def Let_def addRequestContext_def delRequestContext_def
            finish_call_def split: option.splits list.splits if_splits)
    then show ?thesis ..
  qed
next
  case (Do req res t pooled)
  then have ?same using assms(1)
    by (auto simp: client_act_def DoTimeout_def AcquireInvokeContext_def add_call_def
        Let_def split: option.splits if_splits)
  then show ?thesis ..
next
  case (Do_callback req)
  then have ?same using assms(1)
    by (auto simp: client_act_def DoCallbackTimeout_def add_call_def Let_def)
  then show ?thesis ..
next
  case (Write_returns j err)
  then have ?same using assms(1)
    by (auto simp: client_act_def write_returns_def Let_def split: phase.splits if_splits option.splits)
  then show ?thesis ..
next
  case (Timer_fires j)
  then have ?same using assms(1) by (auto simp: client_act_def timer_fires_def split: if_splits)
  then show ?thesis ..
next
  case (Read_command nr cmd)
  then have ?same using assms(1)
    by (auto simp: client_act_def read_returns_eq Let_def getAndDelRequestContext_def
        set_reader_def split: if_splits option.splits)
  then show ?thesis ..
next
  case Run_reader
  then have ?same using assms(1)
    by (cases "cl_reader c")
       (auto simp: client_act_def reader_step_eq set_reader_def
          fold_fail_pending client_Close_def split: option.splits if_splits)
  then show ?thesis ..
next
  case (Dial_returns x)
  then have ?same using assms(1)
    by (auto simp: client_act_def dial_returns_def set_reader_def
        split: reader.splits sum.splits option.splits prod.splits)
  then show ?thesis ..
qed (use assms(1) in \<open>auto simp: client_act_def set_reader_def client_Close_def split: if_splits\<close>)

definition numbered :: "'x client \<Rightarrow> nat set" where
  "numbered c = {i. i < cl_ncalls c \<and> cc_rid (cl_calls c i) \<noteq> 0}"

definition ids_inv :: "'x client \<Rightarrow> bool" where
  "ids_inv c \<longleftrightarrow> unat (cl_rid c) = card (numbered c) \<and>
     (\<forall>i < cl_ncalls c. unat (cc_rid (cl_calls c i)) \<le> unat (cl_rid c)) \<and>
     (\<forall>i < cl_ncalls c. unnumbered (phase_of c i) \<longrightarrow> cc_rid (cl_calls c i) = 0) \<and>
     (\<forall>i < cl_ncalls c. with_id (phase_of c i) \<longrightarrow> cc_rid (cl_calls c i) \<noteq> 0) \<and>
     inj_on (\<lambda>i. cc_rid (cl_calls c i)) (numbered c)"

lemma ids_inv_act:
  assumes ids: "ids_inv c" and s: "client_act env a c = Some c'"
    and auto_ids: "\<not> ce_disableAutoIncrementRequestID env" and n: "cl_ncalls c < 2 ^ 32"
  shows "ids_inv c'"
  using act_ids [OF s auto_ids]
proof (rule disjE)
  assume "\<exists>i < cl_ncalls c. phase_of c i = Numbering \<and> cl_ncalls c' = cl_ncalls c \<and>
      cl_rid c' = cl_rid c + 1 \<and> cc_rid (cl_calls c' i) = cl_rid c + 1 \<and>
      \<not> unnumbered (phase_of c' i) \<and> (\<forall>j. j \<noteq> i \<longrightarrow> cl_calls c' j = cl_calls c j)"
  then obtain i where i: "i < cl_ncalls c" and ph: "phase_of c i = Numbering"
    and nc: "cl_ncalls c' = cl_ncalls c" and rid: "cl_rid c' = cl_rid c + 1"
    and ri: "cc_rid (cl_calls c' i) = cl_rid c + 1" and un: "\<not> unnumbered (phase_of c' i)"
    and same: "\<forall>j. j \<noteq> i \<longrightarrow> cl_calls c' j = cl_calls c j"
    by blast
  have r0: "cc_rid (cl_calls c i) = 0" using ids i ph by (simp add: ids_inv_def)
  have fin: "finite (numbered c)" by (simp add: numbered_def)
  have "card (numbered c) \<le> card ({..<cl_ncalls c} - {i})"
    by (rule card_mono) (use r0 in \<open>auto simp: numbered_def\<close>)
  then have "unat (cl_rid c) + 1 < 2 ^ 32" using ids i n by (simp add: ids_inv_def)
  then have u: "unat (cl_rid c + 1) = unat (cl_rid c) + 1" by (simp add: unat_word_ariths)
  then have ne: "cl_rid c + 1 \<noteq> 0" by (metis add_is_0 one_neq_zero unat_0)
  have N: "numbered c' = insert i (numbered c)" and ni: "i \<notin> numbered c"
    using same ri ne nc i r0 by (auto simp: numbered_def)
  have big: "cc_rid (cl_calls c j) \<noteq> cl_rid c + 1" if "j < cl_ncalls c" for j
    using ids that u unfolding ids_inv_def by fastforce
  have inj: "inj_on (\<lambda>i. cc_rid (cl_calls c' i)) (numbered c')"
  proof (rule inj_onI)
    fix x y assume x: "x \<in> numbered c'" and y: "y \<in> numbered c'"
      and e: "cc_rid (cl_calls c' x) = cc_rid (cl_calls c' y)"
    have lt: "x < cl_ncalls c" "y < cl_ncalls c" using x y nc by (simp_all add: numbered_def)
    show "x = y"
    proof (cases "x = i \<or> y = i")
      case True
      with e same ri big lt show ?thesis by metis
    next
      case False
      with x y e same have "x \<in> numbered c" "y \<in> numbered c"
        "cc_rid (cl_calls c x) = cc_rid (cl_calls c y)" by (simp_all add: N)
      with ids show ?thesis by (simp add: ids_inv_def inj_on_def)
    qed
  qed
  have le: "unat (cc_rid (cl_calls c' j)) \<le> unat (cl_rid c')" if "j < cl_ncalls c" for j
    using ids that same ri rid u unfolding ids_inv_def by (cases "j = i") fastforce+
  have "cc_rid (cl_calls c' j) = 0" if "j < cl_ncalls c" and "unnumbered (phase_of c' j)" for j
  proof -
    have "j \<noteq> i" using that(2) un by auto
    with that same ids show ?thesis by (simp add: ids_inv_def)
  qed
  moreover have "cc_rid (cl_calls c' j) \<noteq> 0" if "j < cl_ncalls c" and "with_id (phase_of c' j)" for j
    using that ids same ri ne by (cases "j = i") (simp_all add: ids_inv_def)
  ultimately show ?thesis
    using ids inj le fin ni u by (simp add: ids_inv_def N nc rid)
next
  assume "cl_rid c' = cl_rid c \<and>
     (cl_ncalls c' = cl_ncalls c \<or>
      cl_ncalls c' = cl_ncalls c + 1 \<and> cc_rid (cl_calls c' (cl_ncalls c)) = 0 \<and>
      \<not> with_id (phase_of c' (cl_ncalls c))) \<and>
     (\<forall>j < cl_ncalls c. cc_rid (cl_calls c' j) = cc_rid (cl_calls c j) \<and>
        (unnumbered (phase_of c' j) \<longrightarrow> unnumbered (phase_of c j)) \<and>
        (with_id (phase_of c' j) \<longrightarrow> with_id (phase_of c j)))"
  then have rid: "cl_rid c' = cl_rid c"
    and nc: "cl_ncalls c' = cl_ncalls c \<or>
      cl_ncalls c' = cl_ncalls c + 1 \<and> cc_rid (cl_calls c' (cl_ncalls c)) = 0 \<and>
      \<not> with_id (phase_of c' (cl_ncalls c))"
    and same: "\<forall>j < cl_ncalls c. cc_rid (cl_calls c' j) = cc_rid (cl_calls c j) \<and>
      (unnumbered (phase_of c' j) \<longrightarrow> unnumbered (phase_of c j)) \<and>
      (with_id (phase_of c' j) \<longrightarrow> with_id (phase_of c j))"
    by blast+
  have lt: "j < cl_ncalls c \<or> cc_rid (cl_calls c' j) = 0 \<and> \<not> with_id (phase_of c' j)"
    if "j < cl_ncalls c'" for j
    using nc that by (auto simp: less_Suc_eq)
  have le: "cl_ncalls c \<le> cl_ncalls c'" using nc by auto
  have N: "numbered c' = numbered c"
  proof (rule set_eqI)
    fix j show "j \<in> numbered c' \<longleftrightarrow> j \<in> numbered c"
      using same lt [of j] le by (cases "j < cl_ncalls c") (auto simp: numbered_def)
  qed
  have "inj_on (\<lambda>i. cc_rid (cl_calls c' i)) (numbered c) = inj_on (\<lambda>i. cc_rid (cl_calls c i)) (numbered c)"
    by (rule inj_on_cong) (use same in \<open>simp add: numbered_def\<close>)
  then have inj: "inj_on (\<lambda>i. cc_rid (cl_calls c' i)) (numbered c')" using ids by (simp add: ids_inv_def N)
  have "unat (cc_rid (cl_calls c' j)) \<le> unat (cl_rid c)"
    "unnumbered (phase_of c' j) \<Longrightarrow> cc_rid (cl_calls c' j) = 0"
    "with_id (phase_of c' j) \<Longrightarrow> cc_rid (cl_calls c' j) \<noteq> 0" if "j < cl_ncalls c'" for j
    using lt [OF that] same ids by (auto simp: ids_inv_def)
  with inj ids show ?thesis by (simp add: ids_inv_def N rid)
qed

lemma act_ncalls: "client_act env a c = Some c' \<Longrightarrow> \<not> ce_disableAutoIncrementRequestID env \<Longrightarrow>
    cl_ncalls c \<le> cl_ncalls c'"
  by (drule (1) act_ids) auto

lemma reachable_ids:
  assumes "reachable pool env c" and "\<not> ce_disableAutoIncrementRequestID env"
    and "cl_ncalls c < 2 ^ 32"
  shows "ids_inv c"
  using assms
proof (induction rule: reachable.induct)
  case (start conn)
  show ?case by (simp add: ids_inv_def numbered_def NewClient_def)
next
  case (more c c')
  obtain a where a: "client_act env a c = Some c'"
    using more.hyps(2) by (auto elim: client_stepE)
  have "cl_ncalls c \<le> cl_ncalls c'" by (rule act_ncalls [OF a more.prems(1)])
  with more.prems have n: "cl_ncalls c < 2 ^ 32" by simp
  show ?case by (rule ids_inv_act [OF more.IH a]) (use n more.prems in simp_all)
qed


subsection \<open>No waiter is lost while the reader reads\<close>

text \<open>A registered call is in the table, in the reader's hands or notified.\<close>

definition cared_for :: "'x client \<Rightarrow> nat \<Rightarrow> bool" where
  "cared_for c i \<longleftrightarrow> (let k = cl_calls c i; p = cc_ictx k in
     map_of (cl_requests c) (cc_rid k) = Some p \<or> held c p \<noteq> None \<or>
     ic_errCh (cl_ictxs c p) \<noteq> Some [])"

definition waiters_inv :: "'x client \<Rightarrow> bool" where
  "waiters_inv c \<longleftrightarrow>
     (\<forall>i < cl_ncalls c. registered (phase_of c i) \<longrightarrow> cared_for c i)"

text \<open>Two calls with an id have different ids.\<close>

lemma ids_differ:
  assumes "ids_inv c" and "i < cl_ncalls c" "j < cl_ncalls c" "i \<noteq> j"
    and "with_id (phase_of c j)"
  shows "cc_rid (cl_calls c i) \<noteq> cc_rid (cl_calls c j)"
  using assms by (auto simp: ids_inv_def inj_on_def numbered_def)

lemma registered_live: "registered ph \<Longrightarrow> \<not> is_returned ph"
  by (cases ph) simp_all

lemma cared_for_keep:
  assumes "cared_for c i" and "cc_ictx (cl_calls c' i) = cc_ictx (cl_calls c i)"
    and "cc_rid (cl_calls c' i) = cc_rid (cl_calls c i)" and "cl_reader c' = cl_reader c"
    and "ic_errCh (cl_ictxs c' (cc_ictx (cl_calls c i))) = ic_errCh (cl_ictxs c (cc_ictx (cl_calls c i)))"
    and "map_of (cl_requests c) (cc_rid (cl_calls c i)) = Some (cc_ictx (cl_calls c i)) \<Longrightarrow>
      map_of (cl_requests c') (cc_rid (cl_calls c i)) = Some (cc_ictx (cl_calls c i))"
  shows "cared_for c' i"
  using assms by (auto simp: cared_for_def Let_def held_def split: reader.splits)

lemma cared_for_run:
  assumes inv: "client_inv c" and ids: "ids_inv c" and w: "waiters_inv c"
    and j: "j < cl_ncalls c" and s: "invoke_step env j c = Some c'"
    and i: "i < cl_ncalls c'" and r: "registered (phase_of c' i)"
  shows "cared_for c' i"
proof (cases "i = j")
  case True
  have "phase_of c j \<noteq> Numbering"
  proof
    assume n: "phase_of c j = Numbering"
    then have "number_request env j c = Some c'" using s by (simp add: invoke_step_def Let_def)
    from number_request_effect [OF this] r True show False by auto
  qed
  with s r True show ?thesis
    by (cases "phase_of c j")
       (auto simp: invoke_step_def Let_def cared_for_def addRequestContext_def update_conv'
          finish_call_def split: option.splits list.splits if_splits)
next
  case False
  let ?p = "cc_ictx (cl_calls c i)" and ?q = "cc_ictx (cl_calls c j)"
  have live: "\<not> is_returned (phase_of c j)"
    using s by (cases "phase_of c j") (simp_all add: invoke_step_def Let_def)
  have same: "cl_ncalls c' = cl_ncalls c \<and> cl_calls c' i = cl_calls c i \<and> cl_reader c' = cl_reader c"
  proof (cases "phase_of c j = Numbering")
    case True
    then have "number_request env j c = Some c'" using s by (simp add: invoke_step_def Let_def)
    from number_request_effect [OF this] False show ?thesis by auto
  next
    case n: False
    with s False show ?thesis
      by (cases "phase_of c j")
         (auto simp: invoke_step_def Let_def addRequestContext_def delRequestContext_def
            finish_call_def split: option.splits list.splits if_splits)
  qed
  then have i': "i < cl_ncalls c" and r': "registered (phase_of c i)" using i r by simp_all
  then have cared: "cared_for c i" using w by (simp add: waiters_inv_def)
  have "ic_owner (cl_ictxs c ?p) = i" "ic_owner (cl_ictxs c ?q) = j"
    using live_call(2) [OF inv i'] live_call(2) [OF inv j live] registered_live [OF r'] by simp_all
  with False have pq: "?p \<noteq> ?q" by auto
  have rid: "with_id (phase_of c j) \<Longrightarrow> cc_rid (cl_calls c i) \<noteq> cc_rid (cl_calls c j)"
    by (rule ids_differ [OF ids i' j False])
  have x: "ic_errCh (cl_ictxs c' ?p) = ic_errCh (cl_ictxs c ?p)"
    and t: "map_of (cl_requests c') (cc_rid (cl_calls c i)) =
      map_of (cl_requests c) (cc_rid (cl_calls c i))"
  proof -
    have "cl_ictxs c' ?p = cl_ictxs c ?p \<and>
        map_of (cl_requests c') (cc_rid (cl_calls c i)) = map_of (cl_requests c) (cc_rid (cl_calls c i))"
    proof (cases "phase_of c j = Numbering")
      case True
      then have "number_request env j c = Some c'" using s by (simp add: invoke_step_def Let_def)
      from number_request_effect [OF this] show ?thesis by auto
    next
      case n: False
      with s pq rid show ?thesis
        by (cases "phase_of c j")
           (auto simp: invoke_step_def Let_def addRequestContext_def delRequestContext_def
              finish_call_def update_conv' delete_conv' split: option.splits list.splits if_splits)
    qed
    then show "ic_errCh (cl_ictxs c' ?p) = ic_errCh (cl_ictxs c ?p)"
      "map_of (cl_requests c') (cc_rid (cl_calls c i)) =
        map_of (cl_requests c) (cc_rid (cl_calls c i))" by simp_all
  qed
  show ?thesis by (rule cared_for_keep [OF cared]) (use same x t in simp_all)
qed

lemma cared_for_read:
  assumes w: "waiters_inv c" and s: "read_returns env nr cmd c = Some c'"
    and i: "i < cl_ncalls c'" and r: "registered (phase_of c' i)"
  shows "cared_for c' i"
proof -
  have rd: "cl_reader c = Reading" using s by (auto simp: read_returns_eq split: if_splits)
  have same: "cl_ncalls c' = cl_ncalls c" "cl_calls c' = cl_calls c" "cl_ictxs c' = cl_ictxs c"
    using s rd by (auto simp: read_returns_eq Let_def getAndDelRequestContext_def set_reader_def
        split: if_splits option.splits)
  then have "cared_for c i" using w i r by (simp add: waiters_inv_def)
  moreover have "map_of (cl_requests c') (cc_rid (cl_calls c i)) =
        map_of (cl_requests c) (cc_rid (cl_calls c i)) \<or>
      (\<forall>p. map_of (cl_requests c) (cc_rid (cl_calls c i)) = Some p \<longrightarrow> held c' p \<noteq> None)"
    using s rd by (auto simp: read_returns_eq Let_def getAndDelRequestContext_def set_reader_def
        held_def delete_conv' split: if_splits option.splits)
  moreover have "held c q = None" for q by (simp add: held_def rd)
  ultimately show ?thesis by (auto simp: cared_for_def Let_def same)
qed

lemma cared_for_reader:
  assumes inv: "client_inv c" and tab: "table_inv c" and w: "waiters_inv c"
    and s: "reader_step env c = Some c'" and i: "i < cl_ncalls c'" and r: "registered (phase_of c' i)"
  shows "cared_for c' i"
proof -
  have same: "cl_ncalls c' = cl_ncalls c" "cl_calls c' = cl_calls c"
    using s by (cases "cl_reader c"; auto simp: reader_step_eq set_reader_def fold_fail_pending
        client_Close_def split: option.splits if_splits)+
  then have i': "i < cl_ncalls c" and r': "registered (phase_of c i)" and cared: "cared_for c i"
    using w i r by (simp_all add: waiters_inv_def)
  let ?k = "cl_calls c i" let ?p = "cc_ictx ?k"
  note l = live_call [OF inv i' registered_live [OF r']]
  show ?thesis
  proof (cases "cl_reader c")
    case (Delivering q res)
    have "ic_callback (cl_ictxs c q) \<Longrightarrow> q = ?p \<Longrightarrow> ic_errCh (cl_ictxs c ?p) = None"
      using l(3) by (simp add: ictx_ok_def ictx_wf_def)
    with s cared Delivering show ?thesis
      by (auto simp: reader_step_eq cared_for_def Let_def set_reader_def held_def AssignResponse_def
          split: if_splits)
  next
    case (Sending q)
    with s cared show ?thesis
      by (auto simp: reader_step_eq cared_for_def Let_def set_reader_def held_def
          split: if_splits option.splits)
  next
    case (Cleaning err)
    have "ic_errCh (cl_ictxs c' ?p) \<noteq> Some []" if m: "map_of (cl_requests c) (cc_rid ?k) = Some ?p"
    proof -
      have "\<And>rid. map_of (cl_requests c) rid = Some ?p \<Longrightarrow> rid = cc_rid ?k"
        using l(3) by (simp add: ictx_ok_def)
      from once_in_table [OF tab [unfolded table_inv_def] this] m
      have "length (filter (\<lambda>(_, p). p = ?p) (cl_requests c)) = 1" by simp
      then have x: "cl_ictxs c' ?p = fail_pending err (cl_ictxs c ?p)"
        using s Cleaning by (auto simp: reader_step_eq fold_fail_pending set_reader_def)
      have "quiet (cl_ictxs c ?p)" using l(3) m by (auto simp: ictx_ok_def)
      then show ?thesis by (auto simp: x fail_pending_def quiet_def split: if_splits)
    qed
    moreover have "ic_errCh (cl_ictxs c ?p) \<noteq> Some [] \<Longrightarrow> ic_errCh (cl_ictxs c' ?p) \<noteq> Some []"
    proof -
      assume n: "ic_errCh (cl_ictxs c ?p) \<noteq> Some []"
      have "ic_errCh ((fail_pending err ^^ m) (cl_ictxs c ?p)) \<noteq> Some []" for m
        by (induction m) (use n in \<open>auto simp: fail_pending_def split: option.split\<close>)
      then show ?thesis
        using s Cleaning by (auto simp: reader_step_eq fold_fail_pending set_reader_def)
    qed
    moreover have "held c ?p = None" by (simp add: held_def Cleaning)
    ultimately show ?thesis using cared by (auto simp: cared_for_def Let_def same)
  qed (use s cared in \<open>auto simp: reader_step_eq cared_for_def Let_def set_reader_def held_def
      client_Close_def split: if_splits\<close>)
qed

lemma waiters_inv_act:
  assumes inv: "client_inv c" and tab: "table_inv c" and ids: "ids_inv c" and w: "waiters_inv c"
    and s: "client_act env a c = Some c'"
  shows "waiters_inv c'"
  unfolding waiters_inv_def
proof (intro allI impI)
  fix i assume i: "i < cl_ncalls c'" and r: "registered (phase_of c' i)"
  have keep: "cared_for c' i" if "i < cl_ncalls c" "registered (phase_of c i)"
    "cc_ictx (cl_calls c' i) = cc_ictx (cl_calls c i)"
    "cc_rid (cl_calls c' i) = cc_rid (cl_calls c i)" "cl_reader c' = cl_reader c"
    "ic_errCh (cl_ictxs c' (cc_ictx (cl_calls c i))) = ic_errCh (cl_ictxs c (cc_ictx (cl_calls c i)))"
    "cl_requests c' = cl_requests c"
    by (rule cared_for_keep [of c]) (use w that in \<open>simp_all add: waiters_inv_def\<close>)
  show "cared_for c' i"
  proof (cases a)
    case (Do req res t pooled)
    then have s: "DoTimeout env req res t pooled c = Some c'" using s by (simp add: client_act_def)
    have i': "i < cl_ncalls c" and k: "cl_calls c' i = cl_calls c i"
      using s i r by (auto simp: DoTimeout_def add_call_def AcquireInvokeContext_def Let_def less_Suc_eq
          split: option.splits if_splits)
    note l = live_call [OF inv i' registered_live [OF r [unfolded k]]]
    have "cc_ictx (cl_calls c i) \<notin> set (cl_pool c)"
      using l(3) registered_live [OF r] k by (simp add: ictx_ok_def)
    then show ?thesis
      using s i' k r l(1) by (intro keep)
        (auto simp: DoTimeout_def add_call_def AcquireInvokeContext_def set_ictx_def Let_def
          split: option.splits if_splits)
  next
    case (Do_callback req)
    then have s: "c' = DoCallbackTimeout env req c" using s by (simp add: client_act_def)
    have i': "i < cl_ncalls c" and k: "cl_calls c' i = cl_calls c i"
      using s i r by (auto simp: DoCallbackTimeout_def add_call_def Let_def less_Suc_eq split: if_splits)
    note l = live_call [OF inv i' registered_live [OF r [unfolded k]]]
    show ?thesis
      using s i' k r l(1) by (intro keep)
        (auto simp: DoCallbackTimeout_def add_call_def set_ictx_def Let_def)
  next
    case (Run j)
    with s i r show ?thesis
      by (auto simp: client_act_def split: if_splits intro: cared_for_run [OF inv ids w])
  next
    case (Write_returns j err)
    with s i r show ?thesis
      by (intro keep) (auto simp: client_act_def write_returns_def set_call_def Let_def
          split: phase.splits if_splits)
  next
    case (Timer_fires j)
    with s i r show ?thesis
      by (intro keep) (auto simp: client_act_def timer_fires_def set_call_def split: if_splits)
  next
    case (Read_command nr cmd)
    with s i r show ?thesis by (auto simp: client_act_def intro: cared_for_read [OF w])
  next
    case (Read_fails err)
    with s i r w show ?thesis
      by (auto simp: client_act_def waiters_inv_def cared_for_def Let_def held_def set_reader_def
          split: if_splits)
  next
    case Run_reader
    with s i r show ?thesis by (auto simp: client_act_def intro: cared_for_reader [OF inv tab w])
  next
    case (Dial_returns x)
    with s i r w show ?thesis
      by (auto simp: client_act_def dial_returns_def waiters_inv_def cared_for_def Let_def held_def
          set_reader_def split: reader.splits sum.splits option.splits prod.splits)
  next
    case Close_client
    with s i r show ?thesis
      by (intro keep) (auto simp: client_act_def client_Close_def split: if_splits)
  next
    case (Tick t)
    with s i r show ?thesis by (intro keep) (auto simp: client_act_def)
  qed
qed

lemma reachable_waiters:
  assumes "reachable patient env c" and "\<not> ce_disableAutoIncrementRequestID env"
    and "cl_ncalls c < 2 ^ 32"
  shows "waiters_inv c"
  using assms
proof (induction rule: reachable.induct)
  case (start conn)
  show ?case by (simp add: waiters_inv_def NewClient_def)
next
  case (more c c')
  obtain a where a: "client_act env a c = Some c'"
    using more.hyps(2) by (auto elim: client_stepE)
  have n: "cl_ncalls c < 2 ^ 32" using act_ncalls [OF a more.prems(1)] more.prems(2) by simp
  have inv: "client_inv c" "table_inv c" using reachable_inv [OF more.hyps(1)] by simp_all
  have ids: "ids_inv c" by (rule reachable_ids [OF more.hyps(1) more.prems(1) n])
  have w: "waiters_inv c" using more.IH more.prems(1) n by simp
  show ?case by (rule waiters_inv_act [OF inv ids w a])
qed

subsection \<open>Properties\<close>

lemmas demo_run = run_ok.simps holds_def patient_def client_eval





definition callback_run :: "unit action list" where
  "callback_run = [Do_callback (ask 0), Run 0, Run 0, Run 0, Run 0, Write_returns 0 None,
     Read_command 0 (answer 1)]"



definition failing_run :: "unit action list" where
  "failing_run = [Do (ask 0) blank False None, Run 0, Run 0, Run 0, Run 0, Write_returns 0 None,
     Read_fails ErrEOF]"


definition lost_run :: "unit action list" where
  "lost_run = [Do (ask 0) blank False None, Run 0, Run 0, Run 0, Read_fails ErrEOF, Run_reader,
     Run 0, Write_returns 0 None, Run_reader, Run_reader, Run_reader, Run_reader]"

text \<open>
  C35. A call can be lost all the same. Between the step that empties the table and the one that
  marks the client closed, a call can still register and its write succeed; then the reader stops
  without looking at the table again. The call is in this run the only one and its connection
  failed with \<open>EOF\<close>, and it waits for ever: in no state that can be reached afterwards has it
  returned, or anything to receive.
\<close>

theorem client_loses_waiter:
  "\<exists>c. client_run (demo_env False) lost_run (NewClient (demo_env False) 0) = Some c \<and>
     cl_reader c = Stopped \<and> cl_rerr c = Some ErrEOF \<and>
     (\<forall>c'. (client_step patient (demo_env False))\<^sup>*\<^sup>* c c' \<longrightarrow> phase_of c' 0 = Waiting)"
proof -
  obtain c where run: "client_run (demo_env False) lost_run (NewClient (demo_env False) 0) = Some c"
    and c: "cl_reader c = Stopped" "cl_rerr c = Some ErrEOF" and f: "forgotten c 0"
    by (simp add: lost_run_def client_eval forgotten_def)
  have r: "reachable patient (demo_env False) c"
    by (rule NewClient_reachable [OF run]) (simp add: lost_run_def demo_run)
  have "phase_of c' 0 = Waiting" if "(client_step patient (demo_env False))\<^sup>*\<^sup>* c c'" for c'
    using forgotten_forever [OF that r f] by (simp add: forgotten_def)
  with run c show ?thesis by blast
qed

lemma client_loses_waiter_witness:
  "\<exists>c. client_run (demo_env False) (lost_run @ [Tick 60]) (NewClient (demo_env False) 0) = Some c \<and>
     phase_of c 0 = Waiting"
proof -
  obtain c where c: "client_run (demo_env False) lost_run (NewClient (demo_env False) 0) = Some c"
    and w: "\<forall>c'. (client_step patient (demo_env False))\<^sup>*\<^sup>* c c' \<longrightarrow> phase_of c' 0 = Waiting"
    using client_loses_waiter by blast
  have "phase_of (c\<lparr>cl_now := 60\<rparr>) 0 = Waiting" using w tick_step by blast
  with c show ?thesis by (simp add: client_run_append client_act_def)
qed

definition same_id_run :: "unit action list" where
  "same_id_run = [Do (ask 7) blank False None, Run 0, Run 0, Run 0, Run 0, Write_returns 0 None,
     Do (ask 7) blank False None, Run 1, Run 1, Run 1, Run 1, Write_returns 1 None,
     Read_command 0 (answer 7), Run_reader, Run_reader, Run 1, Run 1, Run 1, Read_command 0 (answer 7)]"

text \<open>
  Ids of the caller's choosing. With \<open>disableAutoIncrementRequestID\<close> two calls in flight may
  have the same id; the second one takes the first one's place in the table. When the response
  arrives it goes to the second call, and the first, although its connection works, waits for ever.
\<close>

theorem client_same_id:
  "\<exists>c. client_run (demo_env True) same_id_run (NewClient (demo_env True) 0) = Some c \<and>
     cl_reader c = Reading \<and> phase_of c 1 = Returned None \<and>
     (\<forall>c'. (client_step patient (demo_env True))\<^sup>*\<^sup>* c c' \<longrightarrow> phase_of c' 0 = Waiting)"
proof -
  obtain c where run: "client_run (demo_env True) same_id_run (NewClient (demo_env True) 0) = Some c"
    and c: "cl_reader c = Reading" "phase_of c 1 = Returned None" and f: "forgotten c 0"
    by (simp add: same_id_run_def client_eval forgotten_def held_def)
  have r: "reachable patient (demo_env True) c"
    by (rule NewClient_reachable [OF run]) (simp add: same_id_run_def demo_run)
  have "phase_of c' 0 = Waiting" if "(client_step patient (demo_env True))\<^sup>*\<^sup>* c c'" for c'
    using forgotten_forever [OF that r f] by (simp add: forgotten_def)
  with run c show ?thesis by blast
qed

lemma client_same_id_witness:
  "\<exists>c. client_run (demo_env True) (same_id_run @ [Tick 60]) (NewClient (demo_env True) 0) = Some c \<and>
     phase_of c 0 = Waiting"
proof -
  obtain c where c: "client_run (demo_env True) same_id_run (NewClient (demo_env True) 0) = Some c"
    and w: "\<forall>c'. (client_step patient (demo_env True))\<^sup>*\<^sup>* c c' \<longrightarrow> phase_of c' 0 = Waiting"
    using client_same_id by blast
  have "phase_of (c\<lparr>cl_now := 60\<rparr>) 0 = Waiting" using w tick_step by blast
  with c show ?thesis by (simp add: client_run_append client_act_def)
qed

definition stale_run :: "unit action list" where
  "stale_run = [Do (ask 0) blank False None, Run 0, Run 0, Run 0, Run 0, Read_command 0 (answer 1),
     Write_returns 0 (Some ErrUnexpectedEOF), Run 0, Run 0,
     Do (ask 0) blank False (Some 0), Run_reader, Run_reader,
     Run 1, Run 1, Run 1, Run 1, Write_returns 1 None, Run 1, Run 1, Run 1]"


end
