(* ===== verification/Pool.thy ===== *)
theory Pool
  imports Client_Safety
begin

text \<open>
  \<open>Pool\<close> of src/sofabolt/pool.go: the clients of one address, handed out in turn. A pointer to a
  client is a number; the clients themselves live in a heap, here a function, that the keep-aliver
  owns. Every operation runs under the pool's lock and is one step.
\<close>

record pool =
  po_clients :: "nat list"
  po_next :: nat

definition NewPool :: pool where
  "NewPool = \<lparr>po_clients = [], po_next = 0\<rparr>"

definition Pool_Size :: "pool \<Rightarrow> int" where
  "Pool_Size p = int (length (po_clients p))"

definition Pool_Iterate :: "(nat \<Rightarrow> 's \<Rightarrow> 's) \<Rightarrow> pool \<Rightarrow> 's \<Rightarrow> 's" where
  "Pool_Iterate fn p s = fold fn (po_clients p) s"

definition copyClients :: "pool \<Rightarrow> nat list" where
  "copyClients p = po_clients p"

text \<open>The loop of \<open>DeleteLocked\<close> and \<open>Delete\<close>: it stops behind the first match.\<close>

fun delete_first :: "nat \<Rightarrow> nat list \<Rightarrow> nat list" where
  "delete_first c [] = []"
| "delete_first c (x # xs) = (if c = x then xs else x # delete_first c xs)"

definition DeleteLocked :: "nat \<Rightarrow> pool \<Rightarrow> pool" where
  "DeleteLocked c p = p\<lparr>po_clients := delete_first c (po_clients p)\<rparr>"

definition Pool_Delete :: "nat \<Rightarrow> pool \<Rightarrow> pool" where
  "Pool_Delete c p = p\<lparr>po_clients := delete_first c (po_clients p)\<rparr>"

definition DeleteClients :: "nat list \<Rightarrow> pool \<Rightarrow> pool" where
  "DeleteClients cs p = fold DeleteLocked cs p"

definition Pool_Push :: "nat \<Rightarrow> pool \<Rightarrow> pool" where
  "Pool_Push c p = p\<lparr>po_clients := po_clients p @ [c]\<rparr>"

definition Pool_Get :: "pool \<Rightarrow> nat option \<times> pool" where
  "Pool_Get p =
     (let n = length (po_clients p)
      in if n = 0 then (None, p)
         else let next = (po_next p + 1) mod n
              in (Some (po_clients p ! next), p\<lparr>po_next := next\<rparr>))"

lemma delete_first_remove1: "delete_first c xs = remove1 c xs"
  by (induction xs) auto

lemma Pool_simps [simp]:
  "po_clients (Pool_Delete c p) = remove1 c (po_clients p)"
  "po_clients (DeleteLocked c p) = remove1 c (po_clients p)"
  "po_clients (Pool_Push c p) = po_clients p @ [c]" "po_clients NewPool = []"
  "po_next (Pool_Delete c p) = po_next p"
  by (simp_all add: Pool_Delete_def DeleteLocked_def Pool_Push_def NewPool_def delete_first_remove1)

lemma DeleteClients_clients: "po_clients (DeleteClients cs p) = fold remove1 cs (po_clients p)"
  unfolding DeleteClients_def by (induction cs arbitrary: p) simp_all

lemma Pool_Get_clients [simp]: "po_clients (snd (Pool_Get p)) = po_clients p"
  by (simp add: Pool_Get_def Let_def)

lemma Pool_Get_in: "fst (Pool_Get p) = Some c \<Longrightarrow> c \<in> set (po_clients p)"
  by (auto simp: Pool_Get_def Let_def split: if_splits)

lemma Pool_Get_None: "fst (Pool_Get p) = None \<longleftrightarrow> po_clients p = []"
  by (simp add: Pool_Get_def Let_def)

subsection \<open>Round robin\<close>

fun Pool_Gets :: "nat \<Rightarrow> pool \<Rightarrow> nat option list \<times> pool" where
  "Pool_Gets 0 p = ([], p)"
| "Pool_Gets (Suc k) p =
     (let (c, p) = Pool_Get p; (cs, p) = Pool_Gets k p in (c # cs, p))"

lemma Pool_Gets_spec:
  assumes "po_clients p \<noteq> []"
  shows "fst (Pool_Gets k p) =
    map (\<lambda>i. Some (po_clients p ! ((po_next p + 1 + i) mod length (po_clients p)))) [0..<k]"
  using assms
proof (induction k arbitrary: p)
  case (Suc k)
  let ?n = "length (po_clients p)" and ?p = "snd (Pool_Get p)"
  have g: "Pool_Get p = (Some (po_clients p ! ((po_next p + 1) mod ?n)), ?p)"
    and nx: "po_next ?p = (po_next p + 1) mod ?n"
    using Suc.prems by (simp_all add: Pool_Get_def Let_def)
  have m: "(po_next ?p + 1 + i) mod ?n = (po_next p + 2 + i) mod ?n" for i
  proof -
    have "(po_next ?p + 1 + i) mod ?n = ((po_next p + 1) mod ?n + (1 + i)) mod ?n"
      by (simp add: nx)
    also have "\<dots> = (po_next p + 1 + (1 + i)) mod ?n" by (rule mod_add_left_eq)
    finally show ?thesis by (simp add: ac_simps)
  qed
  have "fst (Pool_Gets k ?p) = map (\<lambda>i. Some (po_clients p ! ((po_next p + 2 + i) mod ?n))) [0..<k]"
    using Suc.IH [of ?p] Suc.prems by (simp only: m Pool_Get_clients) simp
  then have "fst (Pool_Gets (Suc k) p) = Some (po_clients p ! ((po_next p + 1) mod ?n)) #
      map (\<lambda>i. Some (po_clients p ! ((po_next p + 2 + i) mod ?n))) [0..<k]"
    by (subst Pool_Gets.simps, subst g) (simp add: case_prod_beta)
  also have "\<dots> = map (\<lambda>i. Some (po_clients p ! ((po_next p + 1 + i) mod ?n))) (0 # map Suc [0..<k])"
    by simp
  also have "0 # map Suc [0..<k] = [0..<Suc k]" by (simp add: map_Suc_upt upt_conv_Cons)
  finally show ?case .
qed simp

text \<open>
  C25. Round robin: from any position, also one left behind by deletions, as many calls of \<open>Get\<close> as
  the pool has clients hand out every client exactly once, starting behind the current position and
  wrapping around.
\<close>

theorem pool_round_robin:
  "fst (Pool_Gets (length (po_clients p)) p) =
     map Some (rotate (po_next p + 1) (po_clients p))"
proof (cases "po_clients p = []")
  case False
  let ?n = "length (po_clients p)"
  have "rotate (po_next p + 1) (po_clients p) ! i = po_clients p ! ((po_next p + 1 + i) mod ?n)"
    if "i < ?n" for i
    using that by (simp only: nth_rotate)
  then have "map (\<lambda>i. Some (po_clients p ! ((po_next p + 1 + i) mod ?n))) [0..<?n] =
      map Some (rotate (po_next p + 1) (po_clients p))"
    by (intro nth_equalityI) simp_all
  with Pool_Gets_spec [OF False] show ?thesis by simp
qed simp

end
