(* ===== verification/Pool_Map.thy ===== *)
theory Pool_Map
  imports Bolt_Prelude "HOL-Library.AList"
begin

text \<open>
  \<open>PoolMap\<close> of src/sofabolt/pool_generated.go: the map from addresses to connection pools, in two
  levels. \<open>read\<close> is consulted without the lock; new keys go to \<open>dirty\<close>, which replaces \<open>read\<close>
  when it was missed often enough. The entries are shared by both levels through pointers: here
  they live in the list \<open>pm_ents\<close>, and a pointer is an index into it. A deleted entry is nil, or
  \<open>Expunged\<close> when it is absent from the dirty map.

  Each operation is modelled as it runs without interference from others (the compare-and-swap
  loops then succeed at once, and the second look at \<open>read\<close> under the lock sees the first one's
  map). Writing to a nil dirty map panics: \<open>None\<close>. Go maps are association lists; their order is
  one possible order of \<open>range\<close>.
\<close>

datatype 'v entry = Nil_entry | Expunged | Val 'v

record ('k, 'v) pool_map =
  pm_ents :: "'v entry list"
  pm_read :: "('k \<times> nat) list"
  pm_amended :: bool
  pm_dirty :: "('k \<times> nat) list option"
  pm_misses :: nat

definition pm_New :: "('k, 'v) pool_map" where
  "pm_New = \<lparr>pm_ents = [], pm_read = [], pm_amended = False, pm_dirty = None, pm_misses = 0\<rparr>"

definition dirty_list :: "('k, 'v) pool_map \<Rightarrow> ('k \<times> nat) list" where
  "dirty_list m = (case pm_dirty m of None \<Rightarrow> [] | Some d \<Rightarrow> d)"

text \<open>\<open>m.dirty[key] = e\<close>.\<close>

definition put_dirty :: "'k \<Rightarrow> nat \<Rightarrow> ('k, 'v) pool_map \<Rightarrow> ('k, 'v) pool_map option" where
  "put_dirty k e m =
     map_option (\<lambda>d. m\<lparr>pm_dirty := Some (AList.update k e d)\<rparr>) (pm_dirty m)"

subsection \<open>Entries\<close>

definition entry_load :: "('k, 'v) pool_map \<Rightarrow> nat \<Rightarrow> 'v option" where
  "entry_load m e = (case pm_ents m ! e of Val v \<Rightarrow> Some v | _ \<Rightarrow> None)"

definition set_entry :: "nat \<Rightarrow> 'v entry \<Rightarrow> ('k, 'v) pool_map \<Rightarrow> ('k, 'v) pool_map" where
  "set_entry e x m = m\<lparr>pm_ents := (pm_ents m)[e := x]\<rparr>"

definition tryStore :: "nat \<Rightarrow> 'v \<Rightarrow> ('k, 'v) pool_map \<Rightarrow> ('k, 'v) pool_map option" where
  "tryStore e v m =
     (case pm_ents m ! e of Expunged \<Rightarrow> None | _ \<Rightarrow> Some (set_entry e (Val v) m))"

definition unexpungeLocked :: "nat \<Rightarrow> ('k, 'v) pool_map \<Rightarrow> bool \<times> ('k, 'v) pool_map" where
  "unexpungeLocked e m =
     (case pm_ents m ! e of Expunged \<Rightarrow> (True, set_entry e Nil_entry m) | _ \<Rightarrow> (False, m))"

definition tryLoadOrStore ::
  "nat \<Rightarrow> 'v \<Rightarrow> ('k, 'v) pool_map \<Rightarrow> ('v \<times> bool \<times> ('k, 'v) pool_map) option" where
  "tryLoadOrStore e v m =
     (case pm_ents m ! e of
        Expunged \<Rightarrow> None
      | Val x \<Rightarrow> Some (x, True, m)
      | Nil_entry \<Rightarrow> Some (v, False, set_entry e (Val v) m))"

definition entry_delete :: "nat \<Rightarrow> ('k, 'v) pool_map \<Rightarrow> ('k, 'v) pool_map" where
  "entry_delete e m = (case pm_ents m ! e of Val v \<Rightarrow> set_entry e Nil_entry m | _ \<Rightarrow> m)"

subsection \<open>The two levels\<close>

definition missLocked :: "('k, 'v) pool_map \<Rightarrow> ('k, 'v) pool_map" where
  "missLocked m =
     (let m = m\<lparr>pm_misses := pm_misses m + 1\<rparr>
      in if pm_misses m < length (dirty_list m) then m
         else m\<lparr>pm_read := dirty_list m, pm_amended := False, pm_dirty := None, pm_misses := 0\<rparr>)"

definition tryExpungeLocked :: "nat \<Rightarrow> 'v entry list \<Rightarrow> bool \<times> 'v entry list" where
  "tryExpungeLocked e ents =
     (case ents ! e of
        Nil_entry \<Rightarrow> (True, ents[e := Expunged])
      | Expunged \<Rightarrow> (True, ents)
      | Val v \<Rightarrow> (False, ents))"

text \<open>The loop of \<open>dirtyLocked\<close> over \<open>read.m\<close>.\<close>

fun dirty_fill :: "('k \<times> nat) list \<Rightarrow> 'v entry list \<Rightarrow> 'v entry list \<times> ('k \<times> nat) list" where
  "dirty_fill [] ents = (ents, [])"
| "dirty_fill ((k, e) # r) ents =
     (let (expunged, ents) = tryExpungeLocked e ents; (ents, d) = dirty_fill r ents
      in (ents, if expunged then d else (k, e) # d))"

definition dirtyLocked :: "('k, 'v) pool_map \<Rightarrow> ('k, 'v) pool_map" where
  "dirtyLocked m =
     (if pm_dirty m \<noteq> None then m
      else let (ents, d) = dirty_fill (pm_read m) (pm_ents m)
           in m\<lparr>pm_ents := ents, pm_dirty := Some d\<rparr>)"

text \<open>The last branch of \<open>Store\<close> and \<open>LoadOrStore\<close>: a key that is in neither map.\<close>

definition add_dirty :: "'k \<Rightarrow> 'v \<Rightarrow> ('k, 'v) pool_map \<Rightarrow> ('k, 'v) pool_map option" where
  "add_dirty k v m =
     (let m = (if \<not> pm_amended m then (dirtyLocked m)\<lparr>pm_amended := True\<rparr> else m);
          e = length (pm_ents m)
      in put_dirty k e (m\<lparr>pm_ents := pm_ents m @ [Val v]\<rparr>))"

definition pm_Load :: "'k \<Rightarrow> ('k, 'v) pool_map \<Rightarrow> 'v option \<times> ('k, 'v) pool_map" where
  "pm_Load k m =
     (case map_of (pm_read m) k of
        Some e \<Rightarrow> (entry_load m e, m)
      | None \<Rightarrow>
          if pm_amended m
          then let e = map_of (dirty_list m) k; m = missLocked m
               in (case e of None \<Rightarrow> None | Some e \<Rightarrow> entry_load m e, m)
          else (None, m))"

definition pm_Store :: "'k \<Rightarrow> 'v \<Rightarrow> ('k, 'v) pool_map \<Rightarrow> ('k, 'v) pool_map option" where
  "pm_Store k v m =
     (case map_of (pm_read m) k of
        Some e \<Rightarrow>
          (case tryStore e v m of
             Some m \<Rightarrow> Some m
           | None \<Rightarrow>
               (let (was, m) = unexpungeLocked e m
                in map_option (set_entry e (Val v)) (if was then put_dirty k e m else Some m)))
      | None \<Rightarrow>
          (case map_of (dirty_list m) k of
             Some e \<Rightarrow> Some (set_entry e (Val v) m)
           | None \<Rightarrow> add_dirty k v m))"

definition pm_LoadOrStore ::
  "'k \<Rightarrow> 'v \<Rightarrow> ('k, 'v) pool_map \<Rightarrow> ('v \<times> bool \<times> ('k, 'v) pool_map) option" where
  "pm_LoadOrStore k v m =
     (case map_of (pm_read m) k of
        Some e \<Rightarrow>
          (case tryLoadOrStore e v m of
             Some res \<Rightarrow> Some res
           | None \<Rightarrow>
               (let (was, m) = unexpungeLocked e m
                in Option.bind (if was then put_dirty k e m else Some m) (tryLoadOrStore e v)))
      | None \<Rightarrow>
          (case map_of (dirty_list m) k of
             Some e \<Rightarrow>
               map_option (\<lambda>(x, loaded, m). (x, loaded, missLocked m)) (tryLoadOrStore e v m)
           | None \<Rightarrow> map_option (\<lambda>m. (v, False, m)) (add_dirty k v m)))"

definition pm_Delete :: "'k \<Rightarrow> ('k, 'v) pool_map \<Rightarrow> ('k, 'v) pool_map" where
  "pm_Delete k m =
     (case map_of (pm_read m) k of
        Some e \<Rightarrow> entry_delete e m
      | None \<Rightarrow>
          if pm_amended m then m\<lparr>pm_dirty := map_option (AList.delete k) (pm_dirty m)\<rparr> else m)"

text \<open>\<open>Range\<close> with a callback that always goes on: the calls it makes, and the map afterwards.\<close>

definition pm_Range :: "('k, 'v) pool_map \<Rightarrow> ('k \<times> 'v) list \<times> ('k, 'v) pool_map" where
  "pm_Range m =
     (let m = (if pm_amended m
               then m\<lparr>pm_read := dirty_list m, pm_amended := False, pm_dirty := None, pm_misses := 0\<rparr>
               else m)
      in (List.map_filter (\<lambda>(k, e). map_option (Pair k) (entry_load m e)) (pm_read m), m))"

subsection \<open>The invariant and the contents\<close>

definition pm_abs :: "('k, 'v) pool_map \<Rightarrow> 'k \<Rightarrow> 'v option" where
  "pm_abs m k =
     (case map_of (pm_read m) k of
        Some e \<Rightarrow> entry_load m e
      | None \<Rightarrow> (case map_of (dirty_list m) k of Some e \<Rightarrow> entry_load m e | None \<Rightarrow> None))"

text \<open>Key \<open>k\<close> refers to entry \<open>e\<close> in one of the maps.\<close>

definition refers :: "('k, 'v) pool_map \<Rightarrow> 'k \<Rightarrow> nat \<Rightarrow> bool" where
  "refers m k e \<longleftrightarrow> map_of (pm_read m) k = Some e \<or> map_of (dirty_list m) k = Some e"

definition pm_inv :: "('k, 'v) pool_map \<Rightarrow> bool" where
  "pm_inv m \<longleftrightarrow>
     distinct (map fst (pm_read m)) \<and> distinct (map fst (dirty_list m)) \<and>
     pm_amended m = (pm_dirty m \<noteq> None) \<and>
     (\<forall>k e. refers m k e \<longrightarrow> e < length (pm_ents m)) \<and>
     (\<forall>k k' e. refers m k e \<longrightarrow> refers m k' e \<longrightarrow> k = k') \<and>
     (\<forall>k e. map_of (dirty_list m) k = Some e \<longrightarrow> pm_ents m ! e \<noteq> Expunged) \<and>
     (\<forall>k e. map_of (pm_read m) k = Some e \<longrightarrow>
        (if pm_ents m ! e = Expunged then pm_dirty m \<noteq> None \<and> map_of (dirty_list m) k = None
         else pm_dirty m \<noteq> None \<longrightarrow> map_of (dirty_list m) k = Some e))"

text \<open>The contract of a concurrent map, in terms of its contents.\<close>

locale map_contract =
  fixes load :: "'k \<Rightarrow> 'm \<Rightarrow> 'v option \<times> 'm"
    and store :: "'k \<Rightarrow> 'v \<Rightarrow> 'm \<Rightarrow> 'm option"
    and load_or_store :: "'k \<Rightarrow> 'v \<Rightarrow> 'm \<Rightarrow> ('v \<times> bool \<times> 'm) option"
    and delete :: "'k \<Rightarrow> 'm \<Rightarrow> 'm"
    and range :: "'m \<Rightarrow> ('k \<times> 'v) list \<times> 'm"
    and abs :: "'m \<Rightarrow> 'k \<Rightarrow> 'v option"
    and inv :: "'m \<Rightarrow> bool"
  assumes load: "inv m \<Longrightarrow> load k m = (x, m') \<Longrightarrow> inv m' \<and> abs m' = abs m \<and> x = abs m k"
    and store: "inv m \<Longrightarrow> \<exists>m'. store k v m = Some m' \<and> inv m' \<and> abs m' = (abs m)(k \<mapsto> v)"
    and load_or_store: "inv m \<Longrightarrow> \<exists>m'. load_or_store k v m =
        Some (case abs m k of None \<Rightarrow> (v, False, m') | Some x \<Rightarrow> (x, True, m')) \<and> inv m' \<and>
      abs m' = (case abs m k of None \<Rightarrow> (abs m)(k \<mapsto> v) | Some x \<Rightarrow> abs m)"
    and delete: "inv m \<Longrightarrow> inv (delete k m) \<and> abs (delete k m) = (abs m)(k := None)"
    and range: "inv m \<Longrightarrow> range m = (kvs, m') \<Longrightarrow>
      inv m' \<and> abs m' = abs m \<and> map_of kvs = abs m \<and> distinct (map fst kvs)"
begin

lemma load_after_load_or_store:
  assumes "inv m" and "load_or_store k v m = Some (x, loaded, m')"
  shows "fst (load k m') = Some x"
proof -
  obtain m1 where "load_or_store k v m =
      Some (case abs m k of None \<Rightarrow> (v, False, m1) | Some x \<Rightarrow> (x, True, m1))" and i: "inv m1"
    and a: "abs m1 = (case abs m k of None \<Rightarrow> (abs m)(k \<mapsto> v) | Some x \<Rightarrow> abs m)"
    using load_or_store [OF assms(1)] by blast
  with assms(2) have "m1 = m'" and "abs m' k = Some x" by (auto split: option.splits)
  with load [OF i, of k] show ?thesis by (cases "load k m'") auto
qed

lemma load_fst: "inv m \<Longrightarrow> fst (load k m) = abs m k"
  using load [of m k] by (cases "load k m") auto

lemma load_snd: "inv m \<Longrightarrow> inv (snd (load k m)) \<and> abs (snd (load k m)) = abs m"
  using load [of m k] by (cases "load k m") auto

end

subsection \<open>Steps that keep the invariant\<close>

definition entry_val :: "'v entry \<Rightarrow> 'v option" where
  "entry_val x = (case x of Val v \<Rightarrow> Some v | _ \<Rightarrow> None)"

definition loc :: "('k, 'v) pool_map \<Rightarrow> 'k \<Rightarrow> nat option" where
  "loc m k = (case map_of (pm_read m) k of Some e \<Rightarrow> Some e | None \<Rightarrow> map_of (dirty_list m) k)"

lemma entry_val_simps [simp]:
  "entry_val (Val v) = Some v" "entry_val Nil_entry = None" "entry_val Expunged = None"
  by (simp_all add: entry_val_def)

lemma entry_load_val: "entry_load m e = entry_val (pm_ents m ! e)"
  by (simp add: entry_load_def entry_val_def)

lemma pm_abs_loc: "pm_abs m k = Option.bind (loc m k) (entry_load m)"
  by (auto simp: pm_abs_def loc_def split: option.split)

lemma loc_refers: "loc m k = Some e \<Longrightarrow> refers m k e"
  by (auto simp: loc_def refers_def split: option.splits)

lemma dirty_list_simps [simp]:
  "dirty_list (m\<lparr>pm_ents := x\<rparr>) = dirty_list m" "dirty_list (m\<lparr>pm_read := r\<rparr>) = dirty_list m"
  "dirty_list (m\<lparr>pm_amended := b\<rparr>) = dirty_list m" "dirty_list (m\<lparr>pm_misses := n\<rparr>) = dirty_list m"
  "dirty_list (m\<lparr>pm_dirty := Some d\<rparr>) = d" "dirty_list (m\<lparr>pm_dirty := None\<rparr>) = []"
  by (simp_all add: dirty_list_def)

lemma pm_invD:
  assumes "pm_inv m"
  shows "distinct (map fst (pm_read m))" and "distinct (map fst (dirty_list m))"
    and "pm_amended m = (pm_dirty m \<noteq> None)"
    and "refers m k e \<Longrightarrow> e < length (pm_ents m)"
    and "refers m k e \<Longrightarrow> refers m k' e \<Longrightarrow> k = k'"
    and "map_of (dirty_list m) k = Some e \<Longrightarrow> pm_ents m ! e \<noteq> Expunged"
    and "map_of (pm_read m) k = Some e \<Longrightarrow> pm_ents m ! e = Expunged \<Longrightarrow>
      pm_dirty m \<noteq> None \<and> map_of (dirty_list m) k = None"
    and "map_of (pm_read m) k = Some e \<Longrightarrow> pm_ents m ! e \<noteq> Expunged \<Longrightarrow> pm_dirty m \<noteq> None \<Longrightarrow>
      map_of (dirty_list m) k = Some e"
  using assms unfolding pm_inv_def by metis+

lemma pm_invI:
  assumes "distinct (map fst (pm_read m))" and "distinct (map fst (dirty_list m))"
    and "pm_amended m = (pm_dirty m \<noteq> None)"
    and "\<And>k e. refers m k e \<Longrightarrow> e < length (pm_ents m)"
    and "\<And>k k' e. refers m k e \<Longrightarrow> refers m k' e \<Longrightarrow> k = k'"
    and "\<And>k e. map_of (dirty_list m) k = Some e \<Longrightarrow> pm_ents m ! e \<noteq> Expunged"
    and "\<And>k e. map_of (pm_read m) k = Some e \<Longrightarrow> pm_ents m ! e = Expunged \<Longrightarrow>
      pm_dirty m \<noteq> None \<and> map_of (dirty_list m) k = None"
    and "\<And>k e. map_of (pm_read m) k = Some e \<Longrightarrow> pm_ents m ! e \<noteq> Expunged \<Longrightarrow>
      pm_dirty m \<noteq> None \<Longrightarrow> map_of (dirty_list m) k = Some e"
  shows "pm_inv m"
  unfolding pm_inv_def using assms(1-6)
  by (intro conjI allI impI) (blast | simp add: assms(7,8))+

lemma set_entry_simps [simp]:
  "pm_read (set_entry e x m) = pm_read m" "pm_dirty (set_entry e x m) = pm_dirty m"
  "dirty_list (set_entry e x m) = dirty_list m" "pm_amended (set_entry e x m) = pm_amended m"
  "length (pm_ents (set_entry e x m)) = length (pm_ents m)"
  "loc (set_entry e x m) = loc m" "refers (set_entry e x m) = refers m"
  "pm_ents (set_entry e x m) = (pm_ents m)[e := x]"
  by (auto simp: set_entry_def loc_def refers_def fun_eq_iff split: option.split)

lemma inv_set_entry:
  assumes "pm_inv m" and "pm_ents m ! e \<noteq> Expunged" and "x \<noteq> Expunged"
  shows "pm_inv (set_entry e x m)"
proof -
  have ex: "(pm_ents m)[e := x] ! i = Expunged \<longleftrightarrow> pm_ents m ! i = Expunged" for i
    using assms(2,3)
    by (cases "i = e"; cases "e < length (pm_ents m)") (simp_all add: not_less list_update_beyond)
  show ?thesis
    using pm_invD [OF assms(1)] by (intro pm_invI) (simp_all add: ex)
qed

lemma abs_set_entry:
  assumes "pm_inv m" and "loc m k = Some e"
  shows "pm_abs (set_entry e x m) = (pm_abs m)(k := entry_val x)"
proof
  fix k'
  have "e < length (pm_ents m)" using pm_invD(4) [OF assms(1)] loc_refers [OF assms(2)] by blast
  moreover have "loc m k' = Some e \<Longrightarrow> k' = k"
    using pm_invD(5) [OF assms(1)] loc_refers assms(2) by metis
  ultimately show "pm_abs (set_entry e x m) k' = ((pm_abs m)(k := entry_val x)) k'"
    using assms(2) by (cases "loc m k'") (auto simp: pm_abs_loc entry_load_val nth_list_update)
qed

text \<open>Promotion of the dirty map.\<close>

definition promote :: "('k, 'v) pool_map \<Rightarrow> ('k, 'v) pool_map" where
  "promote m = m\<lparr>pm_read := dirty_list m, pm_amended := False, pm_dirty := None, pm_misses := 0\<rparr>"

lemma inv_promote:
  assumes "pm_inv m" and "pm_amended m"
  shows "pm_inv (promote m)" and "pm_abs (promote m) = pm_abs m"
proof -
  note inv = pm_invD [OF assms(1)]
  have d: "pm_dirty m \<noteq> None" using assms inv(3) by simp
  have dl: "dirty_list (promote m) = []" by (simp add: promote_def dirty_list_def)
  show "pm_inv (promote m)"
  proof (intro pm_invI)
    fix k e assume "refers (promote m) k e"
    then have "refers m k e" by (simp add: refers_def promote_def dl)
    then show "e < length (pm_ents (promote m))" using inv(4) by (simp add: promote_def)
  next
    fix k k' e assume "refers (promote m) k e" and "refers (promote m) k' e"
    then have "refers m k e" and "refers m k' e" by (simp_all add: refers_def promote_def dl)
    then show "k = k'" by (rule inv(5))
  qed (use inv in \<open>auto simp: promote_def dl\<close>)
  show "pm_abs (promote m) = pm_abs m"
  proof
    fix k show "pm_abs (promote m) k = pm_abs m k"
    proof (cases "map_of (pm_read m) k")
      case None
      then show ?thesis
        by (auto simp: pm_abs_def promote_def entry_load_val dirty_list_def split: option.split)
    next
      case (Some e)
      then show ?thesis
        using inv(7) [OF Some] inv(8) [OF Some _ d]
        by (cases "pm_ents m ! e = Expunged")
           (auto simp: pm_abs_def promote_def entry_load_val dirty_list_def split: option.split)
    qed
  qed
qed

lemma inv_missLocked:
  assumes "pm_inv m" and "pm_amended m"
  shows "pm_inv (missLocked m) \<and> pm_abs (missLocked m) = pm_abs m"
proof -
  let ?m = "m\<lparr>pm_misses := pm_misses m + 1\<rparr>"
  have "pm_inv ?m" using pm_invD [OF assms(1)] by (intro pm_invI) (auto simp: refers_def)
  moreover have "pm_abs ?m = pm_abs m" by (auto simp: pm_abs_def entry_load_def fun_eq_iff split: option.split)
  moreover have "missLocked m = (if pm_misses ?m < length (dirty_list ?m) then ?m else promote ?m)"
    by (simp add: missLocked_def promote_def Let_def)
  ultimately show ?thesis using inv_promote [of ?m] assms(2) by simp
qed

text \<open>A fresh dirty map.\<close>

lemma dirty_fill_spec:
  "dirty_fill r ents = (ents', d) \<Longrightarrow>
   length ents' = length ents \<and>
   (\<forall>e. ents' ! e = (if e \<in> snd ` set r \<and> e < length ents \<and> ents ! e = Nil_entry then Expunged
                     else ents ! e)) \<and>
   d = filter (\<lambda>(k, e). entry_val (ents ! e) \<noteq> None) r"
proof (induction r arbitrary: ents ents' d)
  case (Cons ke r)
  obtain k e where ke: "ke = (k, e)" by fastforce
  note run = Cons.prems [unfolded ke dirty_fill.simps tryExpungeLocked_def]
  show ?case
  proof (cases "ents ! e")
    case Nil_entry
    have u: "ents[e := Expunged] ! i = (if i = e \<and> e < length ents then Expunged else ents ! i)"
      for i by (cases "i = e"; cases "e < length ents") (simp_all add: not_less list_update_beyond)
    have v: "entry_val (ents[e := Expunged] ! i) = entry_val (ents ! i)" for i
      using Nil_entry by (simp add: u)
    have f: "dirty_fill r (ents[e := Expunged]) = (ents', d)"
      using run Nil_entry by (simp split: prod.splits)
    have "length ents' = length ents" and d: "d = filter (\<lambda>(k, e). entry_val (ents ! e) \<noteq> None) r"
      and ents': "ents' ! i = (if i \<in> snd ` set r \<and> i < length ents \<and>
          ents[e := Expunged] ! i = Nil_entry then Expunged else ents[e := Expunged] ! i)" for i
      using Cons.IH [OF f] by (simp_all add: v)
    with Nil_entry show ?thesis by (auto simp: u ke)
  next
    case Expunged
    with run Cons.IH [of ents ents' d] show ?thesis by (auto simp: ke split: prod.splits)
  next
    case (Val v)
    with run Cons.IH [of ents ents'] show ?thesis by (auto simp: ke split: prod.splits)
  qed
qed auto

lemma map_of_filter_val:
  "distinct (map fst r) \<Longrightarrow>
   map_of (filter (\<lambda>(k, e). P e) r) k =
     (case map_of r k of Some e \<Rightarrow> if P e then Some e else None | None \<Rightarrow> None)"
  by (induction r) (auto split: option.splits dest: map_of_SomeD intro!: map_of_eq_None_iff [THEN iffD2])

lemma inv_dirtyLocked:
  assumes "pm_inv m" and "\<not> pm_amended m"
  defines "m' \<equiv> (dirtyLocked m)\<lparr>pm_amended := True\<rparr>"
  shows "pm_inv m'" and "pm_abs m' = pm_abs m" and "pm_dirty m' \<noteq> None"
    and "pm_read m' = pm_read m" and "map_of (pm_read m) k = None \<Longrightarrow> map_of (dirty_list m') k = None"
proof -
  note inv = pm_invD [OF assms(1)]
  have nd: "pm_dirty m = None" using inv(3) assms(2) by simp
  then have dl0: "dirty_list m = []" by (simp add: dirty_list_def)
  obtain ents d where f: "dirty_fill (pm_read m) (pm_ents m) = (ents, d)" by fastforce
  note spec = dirty_fill_spec [OF f]
  have m': "m' = m\<lparr>pm_ents := ents, pm_dirty := Some d, pm_amended := True\<rparr>"
    by (simp add: m'_def dirtyLocked_def nd f)
  have dl: "dirty_list m' = d" by (simp add: m' dirty_list_def)
  have D: "map_of d k = (case map_of (pm_read m) k of
      Some e \<Rightarrow> if entry_val (pm_ents m ! e) \<noteq> None then Some e else None | None \<Rightarrow> None)" for k
    using spec map_of_filter_val [OF inv(1), of "\<lambda>e. entry_val (pm_ents m ! e) \<noteq> None"] by simp
  have not_ex: "pm_ents m ! e \<noteq> Expunged" if "map_of (pm_read m) k = Some e" for k e
    using inv(7) [OF that] nd by blast
  have lt: "e < length (pm_ents m)" if "map_of (pm_read m) k = Some e" for k e
    using inv(4) [of k e] that by (simp add: refers_def)
  have E: "ents ! e = (if pm_ents m ! e = Nil_entry then Expunged else pm_ents m ! e)"
    if "map_of (pm_read m) k = Some e" for k e
    using spec lt [OF that] map_of_SomeD [OF that] by (force intro: rev_image_eqI)
  have ref: "refers m' k e \<longleftrightarrow> map_of (pm_read m) k = Some e" for k e
    using D [of k] by (auto simp: refers_def dl m' split: option.splits if_splits)
  show "pm_inv m'"
  proof (rule pm_invI)
    show "distinct (map fst (dirty_list m'))"
      using spec inv(1) by (simp add: dl distinct_map_filter)
  next
    fix k e assume "refers m' k e"
    then have "map_of (pm_read m) k = Some e" unfolding ref .
    then show "e < length (pm_ents m')" using lt spec by (simp add: m')
  next
    fix k k' e assume "refers m' k e" and "refers m' k' e"
    then have "map_of (pm_read m) k = Some e" and "map_of (pm_read m) k' = Some e"
      unfolding ref by simp_all
    then have "refers m k e" and "refers m k' e" by (simp_all add: refers_def)
    then show "k = k'" by (rule inv(5))
  next
    fix k e assume "map_of (dirty_list m') k = Some e"
    then have r: "map_of (pm_read m) k = Some e" and "entry_val (pm_ents m ! e) \<noteq> None"
      using D [of k] by (auto simp: dl split: option.splits if_splits)
    with E [OF r] show "pm_ents m' ! e \<noteq> Expunged" by (auto simp: m' split: if_splits)
  next
    fix k e assume "map_of (pm_read m') k = Some e" and x: "pm_ents m' ! e = Expunged"
    then have r: "map_of (pm_read m) k = Some e" by (simp add: m')
    with E [OF r] not_ex [OF r] x D [of k]
    show "pm_dirty m' \<noteq> None \<and> map_of (dirty_list m') k = None" by (auto simp: m' split: if_splits)
  next
    fix k e assume "map_of (pm_read m') k = Some e" and x: "pm_ents m' ! e \<noteq> Expunged"
    then have r: "map_of (pm_read m) k = Some e" by (simp add: m')
    with E [OF r] not_ex [OF r] x D [of k]
    show "map_of (dirty_list m') k = Some e"
      by (cases "pm_ents m ! e") (auto simp: m' dl split: if_splits)
  qed (use inv(1) in \<open>simp_all add: m'\<close>)
  show "pm_abs m' = pm_abs m"
  proof
    fix k show "pm_abs m' k = pm_abs m k"
      using E [of k] D [of k]
      by (cases "map_of (pm_read m) k") (auto simp: pm_abs_def entry_load_val dl dl0 m')
  qed
  show "pm_dirty m' \<noteq> None" "pm_read m' = pm_read m" by (simp_all add: m')
  show "map_of (pm_read m) k = None \<Longrightarrow> map_of (dirty_list m') k = None" using D [of k] by (simp add: dl)
qed

lemma put_new_entry:
  fixes v :: 'v
  assumes "pm_inv m" and "pm_dirty m = Some d" and "map_of (pm_read m) k = None"
    and "map_of (dirty_list m) k = None"
  defines "e \<equiv> length (pm_ents m)"
  defines "m' \<equiv> m\<lparr>pm_ents := pm_ents m @ [Val v], pm_dirty := Some (AList.update k e d)\<rparr>"
  shows "pm_inv m'" and "pm_abs m' = (pm_abs m)(k \<mapsto> v)"
proof -
  note inv = pm_invD [OF assms(1)]
  have dl: "dirty_list m = d" and dl': "dirty_list m' = AList.update k e d"
    by (simp_all add: dirty_list_def assms(2) m'_def)
  have D: "map_of (dirty_list m') = (map_of d)(k \<mapsto> e)" by (simp add: dl' update_conv')
  have ref: "refers m' k' i \<longleftrightarrow> (if k' = k then i = e else refers m k' i)" for k' i
  proof -
    have "pm_read m' = pm_read m" by (simp add: m'_def)
    then show ?thesis using assms(3,4) by (auto simp: refers_def D dl)
  qed
  have lt: "refers m k' i \<Longrightarrow> i < e" for k' i using inv(4) by (simp add: e_def)
  have old: "i < e \<Longrightarrow> pm_ents m' ! i = pm_ents m ! i" and new: "pm_ents m' ! e = Val v" for i
    by (simp_all add: m'_def e_def nth_append)
  have rd: "map_of (pm_read m) k' = Some i \<Longrightarrow> i < e" and dd: "map_of d k' = Some i \<Longrightarrow> i < e" for k' i
    using lt [of k' i] by (simp_all add: refers_def dl)
  show "pm_inv m'"
  proof (rule pm_invI)
    show "distinct (map fst (dirty_list m'))" using inv(2) by (simp add: dl dl' distinct_update)
  next
    fix k1 k2 i assume "refers m' k1 i" and "refers m' k2 i"
    moreover have "\<not> refers m k' e" for k' using lt [of k' e] by auto
    ultimately show "k1 = k2" using inv(5) [of k1 i k2] by (auto simp: ref split: if_splits)
  next
    fix k' i assume "refers m' k' i"
    then have "i = e \<or> refers m k' i" by (simp add: ref split: if_splits)
    then have "i \<le> e" using lt by fastforce
    then show "i < length (pm_ents m')" by (simp add: m'_def e_def)
  next
    fix k' i assume "map_of (dirty_list m') k' = Some i"
    then show "pm_ents m' ! i \<noteq> Expunged"
      using inv(6) [of k' i] dd [of k' i] new old [of i] by (auto simp: D dl split: if_splits)
  next
    fix k' i assume "map_of (pm_read m') k' = Some i" and "pm_ents m' ! i = Expunged"
    moreover from this have r: "map_of (pm_read m) k' = Some i" by (simp add: m'_def)
    ultimately show "pm_dirty m' \<noteq> None \<and> map_of (dirty_list m') k' = None"
      using inv(7) [OF r] old [OF rd [OF r]] assms(3) by (auto simp: D dl) (simp add: m'_def)
  next
    fix k' i assume "map_of (pm_read m') k' = Some i" and "pm_ents m' ! i \<noteq> Expunged"
    moreover from this have r: "map_of (pm_read m) k' = Some i" by (simp add: m'_def)
    ultimately show "map_of (dirty_list m') k' = Some i"
      using inv(8) [OF r] old [OF rd [OF r]] assms(2,3) by (auto simp: D dl)
  qed (use inv(1,3) assms(2) in \<open>auto simp: m'_def\<close>)
  show "pm_abs m' = (pm_abs m)(k \<mapsto> v)"
  proof
    fix k'
    have "pm_read m' = pm_read m" by (simp add: m'_def)
    then show "pm_abs m' k' = ((pm_abs m)(k \<mapsto> v)) k'"
      using assms(3) new old rd [of k'] dd [of k']
      by (cases "map_of (pm_read m) k'"; cases "map_of d k'")
         (auto simp: pm_abs_def D dl entry_load_val)
  qed
qed

text \<open>An expunged entry that is brought back into the dirty map.\<close>

lemma inv_unexpunge:
  assumes "pm_inv m" and r: "map_of (pm_read m) k = Some e" and x: "pm_ents m ! e = Expunged"
    and y: "y \<noteq> Expunged" and d: "pm_dirty m = Some d"
  defines "m' \<equiv> m\<lparr>pm_ents := (pm_ents m)[e := y], pm_dirty := Some (AList.update k e d)\<rparr>"
  shows "pm_inv m'" and "pm_abs m' = (pm_abs m)(k := entry_val y)"
proof -
  note inv = pm_invD [OF assms(1)]
  have dl: "dirty_list m = d" and dl': "dirty_list m' = AList.update k e d"
    by (simp_all add: dirty_list_def d m'_def)
  have D: "map_of (dirty_list m') = (map_of d)(k \<mapsto> e)" by (simp add: dl' update_conv')
  have rd: "pm_read m' = pm_read m" by (simp add: m'_def)
  have ref: "refers m' k' i \<longleftrightarrow> refers m k' i" for k' i
    using r inv(7) [OF r x] by (auto simp: refers_def D dl rd)
  have own: "refers m k' e \<longleftrightarrow> k' = k" for k'
    using inv(5) [of k' e k] r by (auto simp: refers_def)
  have lt: "e < length (pm_ents m)" using inv(4) [of k e] r by (simp add: refers_def)
  have E: "pm_ents m' ! i = (if i = e then y else pm_ents m ! i)" for i
    using lt by (simp add: m'_def nth_list_update)
  have ne: "k' \<noteq> k \<Longrightarrow> map_of (pm_read m) k' = Some i \<Longrightarrow> i \<noteq> e"
    and ned: "k' \<noteq> k \<Longrightarrow> map_of d k' = Some i \<Longrightarrow> i \<noteq> e" for k' i
    using own [of k'] by (auto simp: refers_def dl)
  show "pm_inv m'"
  proof (rule pm_invI)
    show "distinct (map fst (dirty_list m'))" using inv(2) by (simp add: dl dl' distinct_update)
  next
    fix k' i assume "map_of (dirty_list m') k' = Some i"
    then show "pm_ents m' ! i \<noteq> Expunged"
      using inv(6) [of k' i] y by (auto simp: D dl E split: if_splits)
  next
    fix k' i assume "map_of (pm_read m') k' = Some i" and "pm_ents m' ! i = Expunged"
    moreover from this have "k' \<noteq> k" and "i \<noteq> e" using r y by (auto simp: rd E)
    ultimately show "pm_dirty m' \<noteq> None \<and> map_of (dirty_list m') k' = None"
      using inv(7) [of k' i] by (simp add: rd E D dl) (simp add: m'_def)
  next
    fix k' i assume "map_of (pm_read m') k' = Some i" and "pm_ents m' ! i \<noteq> Expunged"
    then show "map_of (dirty_list m') k' = Some i"
      using inv(8) [of k' i] r d ne [of k' i] by (cases "k' = k") (simp_all add: rd E D dl)
  next
    fix k' i assume "refers m' k' i"
    then have "i < length (pm_ents m)" using inv(4) by (simp add: ref)
    then show "i < length (pm_ents m')" by (simp add: m'_def)
  next
    fix k1 k2 i assume "refers m' k1 i" and "refers m' k2 i"
    then show "k1 = k2" using inv(5) by (simp add: ref)
  qed (use inv(1,3) d in \<open>simp_all add: m'_def\<close>)
  show "pm_abs m' = (pm_abs m)(k := entry_val y)"
  proof
    fix k' show "pm_abs m' k' = ((pm_abs m)(k := entry_val y)) k'"
    proof (cases "k' = k")
      case True
      with r show ?thesis by (simp add: pm_abs_def rd entry_load_val E)
    next
      case False
      with ne [of k'] ned [of k'] show ?thesis
        by (cases "map_of (pm_read m) k'"; cases "map_of d k'")
           (auto simp: pm_abs_def rd D dl entry_load_val E)
    qed
  qed
qed

lemma add_dirty_ok:
  assumes "pm_inv m" and "map_of (pm_read m) k = None" and "map_of (dirty_list m) k = None"
  shows "\<exists>m'. add_dirty k v m = Some m' \<and> pm_inv m' \<and> pm_abs m' = (pm_abs m)(k \<mapsto> v)"
proof (cases "pm_amended m")
  case True
  then obtain d where d: "pm_dirty m = Some d" using pm_invD(3) [OF assms(1)] by auto
  have "add_dirty k v m = Some (m\<lparr>pm_ents := pm_ents m @ [Val v],
      pm_dirty := Some (AList.update k (length (pm_ents m)) d)\<rparr>)"
    by (simp add: add_dirty_def put_dirty_def True d)
  with put_new_entry [OF assms(1) d assms(2,3), of v] show ?thesis by blast
next
  case False
  define n where "n = (dirtyLocked m)\<lparr>pm_amended := True\<rparr>"
  note n = inv_dirtyLocked [OF assms(1) False, folded n_def]
  then obtain d where d: "pm_dirty n = Some d" by auto
  have "add_dirty k v m = Some (n\<lparr>pm_ents := pm_ents n @ [Val v],
      pm_dirty := Some (AList.update k (length (pm_ents n)) d)\<rparr>)"
    using d by (simp add: add_dirty_def put_dirty_def False n_def Let_def)
  with put_new_entry [OF n(1) d, of k v] n(2,4,5) assms(2) show ?thesis by auto
qed

subsection \<open>The operations meet the contract\<close>

lemma pm_Load_ok:
  assumes "pm_inv m" and "pm_Load k m = (x, m')"
  shows "pm_inv m' \<and> pm_abs m' = pm_abs m \<and> x = pm_abs m k"
proof (cases "map_of (pm_read m) k")
  case (Some e)
  with assms show ?thesis by (auto simp: pm_Load_def pm_abs_def)
next
  case None
  show ?thesis
  proof (cases "pm_amended m")
    case True
    have m': "m' = missLocked m" using assms(2) None True by (simp add: pm_Load_def Let_def)
    have "pm_ents (missLocked m) = pm_ents m" by (simp add: missLocked_def Let_def)
    then have "x = pm_abs m k"
      using assms(2) None True
      by (auto simp: pm_Load_def pm_abs_def entry_load_def Let_def split: option.splits)
    with inv_missLocked [OF assms(1) True] show ?thesis by (simp add: m')
  next
    case False
    then have "dirty_list m = []" using pm_invD(3) [OF assms(1)] by (simp add: dirty_list_def)
    with assms None False show ?thesis by (simp add: pm_Load_def pm_abs_def)
  qed
qed

lemma loc_read: "map_of (pm_read m) k = Some e \<Longrightarrow> loc m k = Some e"
  and loc_dirty: "map_of (pm_read m) k = None \<Longrightarrow> loc m k = map_of (dirty_list m) k"
  by (simp_all add: loc_def)

lemma pm_Store_ok:
  assumes "pm_inv m"
  shows "\<exists>m'. pm_Store k v m = Some m' \<and> pm_inv m' \<and> pm_abs m' = (pm_abs m)(k \<mapsto> v)"
proof (cases "map_of (pm_read m) k")
  case r: (Some e)
  show ?thesis
  proof (cases "pm_ents m ! e = Expunged")
    case True
    then obtain d where d: "pm_dirty m = Some d" using pm_invD(7) [OF assms r] by auto
    have "pm_Store k v m =
        Some (m\<lparr>pm_ents := (pm_ents m)[e := Val v], pm_dirty := Some (AList.update k e d)\<rparr>)"
      by (simp add: pm_Store_def r tryStore_def unexpungeLocked_def True put_dirty_def set_entry_def d)
    with inv_unexpunge [OF assms r True _ d, of "Val v"] show ?thesis by simp
  next
    case False
    then have "pm_Store k v m = Some (set_entry e (Val v) m)"
      by (simp add: pm_Store_def r tryStore_def split: entry.split)
    with inv_set_entry [OF assms False, of "Val v"] abs_set_entry [OF assms loc_read [OF r]]
    show ?thesis by simp
  qed
next
  case r: None
  show ?thesis
  proof (cases "map_of (dirty_list m) k")
    case d: (Some e)
    then have "pm_Store k v m = Some (set_entry e (Val v) m)" by (simp add: pm_Store_def r)
    with inv_set_entry [OF assms pm_invD(6) [OF assms d], of "Val v"]
      abs_set_entry [OF assms, of k e "Val v"] loc_dirty [OF r] d
    show ?thesis by simp
  next
    case None
    with add_dirty_ok [OF assms r] show ?thesis by (simp add: pm_Store_def r)
  qed
qed

text \<open>\<open>tryLoadOrStore\<close> on an entry that is not expunged.\<close>

lemma tryLoadOrStore_ok:
  assumes "pm_inv m" and "loc m k = Some e" and "pm_ents m ! e \<noteq> Expunged"
  shows "\<exists>m'. tryLoadOrStore e v m =
      Some (case pm_abs m k of None \<Rightarrow> (v, False, m') | Some x \<Rightarrow> (x, True, m')) \<and> pm_inv m' \<and>
      pm_abs m' = (case pm_abs m k of None \<Rightarrow> (pm_abs m)(k \<mapsto> v) | Some x \<Rightarrow> pm_abs m) \<and>
      pm_amended m' = pm_amended m"
proof (cases "pm_ents m ! e")
  case Nil_entry
  then have "pm_abs m k = None" by (simp add: pm_abs_loc assms(2) entry_load_val)
  with Nil_entry inv_set_entry [OF assms(1,3), of "Val v"] abs_set_entry [OF assms(1,2), of "Val v"]
  show ?thesis by (simp add: tryLoadOrStore_def)
next
  case (Val x)
  then have "pm_abs m k = Some x" by (simp add: pm_abs_loc assms(2) entry_load_val)
  with Val assms(1) show ?thesis by (simp add: tryLoadOrStore_def)
qed (use assms(3) in simp)

lemma pm_LoadOrStore_ok:
  assumes "pm_inv m"
  shows "\<exists>m'. pm_LoadOrStore k v m =
      Some (case pm_abs m k of None \<Rightarrow> (v, False, m') | Some x \<Rightarrow> (x, True, m')) \<and> pm_inv m' \<and>
      pm_abs m' = (case pm_abs m k of None \<Rightarrow> (pm_abs m)(k \<mapsto> v) | Some x \<Rightarrow> pm_abs m)"
proof (cases "map_of (pm_read m) k")
  case r: (Some e)
  show ?thesis
  proof (cases "pm_ents m ! e = Expunged")
    case True
    then obtain d where d: "pm_dirty m = Some d" using pm_invD(7) [OF assms r] by auto
    have lt: "e < length (pm_ents m)"
      using pm_invD(4) [OF assms, of k e] r by (simp add: refers_def)
    have "pm_abs m k = None" by (simp add: pm_abs_loc loc_read [OF r] entry_load_val True)
    moreover have "pm_LoadOrStore k v m = Some (v, False,
        m\<lparr>pm_ents := (pm_ents m)[e := Val v], pm_dirty := Some (AList.update k e d)\<rparr>)"
      by (simp add: pm_LoadOrStore_def r tryLoadOrStore_def unexpungeLocked_def True put_dirty_def
          set_entry_def d lt)
    ultimately show ?thesis using inv_unexpunge [OF assms r True _ d, of "Val v"] by simp
  next
    case False
    from tryLoadOrStore_ok [OF assms loc_read [OF r] False, of v] show ?thesis
      by (auto simp: pm_LoadOrStore_def r)
  qed
next
  case r: None
  show ?thesis
  proof (cases "map_of (dirty_list m) k")
    case d: (Some e)
    then have am: "pm_amended m"
      using pm_invD(3) [OF assms] by (auto simp: dirty_list_def split: option.splits)
    have l: "loc m k = Some e" using loc_dirty [OF r] d by simp
    from tryLoadOrStore_ok [OF assms l pm_invD(6) [OF assms d], of v] obtain m1 where
      "tryLoadOrStore e v m =
        Some (case pm_abs m k of None \<Rightarrow> (v, False, m1) | Some x \<Rightarrow> (x, True, m1))"
      and "pm_inv m1" and "pm_amended m1"
      and "pm_abs m1 = (case pm_abs m k of None \<Rightarrow> (pm_abs m)(k \<mapsto> v) | Some x \<Rightarrow> pm_abs m)"
      using am by auto
    with inv_missLocked [of m1] show ?thesis
      by (auto simp: pm_LoadOrStore_def r d split: option.split)
  next
    case None
    then have "pm_abs m k = None" by (simp add: pm_abs_loc loc_dirty [OF r])
    with None add_dirty_ok [OF assms r None, of v] show ?thesis by (auto simp: pm_LoadOrStore_def r)
  qed
qed

lemma pm_Delete_ok:
  assumes "pm_inv m"
  shows "pm_inv (pm_Delete k m) \<and> pm_abs (pm_Delete k m) = (pm_abs m)(k := None)"
proof (cases "map_of (pm_read m) k")
  case r: (Some e)
  show ?thesis
  proof (cases "\<exists>v. pm_ents m ! e = Val v")
    case True
    then have "pm_Delete k m = set_entry e Nil_entry m" by (auto simp: pm_Delete_def r entry_delete_def)
    with True inv_set_entry [OF assms, of e Nil_entry] abs_set_entry [OF assms loc_read [OF r]]
    show ?thesis by auto
  next
    case False
    then have "pm_Delete k m = m" by (auto simp: pm_Delete_def r entry_delete_def split: entry.split)
    moreover have "pm_abs m k = None"
      using False by (cases "pm_ents m ! e") (auto simp: pm_abs_loc loc_read [OF r] entry_load_val)
    ultimately show ?thesis using assms by (simp add: fun_upd_idem)
  qed
next
  case r: None
  show ?thesis
  proof (cases "pm_dirty m")
    case None
    then have "pm_Delete k m = m" using pm_invD(3) [OF assms] by (simp add: pm_Delete_def r)
    moreover have "pm_abs m k = None" using None by (simp add: pm_abs_def r dirty_list_def)
    ultimately show ?thesis using assms by (simp add: fun_upd_idem)
  next
    case d: (Some d)
    then have m': "pm_Delete k m = m\<lparr>pm_dirty := Some (AList.delete k d)\<rparr>"
      using pm_invD(3) [OF assms] by (simp add: pm_Delete_def r)
    let ?m = "m\<lparr>pm_dirty := Some (AList.delete k d)\<rparr>"
    have dl: "dirty_list m = d" by (simp add: dirty_list_def d)
    have D: "map_of (dirty_list ?m) k' = (if k' = k then None else map_of d k')" for k'
      by (simp add: delete_conv')
    have sub: "refers ?m k' i \<Longrightarrow> refers m k' i" for k' i
      by (auto simp: refers_def D dl simp del: dirty_list_simps split: if_splits)
    note inv = pm_invD [OF assms]
    have "pm_inv ?m"
    proof (rule pm_invI)
      fix k' i assume "refers ?m k' i"
      then show "i < length (pm_ents ?m)" using inv(4) sub by auto
    next
      fix k1 k2 i assume "refers ?m k1 i" and "refers ?m k2 i"
      then show "k1 = k2" using inv(5) sub by blast
    next
      show "distinct (map fst (dirty_list ?m))" using inv(2) by (simp add: dl distinct_delete)
    next
      fix k' i assume "map_of (pm_read ?m) k' = Some i" and "pm_ents ?m ! i \<noteq> Expunged"
      then show "map_of (dirty_list ?m) k' = Some i"
        using inv(8) [of k' i] r by (cases "k' = k") (simp_all add: D dl d del: dirty_list_simps)
    qed (use inv d r in \<open>auto simp: D dl simp del: dirty_list_simps split: if_splits\<close>)
    moreover have "pm_abs ?m = (pm_abs m)(k := None)"
      using r by (auto simp: pm_abs_def D dl entry_load_def fun_eq_iff simp del: dirty_list_simps
          split: option.split)
    ultimately show ?thesis by (simp add: m')
  qed
qed

lemma map_of_map_filter:
  "distinct (map fst r) \<Longrightarrow>
   map_of (List.map_filter (\<lambda>(k, e). map_option (Pair k) (f e)) r) k = Option.bind (map_of r k) f \<and>
   distinct (map fst (List.map_filter (\<lambda>(k, e). map_option (Pair k) (f e)) r)) \<and>
   fst ` set (List.map_filter (\<lambda>(k, e). map_option (Pair k) (f e)) r) \<subseteq> fst ` set r"
proof (induction r)
  case (Cons a r)
  obtain k' e where a: "a = (k', e)" by fastforce
  have n: "map_of r k' = None" using Cons.prems by (simp add: a map_of_eq_None_iff)
  show ?case using Cons n by (cases "f e") (auto simp: a map_filter_simps)
qed (simp add: map_filter_simps)

lemma pm_Range_ok:
  assumes "pm_inv m" and "pm_Range m = (kvs, m')"
  shows "pm_inv m' \<and> pm_abs m' = pm_abs m \<and> map_of kvs = pm_abs m \<and> distinct (map fst kvs)"
proof -
  have m': "m' = (if pm_amended m then promote m else m)"
    and kvs: "kvs = List.map_filter (\<lambda>(k, e). map_option (Pair k) (entry_load m' e)) (pm_read m')"
    using assms(2) by (auto simp: pm_Range_def promote_def Let_def)
  have i: "pm_inv m'" and a: "pm_abs m' = pm_abs m"
    using inv_promote [OF assms(1)] assms(1) by (simp_all add: m')
  have "pm_dirty m' = None"
    using pm_invD(3) [OF assms(1)] by (auto simp: m' promote_def)
  then have "pm_abs m' k = Option.bind (map_of (pm_read m') k) (entry_load m')" for k
    by (simp add: pm_abs_def dirty_list_def split: option.split)
  then show ?thesis
    using map_of_map_filter [OF pm_invD(1) [OF i], of "entry_load m'"] i a by (auto simp: kvs fun_eq_iff)
qed

interpretation pm: map_contract pm_Load pm_Store pm_LoadOrStore pm_Delete pm_Range pm_abs pm_inv
  by unfold_locales
     (rule pm_Load_ok pm_Store_ok pm_LoadOrStore_ok pm_Delete_ok pm_Range_ok; assumption)+

lemma pm_New_inv: "pm_inv pm_New" and pm_New_abs: "pm_abs pm_New = Map.empty"
  by (auto simp: pm_inv_def pm_New_def refers_def dirty_list_def pm_abs_def fun_eq_iff)

subsection \<open>Sequences of operations\<close>

datatype ('k, 'v) map_op =
  Op_Load 'k | Op_Store 'k 'v | Op_LoadOrStore 'k 'v | Op_Delete 'k | Op_Range

text \<open>What the caller sees; of a range the pairs, whatever their order.\<close>

datatype ('k, 'v) map_result =
  Loaded "'v option" | Done | Got 'v bool | Ranged "'k \<Rightarrow> 'v option" bool

definition pm_step ::
  "('k, 'v) map_op \<Rightarrow> ('k, 'v) pool_map \<Rightarrow> (('k, 'v) map_result \<times> ('k, 'v) pool_map) option" where
  "pm_step op m =
     (case op of
        Op_Load k \<Rightarrow> (let (x, m) = pm_Load k m in Some (Loaded x, m))
      | Op_Store k v \<Rightarrow> map_option (Pair Done) (pm_Store k v m)
      | Op_LoadOrStore k v \<Rightarrow>
          map_option (\<lambda>(x, loaded, m). (Got x loaded, m)) (pm_LoadOrStore k v m)
      | Op_Delete k \<Rightarrow> Some (Done, pm_Delete k m)
      | Op_Range \<Rightarrow> (let (kvs, m) = pm_Range m in
                     Some (Ranged (map_of kvs) (distinct (map fst kvs)), m)))"

fun pm_run ::
  "('k, 'v) map_op list \<Rightarrow> ('k, 'v) pool_map \<Rightarrow> ('k, 'v) map_result list option" where
  "pm_run [] m = Some []"
| "pm_run (op # ops) m =
     (case pm_step op m of None \<Rightarrow> None | Some (r, m) \<Rightarrow> map_option (Cons r) (pm_run ops m))"

definition map_step ::
  "('k, 'v) map_op \<Rightarrow> ('k \<Rightarrow> 'v option) \<Rightarrow> ('k, 'v) map_result \<times> ('k \<Rightarrow> 'v option)" where
  "map_step op f =
     (case op of
        Op_Load k \<Rightarrow> (Loaded (f k), f)
      | Op_Store k v \<Rightarrow> (Done, f(k \<mapsto> v))
      | Op_LoadOrStore k v \<Rightarrow>
          (case f k of None \<Rightarrow> (Got v False, f(k \<mapsto> v)) | Some x \<Rightarrow> (Got x True, f))
      | Op_Delete k \<Rightarrow> (Done, f(k := None))
      | Op_Range \<Rightarrow> (Ranged f True, f))"

fun map_run :: "('k, 'v) map_op list \<Rightarrow> ('k \<Rightarrow> 'v option) \<Rightarrow> ('k, 'v) map_result list" where
  "map_run [] f = []"
| "map_run (op # ops) f = (let (r, f) = map_step op f in r # map_run ops f)"

lemma pm_step_ok:
  assumes "pm_inv m"
  shows "\<exists>r m'. pm_step op m = Some (r, m') \<and> pm_inv m' \<and> map_step op (pm_abs m) = (r, pm_abs m')"
proof (cases op)
  case (Op_Load k)
  then show ?thesis using pm.load [OF assms] by (cases "pm_Load k m") (auto simp: pm_step_def map_step_def)
next
  case (Op_Store k v)
  then show ?thesis using pm.store [OF assms, of k v] by (auto simp: pm_step_def map_step_def)
next
  case (Op_LoadOrStore k v)
  then show ?thesis
    using pm.load_or_store [OF assms, of k v]
    by (cases "pm_abs m k") (auto simp: pm_step_def map_step_def)
next
  case (Op_Delete k)
  then show ?thesis using pm.delete [OF assms, of k] by (auto simp: pm_step_def map_step_def)
next
  case Op_Range
  then show ?thesis using pm.range [OF assms] by (cases "pm_Range m") (auto simp: pm_step_def map_step_def)
qed

lemma pm_run_ok: "pm_inv m \<Longrightarrow> pm_run ops m = Some (map_run ops (pm_abs m))"
proof (induction ops arbitrary: m)
  case (Cons op ops)
  obtain r m' where "pm_step op m = Some (r, m')" and "pm_inv m'"
    and "map_step op (pm_abs m) = (r, pm_abs m')"
    using pm_step_ok [OF Cons.prems] by blast
  with Cons.IH [of m'] show ?case by simp
qed simp

text \<open>
  C21. The two-level map is a map. Started empty, and whatever sequence of \<open>Load\<close>, \<open>Store\<close>,
  \<open>LoadOrStore\<close>, \<open>Delete\<close> and \<open>Range\<close> it runs, \<open>PoolMap\<close> answers as a plain map would, and never
  writes to its dirty map while that is nil (which would panic). In particular an expunged entry
  is always brought back into the dirty map before it is stored to, and no promotion loses or
  revives a key.
\<close>

theorem pool_map_is_map: "pm_run ops pm_New = Some (map_run ops Map.empty)"
  using pm_run_ok [OF pm_New_inv, of ops] by (simp add: pm_New_abs)

end
