(* ===== verification/Keep_Aliver.thy ===== *)
theory Keep_Aliver
  imports Pool Pool_Map "HOL-Library.Multiset"
begin

text \<open>
  \<open>KeepAliver\<close> of src/sofabolt/keepaliver.go: it keeps the pools of plain and of TLS connections, an
  address to a pool, closes clients that were used too often without disturbing their calls in
  flight, and sends heartbeats.

  Pools and clients live in heaps (functions from pointers), the maps are those of theory
  \<open>Pool_Map\<close>, whose panic is \<open>None\<close>. The \<open>sync.Map\<close> of dying clients is an association list; its
  order is one possible order of \<open>Range\<close>. Each operation is one sequential run: other goroutines
  act between operations. What a heartbeat does to a client, and whether it fails, is the parameter
  \<open>beat\<close>, which also gets the number of heartbeats sent before. The clock's reading is an argument.
  The page of \<open>ServeHTTP\<close> is in theory \<open>Status_Page\<close>; the log lines are not modelled.
\<close>

record ka_options =
  kao_MaClientConnUsed :: int
  kao_MinClientInPool :: int
  kao_HeartbeatInterval :: int
  kao_HeartbeatTimeout :: int
  kao_CleanupInterval :: int
  kao_CleanupMaxChecks :: int

abbreviation time_Second :: int where "time_Second \<equiv> 1000000000"

definition ka_polyfill :: "ka_options \<Rightarrow> ka_options" where
  "ka_polyfill o' =
     (let o' = (if kao_CleanupInterval o' = 0 then o'\<lparr>kao_CleanupInterval := 10 * time_Second\<rparr> else o');
          o' = (if kao_CleanupMaxChecks o' = 0 then o'\<lparr>kao_CleanupMaxChecks := 15\<rparr> else o');
          o' = (if kao_HeartbeatInterval o' = 0 then o'\<lparr>kao_HeartbeatInterval := 30 * time_Second\<rparr> else o')
      in if kao_HeartbeatTimeout o' = 0 then o'\<lparr>kao_HeartbeatTimeout := 5 * time_Second\<rparr> else o')"

record 'x ka =
  ka_opts :: ka_options
  ka_raw :: "(string, nat) pool_map"
  ka_tls :: "(string, nat) pool_map"
  ka_dying :: "(nat \<times> int) list"
  ka_pools :: "nat \<Rightarrow> pool"
  ka_npools :: nat
  ka_clients :: "nat \<Rightarrow> 'x client"
  ka_beats :: "nat list"

text \<open>\<open>ka_beats\<close> records the clients that heartbeats were sent to.\<close>

definition NewKeepAliver :: "ka_options \<Rightarrow> (nat \<Rightarrow> 'x client) \<Rightarrow> 'x ka" where
  "NewKeepAliver o' clients = \<lparr>ka_opts = ka_polyfill o', ka_raw = pm_New, ka_tls = pm_New, ka_dying = [],
     ka_pools = (\<lambda>_. NewPool), ka_npools = 0, ka_clients = clients, ka_beats = []\<rparr>"

definition ka_map :: "bool \<Rightarrow> 'x ka \<Rightarrow> (string, nat) pool_map" where
  "ka_map tls ka = (if tls then ka_tls ka else ka_raw ka)"

definition set_map :: "bool \<Rightarrow> (string, nat) pool_map \<Rightarrow> 'x ka \<Rightarrow> 'x ka" where
  "set_map tls m ka = (if tls then ka\<lparr>ka_tls := m\<rparr> else ka\<lparr>ka_raw := m\<rparr>)"

definition set_pool :: "nat \<Rightarrow> pool \<Rightarrow> 'x ka \<Rightarrow> 'x ka" where
  "set_pool p pool ka = ka\<lparr>ka_pools := (ka_pools ka)(p := pool)\<rparr>"

definition set_client :: "nat \<Rightarrow> 'x client \<Rightarrow> 'x ka \<Rightarrow> 'x ka" where
  "set_client c x ka = ka\<lparr>ka_clients := (ka_clients ka)(c := x)\<rparr>"

text \<open>\<open>client.Close()\<close>; the callers only log its error.\<close>

definition close_client :: "nat \<Rightarrow> 'x ka \<Rightarrow> 'x ka" where
  "close_client c ka = set_client c (snd (client_Close (ka_clients ka c))) ka"

definition overused :: "'x ka \<Rightarrow> nat \<Rightarrow> bool" where
  "overused ka c \<longleftrightarrow> kao_MaClientConnUsed (ka_opts ka) > 0 \<and>
     cl_used (ka_clients ka c) \<ge> kao_MaClientConnUsed (ka_opts ka)"

subsection \<open>Put, Get and Del\<close>

definition ka_put :: "bool \<Rightarrow> bool \<Rightarrow> string \<Rightarrow> nat \<Rightarrow> 'x ka \<Rightarrow> (bool \<times> 'x ka) option" where
  "ka_put tls force addr c ka =
     (let p = ka_npools ka;
          ka = (set_pool p (Pool_Push c NewPool) ka)\<lparr>ka_npools := p + 1\<rparr>
      in case pm_LoadOrStore addr p (ka_map tls ka) of
           None \<Rightarrow> None
         | Some (actual, loaded, m) \<Rightarrow>
             let ka = set_map tls m ka; size = Pool_Size (ka_pools ka actual)
             in if size \<ge> 2 \<and> overused ka c then Some (False, ka)
                else if force \<or> (kao_MinClientInPool (ka_opts ka) > 0 \<and>
                                 size \<le> kao_MinClientInPool (ka_opts ka))
                then Some (True, if loaded then set_pool actual (Pool_Push c (ka_pools ka actual)) ka
                                 else ka)
                else Some (False, ka))"

definition ka_del :: "bool \<Rightarrow> string \<Rightarrow> nat \<Rightarrow> 'x ka \<Rightarrow> bool \<times> 'x ka" where
  "ka_del tls addr c ka =
     (case pm_Load addr (ka_map tls ka) of
        (None, m) \<Rightarrow> (False, set_map tls m ka)
      | (Some p, m) \<Rightarrow>
          let ka = set_map tls m ka in (True, set_pool p (Pool_Delete c (ka_pools ka p)) ka))"

definition GracefullyClose :: "nat \<Rightarrow> 'x ka \<Rightarrow> 'x ka" where
  "GracefullyClose c ka =
     (if cl_references (ka_clients ka c) > 0 then ka\<lparr>ka_dying := AList.update c 1 (ka_dying ka)\<rparr>
      else close_client c ka)"

text \<open>The loop of \<open>get\<close> over the pool \<open>p\<close>.\<close>

partial_function (option) ka_get_loop ::
  "bool \<Rightarrow> string \<Rightarrow> nat \<Rightarrow> 'x ka \<Rightarrow> (nat option \<times> 'x ka) option" where
  "ka_get_loop tls addr p ka =
     (case Pool_Get (ka_pools ka p) of
        (None, pool) \<Rightarrow> Some (None, set_pool p pool ka)
      | (Some c, pool) \<Rightarrow>
          if Pool_Size pool \<ge> 2 \<and> overused ka c
          then ka_get_loop tls addr p (GracefullyClose c (snd (ka_del tls addr c (set_pool p pool ka))))
          else Some (Some c, set_pool p pool ka))"

definition ka_get :: "bool \<Rightarrow> string \<Rightarrow> 'x ka \<Rightarrow> (nat option \<times> 'x ka) option" where
  "ka_get tls addr ka =
     (case pm_Load addr (ka_map tls ka) of
        (None, m) \<Rightarrow> Some (None, set_map tls m ka)
      | (Some p, m) \<Rightarrow> ka_get_loop tls addr p (set_map tls m ka))"

subsection \<open>Cleanup\<close>

text \<open>The callback of the \<open>Range\<close> over the dying clients, and one round.\<close>

definition cleanup_one :: "nat \<times> int \<Rightarrow> 'x ka \<Rightarrow> 'x ka" where
  "cleanup_one cn ka =
     (let (c, n) = cn
      in if n \<ge> kao_CleanupMaxChecks (ka_opts ka) then close_client c ka
         else if cl_references (ka_clients ka c) > 0
         then ka\<lparr>ka_dying := AList.update c (n + 1) (ka_dying ka)\<rparr>
         else close_client c ka)"

definition cleanup_round :: "'x ka \<Rightarrow> 'x ka" where
  "cleanup_round ka = fold cleanup_one (ka_dying ka) ka"

subsection \<open>Heartbeats\<close>

definition overdue :: "int \<Rightarrow> 'x ka \<Rightarrow> nat \<Rightarrow> bool" where
  "overdue t ka c \<longleftrightarrow>
     t - cl_lasted (ka_clients ka c) \<ge> kao_HeartbeatInterval (ka_opts ka) div time_Second"

text \<open>The loop over the copied clients: the broken ones, in order.\<close>

fun send_beats ::
  "(nat \<Rightarrow> nat \<Rightarrow> 'x client \<Rightarrow> go_error option \<times> 'x client) \<Rightarrow> int \<Rightarrow> nat list \<Rightarrow> 'x ka \<Rightarrow>
   nat list \<times> 'x ka" where
  "send_beats beat t [] ka = ([], ka)"
| "send_beats beat t (c # cs) ka =
     (if overdue t ka c
      then let (e, x) = beat (length (ka_beats ka)) c (ka_clients ka c);
               (brokens, ka) = send_beats beat t cs
                 ((set_client c x ka)\<lparr>ka_beats := ka_beats ka @ [c]\<rparr>)
           in (if e \<noteq> None then c # brokens else brokens, ka)
      else send_beats beat t cs ka)"

definition clientChecker ::
  "(nat \<Rightarrow> nat \<Rightarrow> 'x client \<Rightarrow> go_error option \<times> 'x client) \<Rightarrow> int \<Rightarrow> nat \<Rightarrow> 'x ka \<Rightarrow> 'x ka" where
  "clientChecker beat t p ka =
     (let (brokens, ka) = send_beats beat t (copyClients (ka_pools ka p)) ka;
          ka = set_pool p (DeleteClients brokens (ka_pools ka p)) ka
      in fold close_client brokens ka)"

definition range_check ::
  "(nat \<Rightarrow> nat \<Rightarrow> 'x client \<Rightarrow> go_error option \<times> 'x client) \<Rightarrow> int \<Rightarrow> 'x ka \<Rightarrow> 'x ka" where
  "range_check beat t ka =
     (let (kvs, m) = pm_Range (ka_raw ka)
      in fold (\<lambda>(addr, p). clientChecker beat t p) kvs (ka\<lparr>ka_raw := m\<rparr>))"

text \<open>One tick at time \<open>t\<close>: the second range, meant for the TLS pools, is over \<open>raw\<close> again.\<close>

definition heartbeat_tick ::
  "(nat \<Rightarrow> nat \<Rightarrow> 'x client \<Rightarrow> go_error option \<times> 'x client) \<Rightarrow> int \<Rightarrow> 'x ka \<Rightarrow> 'x ka" where
  "heartbeat_tick beat t ka = range_check beat t (range_check beat t ka)"

subsection \<open>Frame lemmas\<close>

lemma set_simps_ka [simp]:
  "ka_opts (set_map tls m ka) = ka_opts ka" "ka_opts (set_pool p x ka) = ka_opts ka"
  "ka_opts (set_client c y ka) = ka_opts ka" "ka_opts (close_client c ka) = ka_opts ka"
  "ka_pools (set_map tls m ka) = ka_pools ka" "ka_pools (set_pool p x ka) = (ka_pools ka)(p := x)"
  "ka_pools (set_client c y ka) = ka_pools ka" "ka_pools (close_client c ka) = ka_pools ka"
  "ka_clients (set_map tls m ka) = ka_clients ka" "ka_clients (set_pool p x ka) = ka_clients ka"
  "ka_clients (set_client c y ka) = (ka_clients ka)(c := y)"
  "ka_dying (set_map tls m ka) = ka_dying ka" "ka_dying (set_pool p x ka) = ka_dying ka"
  "ka_dying (set_client c y ka) = ka_dying ka" "ka_dying (close_client c ka) = ka_dying ka"
  "ka_map b (set_pool p x ka) = ka_map b ka" "ka_map b (set_client c y ka) = ka_map b ka"
  "ka_map b (close_client c ka) = ka_map b ka"
  "ka_map b (set_map tls m ka) = (if b = tls then m else ka_map b ka)"
  "ka_beats (set_pool p x ka) = ka_beats ka" "ka_beats (set_client c y ka) = ka_beats ka"
  "ka_beats (close_client c ka) = ka_beats ka"
  by (auto simp: set_map_def set_pool_def set_client_def close_client_def ka_map_def)

lemma ka_raw_simps [simp]:
  "ka_raw (set_pool p x ka) = ka_raw ka" "ka_raw (set_client c y ka) = ka_raw ka"
  "ka_raw (close_client c ka) = ka_raw ka"
  "ka_tls (set_pool p x ka) = ka_tls ka" "ka_tls (set_client c y ka) = ka_tls ka"
  "ka_tls (close_client c ka) = ka_tls ka"
  by (simp_all add: set_pool_def set_client_def close_client_def)

lemma client_Close_simps [simp]:
  "cl_closed (snd (client_Close x))" "cl_used (snd (client_Close x)) = cl_used x"
  "cl_references (snd (client_Close x)) = cl_references x"
  "cl_lasted (snd (client_Close x)) = cl_lasted x"
  by (simp_all add: client_Close_def)

lemma close_client_clients:
  "ka_clients (close_client c ka) = (ka_clients ka)(c := snd (client_Close (ka_clients ka c)))"
  by (simp add: close_client_def)

lemma GracefullyClose_simps [simp]:
  "ka_opts (GracefullyClose c ka) = ka_opts ka" "ka_pools (GracefullyClose c ka) = ka_pools ka"
  "ka_map b (GracefullyClose c ka) = ka_map b ka"
  "cl_used (ka_clients (GracefullyClose c ka) d) = cl_used (ka_clients ka d)"
  by (simp_all add: GracefullyClose_def ka_map_def close_client_clients)

subsection \<open>Get\<close>

lemma GracefullyClose_settles:
  "cl_closed (ka_clients (GracefullyClose c ka) c) \<or> map_of (ka_dying (GracefullyClose c ka)) c \<noteq> None"
  by (auto simp: GracefullyClose_def close_client_clients update_conv')

lemma GracefullyClose_keeps:
  "cl_closed (ka_clients ka d) \<Longrightarrow> cl_closed (ka_clients (GracefullyClose c ka) d)"
  "map_of (ka_dying ka) d \<noteq> None \<Longrightarrow> map_of (ka_dying (GracefullyClose c ka)) d \<noteq> None"
  by (auto simp: GracefullyClose_def close_client_clients update_conv' client_Close_def)

text \<open>A client that is retired: closed, or waiting for its last calls.\<close>

definition retired :: "'x ka \<Rightarrow> nat \<Rightarrow> bool" where
  "retired ka c \<longleftrightarrow> cl_closed (ka_clients ka c) \<or> map_of (ka_dying ka) c \<noteq> None"

lemma retired_GracefullyClose: "retired ka d \<or> d = c \<Longrightarrow> retired (GracefullyClose c ka) d"
  using GracefullyClose_settles [of c ka] GracefullyClose_keeps [of ka d c] by (auto simp: retired_def)

lemma ka_get_loop_spec:
  assumes "pm_inv (ka_map tls ka)" and "pm_abs (ka_map tls ka) addr = Some p"
  shows "\<exists>r ka' gone. ka_get_loop tls addr p ka = Some (r, ka') \<and>
    mset (po_clients (ka_pools ka p)) = mset (po_clients (ka_pools ka' p)) + mset gone \<and>
    (\<forall>c \<in> set gone. overused ka c \<and> retired ka' c) \<and>
    (\<forall>d. retired ka d \<longrightarrow> retired ka' d) \<and>
    (r = None \<longrightarrow> po_clients (ka_pools ka p) = []) \<and>
    (\<forall>c. r = Some c \<longrightarrow> c \<in> set (po_clients (ka_pools ka' p)) \<and>
       (overused ka c \<longrightarrow> length (po_clients (ka_pools ka' p)) < 2))"
  using assms
proof (induction "length (po_clients (ka_pools ka p))" arbitrary: ka rule: less_induct)
  case less
  let ?cs = "po_clients (ka_pools ka p)"
  obtain oc pool where g: "Pool_Get (ka_pools ka p) = (oc, pool)" by fastforce
  then have pool: "po_clients pool = ?cs" using Pool_Get_clients [of "ka_pools ka p"] by simp
  show ?case
  proof (cases oc)
    case None
    then have "?cs = []" using g Pool_Get_None [of "ka_pools ka p"] by simp
    with g None pool show ?thesis
      by (subst ka_get_loop.simps) (auto simp: retired_def intro!: exI [of _ "[]"])
  next
    case (Some c)
    then have c: "c \<in> set ?cs" using g Pool_Get_in [of "ka_pools ka p" c] by simp
    show ?thesis
    proof (cases "Pool_Size pool \<ge> 2 \<and> overused ka c")
      case False
      then have "overused ka c \<Longrightarrow> length ?cs < 2" by (simp add: Pool_Size_def pool)
      with False g Some c pool show ?thesis
        by (subst ka_get_loop.simps) (auto simp: retired_def intro!: exI [of _ "[]"])
    next
      case True
      obtain m where m: "pm_Load addr (ka_map tls ka) = (Some p, m)" and i: "pm_inv m"
        and a: "pm_abs m = pm_abs (ka_map tls ka)"
        using pm.load_fst [OF less.prems(1), of addr] pm.load_snd [OF less.prems(1), of addr] less.prems(2)
        by (cases "pm_Load addr (ka_map tls ka)") auto
      define ka1 where "ka1 = GracefullyClose c (snd (ka_del tls addr c (set_pool p pool ka)))"
      have del: "snd (ka_del tls addr c (set_pool p pool ka)) =
          set_pool p (Pool_Delete c pool) (set_map tls m (set_pool p pool ka))"
        using m by (simp add: ka_del_def Let_def)
      have cs1: "po_clients (ka_pools ka1 p) = remove1 c ?cs" by (simp add: ka1_def del pool)
      have map1: "ka_map tls ka1 = m" by (simp add: ka1_def del)
      have used1: "overused ka1 d = overused ka d" for d by (simp add: overused_def ka1_def del)
      have ret1: "retired ka d \<or> d = c \<Longrightarrow> retired ka1 d" for d
        unfolding ka1_def by (rule retired_GracefullyClose) (auto simp: retired_def del)
      have "length (po_clients (ka_pools ka1 p)) < length ?cs"
        using c length_pos_if_in_set [OF c] by (simp add: cs1 length_remove1)
      from less.hyps [OF this] i a map1 less.prems(2) obtain r ka' gone where
        IH: "ka_get_loop tls addr p ka1 = Some (r, ka')"
        "mset (po_clients (ka_pools ka1 p)) = mset (po_clients (ka_pools ka' p)) + mset gone"
        "\<forall>c \<in> set gone. overused ka1 c \<and> retired ka' c" "\<forall>d. retired ka1 d \<longrightarrow> retired ka' d"
        "r = None \<longrightarrow> po_clients (ka_pools ka1 p) = []"
        "\<forall>c. r = Some c \<longrightarrow> c \<in> set (po_clients (ka_pools ka' p)) \<and>
           (overused ka1 c \<longrightarrow> length (po_clients (ka_pools ka' p)) < 2)"
        by auto
      have "2 \<le> length ?cs" using True by (simp add: Pool_Size_def pool)
      then have "po_clients (ka_pools ka1 p) \<noteq> []"
        using c by (auto simp: cs1 dest!: arg_cong [where f = length] simp: length_remove1)
      then have r: "r \<noteq> None" using IH(5) by auto
      have "mset ?cs = mset (po_clients (ka_pools ka1 p)) + {#c#}" using c by (simp add: cs1)
      moreover have "ka_get_loop tls addr p ka = Some (r, ka')"
        using g Some True IH(1) by (subst ka_get_loop.simps) (simp add: ka1_def)
      ultimately show ?thesis
        using IH(2-6) r used1 ret1 True
        by (intro exI [of _ r] exI [of _ ka'] exI [of _ "c # gone"]) auto
    qed
  qed
qed


text \<open>
  C22. What \<open>Get\<close> hands out. On maps in order it always returns, and never panics; it gives no client
  only for an address without one; a client it gives is in the pool, and if it was used up to the
  limit it is the pool's last. The clients that are no longer in the pool afterwards were all used
  up, and each is retired: closed, or, when it has calls in flight, among the dying; none is
  dropped without being retired.
\<close>

theorem ka_get_retires:
  assumes "pm_inv (ka_map tls ka)" and "pm_abs (ka_map tls ka) addr = Some p"
  shows "\<exists>r ka' gone. ka_get tls addr ka = Some (r, ka') \<and>
    mset (po_clients (ka_pools ka p)) = mset (po_clients (ka_pools ka' p)) + mset gone \<and>
    (\<forall>c \<in> set gone. overused ka c \<and> retired ka' c) \<and>
    (r = None \<longrightarrow> po_clients (ka_pools ka p) = []) \<and>
    (\<forall>c. r = Some c \<longrightarrow> c \<in> set (po_clients (ka_pools ka' p)) \<and>
       (overused ka c \<longrightarrow> length (po_clients (ka_pools ka' p)) < 2))"
proof -
  obtain m where m: "pm_Load addr (ka_map tls ka) = (Some p, m)" and i: "pm_inv m"
    and a: "pm_abs m = pm_abs (ka_map tls ka)"
    using pm.load_fst [OF assms(1), of addr] pm.load_snd [OF assms(1), of addr] assms(2)
    by (cases "pm_Load addr (ka_map tls ka)") auto
  let ?ka = "set_map tls m ka"
  have o: "overused ?ka = overused ka" by (simp add: overused_def fun_eq_iff)
  obtain r ka' gone where "ka_get_loop tls addr p ?ka = Some (r, ka')"
    "mset (po_clients (ka_pools ka p)) = mset (po_clients (ka_pools ka' p)) + mset gone"
    "\<forall>c \<in> set gone. overused ka c \<and> retired ka' c"
    "r = None \<longrightarrow> po_clients (ka_pools ka p) = []"
    "\<forall>c. r = Some c \<longrightarrow> c \<in> set (po_clients (ka_pools ka' p)) \<and>
       (overused ka c \<longrightarrow> length (po_clients (ka_pools ka' p)) < 2)"
    using ka_get_loop_spec [of tls ?ka addr p, unfolded o] i a assms(2) by auto
  then show ?thesis by (intro exI [of _ r] exI [of _ ka'] exI [of _ gone]) (simp add: ka_get_def m)
qed

subsection \<open>Cleanup\<close>

text \<open>The references that calls and their ends leave before each round.\<close>

definition set_refs :: "(nat \<Rightarrow> int) \<Rightarrow> 'x ka \<Rightarrow> 'x ka" where
  "set_refs r ka = ka\<lparr>ka_clients := (\<lambda>c. (ka_clients ka c)\<lparr>cl_references := r c\<rparr>)\<rparr>"

definition cleanup_rounds :: "(nat \<Rightarrow> int) list \<Rightarrow> 'x ka \<Rightarrow> 'x ka" where
  "cleanup_rounds rs ka = fold (\<lambda>r ka. cleanup_round (set_refs r ka)) rs ka"

lemma cleanup_one_other:
  "c \<noteq> d \<Longrightarrow> ka_clients (cleanup_one (c, n) ka) d = ka_clients ka d"
  "c \<noteq> d \<Longrightarrow> map_of (ka_dying (cleanup_one (c, n) ka)) d = map_of (ka_dying ka) d"
  "ka_opts (cleanup_one (c, n) ka) = ka_opts ka"
  by (auto simp: cleanup_one_def close_client_clients update_conv')

lemma cleanup_fold_other:
  "d \<notin> fst ` set t \<Longrightarrow> ka_clients (fold cleanup_one t ka) d = ka_clients ka d \<and>
   map_of (ka_dying (fold cleanup_one t ka)) d = map_of (ka_dying ka) d"
proof (induction t arbitrary: ka)
  case (Cons x t)
  obtain c n where x: "x = (c, n)" by fastforce
  have "c \<noteq> d" using Cons.prems by (auto simp: x)
  with Cons show ?case by (simp add: x cleanup_one_other)
qed simp

lemma cleanup_fold_one:
  assumes "distinct (map fst t)" and "(d, n) \<in> set t"
  shows "\<exists>ka0. ka_clients ka0 d = ka_clients ka d \<and> ka_opts ka0 = ka_opts ka \<and>
    map_of (ka_dying ka0) d = map_of (ka_dying ka) d \<and>
    ka_clients (fold cleanup_one t ka) d = ka_clients (cleanup_one (d, n) ka0) d \<and>
    map_of (ka_dying (fold cleanup_one t ka)) d = map_of (ka_dying (cleanup_one (d, n) ka0)) d"
  using assms
proof (induction t arbitrary: ka)
  case (Cons x t)
  obtain c m where x: "x = (c, m)" by fastforce
  show ?case
  proof (cases "c = d")
    case True
    then have "m = n" using Cons.prems by (auto simp: x image_iff)
    with True Cons.prems(1) cleanup_fold_other [of d t "cleanup_one (d, n) ka"] show ?thesis
      by (intro exI [of _ ka]) (simp add: x)
  next
    case False
    then have "(d, n) \<in> set t" using Cons.prems by (simp add: x)
    with Cons.IH [of "cleanup_one (c, m) ka"] Cons.prems(1) False show ?thesis
      by (simp add: x cleanup_one_other)
  qed
qed simp

lemma cleanup_one_keys: "map fst (ka_dying ka) = ks \<Longrightarrow> c \<in> set ks \<Longrightarrow>
    map fst (ka_dying (cleanup_one (c, n) ka)) = ks"
  by (auto simp: cleanup_one_def update_keys)

lemma cleanup_fold_keys:
  "fst ` set t \<subseteq> set (map fst (ka_dying ka)) \<Longrightarrow>
   map fst (ka_dying (fold cleanup_one t ka)) = map fst (ka_dying ka)"
proof (induction t arbitrary: ka)
  case (Cons x t)
  obtain c n where x: "x = (c, n)" by fastforce
  have k: "map fst (ka_dying (cleanup_one (c, n) ka)) = map fst (ka_dying ka)"
    by (rule cleanup_one_keys [OF refl]) (use Cons.prems in \<open>simp add: x\<close>)
  with Cons.IH [of "cleanup_one (c, n) ka"] Cons.prems show ?case by (simp add: x)
qed simp

lemma cleanup_round_one:
  assumes "distinct (map fst (ka_dying ka))" and "map_of (ka_dying ka) d = Some n"
  shows "ka_opts (cleanup_round ka) = ka_opts ka"
    and "map fst (ka_dying (cleanup_round ka)) = map fst (ka_dying ka)"
    and "cl_closed (ka_clients (cleanup_round ka) d) \<or>
      n < kao_CleanupMaxChecks (ka_opts ka) \<and> map_of (ka_dying (cleanup_round ka)) d = Some (n + 1)"
    and "cl_closed (ka_clients ka d) \<Longrightarrow> cl_closed (ka_clients (cleanup_round ka) d)"
proof -
  have "ka_opts (fold cleanup_one t ka) = ka_opts ka" for t :: "(nat \<times> int) list"
  proof (induction t arbitrary: ka)
    case (Cons x t)
    then show ?case by (cases x) (simp add: cleanup_one_other)
  qed simp
  then show "ka_opts (cleanup_round ka) = ka_opts ka" by (simp add: cleanup_round_def)
  show "map fst (ka_dying (cleanup_round ka)) = map fst (ka_dying ka)"
    unfolding cleanup_round_def by (rule cleanup_fold_keys) auto
  from cleanup_fold_one [OF assms(1) map_of_SomeD [OF assms(2)], of ka] obtain ka0 where
    k: "ka_clients ka0 d = ka_clients ka d" "ka_opts ka0 = ka_opts ka"
      "map_of (ka_dying ka0) d = map_of (ka_dying ka) d"
      "ka_clients (cleanup_round ka) d = ka_clients (cleanup_one (d, n) ka0) d"
      "map_of (ka_dying (cleanup_round ka)) d = map_of (ka_dying (cleanup_one (d, n) ka0)) d"
    unfolding cleanup_round_def by blast
  show "cl_closed (ka_clients (cleanup_round ka) d) \<or>
      n < kao_CleanupMaxChecks (ka_opts ka) \<and> map_of (ka_dying (cleanup_round ka)) d = Some (n + 1)"
    unfolding k(4,5) by (simp add: cleanup_one_def close_client_clients update_conv' k(2))
  show "cl_closed (ka_clients ka d) \<Longrightarrow> cl_closed (ka_clients (cleanup_round ka) d)"
    unfolding k(4) by (simp add: cleanup_one_def close_client_clients k(1))
qed

lemma set_refs_simps [simp]:
  "ka_opts (set_refs r ka) = ka_opts ka" "ka_dying (set_refs r ka) = ka_dying ka"
  "cl_closed (ka_clients (set_refs r ka) d) = cl_closed (ka_clients ka d)"
  by (simp_all add: set_refs_def)

lemma cleanup_rounds_keys:
  "distinct (map fst (ka_dying ka)) \<Longrightarrow> map_of (ka_dying ka) d \<noteq> None \<Longrightarrow>
   map fst (ka_dying (cleanup_rounds rs ka)) = map fst (ka_dying ka) \<and>
   (cl_closed (ka_clients ka d) \<longrightarrow> cl_closed (ka_clients (cleanup_rounds rs ka) d))"
proof (induction rs arbitrary: ka)
  case (Cons r rs)
  let ?ka = "cleanup_round (set_refs r ka)"
  obtain n where "map_of (ka_dying (set_refs r ka)) d = Some n" using Cons.prems by auto
  note one = cleanup_round_one [OF _ this]
  have k: "map fst (ka_dying ?ka) = map fst (ka_dying ka)" using one(2) Cons.prems(1) by simp
  then have "map_of (ka_dying ?ka) d \<noteq> None"
    using Cons.prems(2) by (metis list.set_map map_of_eq_None_iff)
  with Cons.IH [of ?ka] k Cons.prems(1) one(4) show ?case by (simp add: cleanup_rounds_def)
qed (simp add: cleanup_rounds_def)

text \<open>
  C24. Dying clients are closed. However many calls hold a reference to it, and however that number
  changes between the rounds, a dying client is closed as soon as the rounds it has seen exceed
  \<open>CleanupMaxChecks\<close>. But the table of the dying never gets smaller: a closed client stays in it.
\<close>

theorem dying_closed:
  assumes "distinct (map fst (ka_dying ka))" and "map_of (ka_dying ka) c = Some n"
    and "kao_CleanupMaxChecks (ka_opts ka) < n + int (length rs)" and "rs \<noteq> []"
  shows "cl_closed (ka_clients (cleanup_rounds rs ka) c) \<and>
    map fst (ka_dying (cleanup_rounds rs ka)) = map fst (ka_dying ka)"
  using assms
proof (induction rs arbitrary: ka n)
  case (Cons r rs)
  let ?ka = "cleanup_round (set_refs r ka)"
  have r: "map_of (ka_dying (set_refs r ka)) c = Some n" using Cons.prems(2) by simp
  note one = cleanup_round_one [OF _ r, simplified, OF Cons.prems(1)]
  have split: "cleanup_rounds (r # rs) ka = cleanup_rounds rs ?ka" by (simp add: cleanup_rounds_def)
  have some: "map_of (ka_dying ?ka) c \<noteq> None"
    using Cons.prems(2) one(2) by (metis list.set_map map_of_eq_None_iff option.distinct(1))
  have keys: "map fst (ka_dying (cleanup_rounds rs ?ka)) = map fst (ka_dying ka)"
    and stay: "cl_closed (ka_clients ?ka c) \<Longrightarrow> cl_closed (ka_clients (cleanup_rounds rs ?ka) c)"
    using cleanup_rounds_keys [of ?ka c rs] some one(2) Cons.prems(1) by simp_all
  show ?case
  proof (cases "cl_closed (ka_clients ?ka c)")
    case False
    then have n: "n < kao_CleanupMaxChecks (ka_opts ka)" and "map_of (ka_dying ?ka) c = Some (n + 1)"
      using one(3) by simp_all
    moreover have "rs \<noteq> []" using n Cons.prems(3) by auto
    ultimately show ?thesis
      using Cons.IH [of ?ka "n + 1"] Cons.prems(1,3) one(1,2) keys by (simp add: split)
  qed (use stay keys split in simp)
qed simp

definition demo_opts :: ka_options where
  "demo_opts = \<lparr>kao_MaClientConnUsed = 10, kao_MinClientInPool = 1, kao_HeartbeatInterval = 0,
     kao_HeartbeatTimeout = 0, kao_CleanupInterval = 0, kao_CleanupMaxChecks = 2\<rparr>"

lemma ka_get_retires_witness:
  "\<exists>(ka :: unit ka) r ka'. po_clients (ka_pools ka 0) = [3, 4] \<and>
     ka_get False ''a'' ka = Some (r, ka') \<and> r \<noteq> None"
proof -
  obtain m where i: "pm_inv m" and a: "pm_abs m = [''a'' \<mapsto> (0 :: nat)]"
    using pm.load_or_store [OF pm_New_inv, of "''a''" "0 :: nat"] by (auto simp: pm_New_abs)
  define ka where "ka = (NewKeepAliver demo_opts (\<lambda>_. NewClient (demo_env False) 0))\<lparr>ka_raw := m,
    ka_pools := (\<lambda>_. \<lparr>po_clients = [3, 4], po_next = 0\<rparr>)\<rparr>"
  have "pm_inv (ka_map False ka)" and "pm_abs (ka_map False ka) ''a'' = Some 0"
    and cs: "po_clients (ka_pools ka 0) = [3, 4]"
    by (simp_all add: ka_map_def i a ka_def)
  from ka_get_retires [OF this(1,2)] cs obtain r ka' where
    "ka_get False ''a'' ka = Some (r, ka')" "r \<noteq> None" by auto
  with cs have "po_clients (ka_pools ka 0) = [3, 4] \<and>
      ka_get False ''a'' ka = Some (r, ka') \<and> r \<noteq> None" by simp
  then show ?thesis by (intro exI)
qed

lemma dying_closed_witness:
  "cl_closed (ka_clients (cleanup_rounds [\<lambda>_. 5, \<lambda>_. 7]
     ((NewKeepAliver demo_opts (\<lambda>_. NewClient (demo_env False) 0))\<lparr>ka_dying := [(3, 1)]\<rparr>)) 3)"
  using dying_closed [of "(NewKeepAliver demo_opts (\<lambda>_. NewClient (demo_env False) 0))
    \<lparr>ka_dying := [(3, 1)]\<rparr>" 3 1 "[\<lambda>_. 5, \<lambda>_. 7]"]
  by (simp add: NewKeepAliver_def ka_polyfill_def demo_opts_def Let_def)

subsection \<open>Heartbeats\<close>

lemma send_beats_frame:
  "send_beats beat t cs ka = (bs, ka') \<Longrightarrow>
   set bs \<subseteq> set cs \<and> ka_pools ka' = ka_pools ka \<and> ka_raw ka' = ka_raw ka \<and> ka_tls ka' = ka_tls ka \<and>
   ka_opts ka' = ka_opts ka \<and> (\<forall>c. c \<notin> set cs \<longrightarrow> ka_clients ka' c = ka_clients ka c) \<and>
   set (ka_beats ka') \<subseteq> set (ka_beats ka) \<union> set cs"
proof (induction cs arbitrary: ka bs)
  case (Cons c cs)
  show ?case
  proof (cases "overdue t ka c")
    case True
    obtain e x where b: "beat (length (ka_beats ka)) c (ka_clients ka c) = (e, x)" by fastforce
    let ?ka = "(set_client c x ka)\<lparr>ka_beats := ka_beats ka @ [c]\<rparr>"
    obtain bs1 where s: "send_beats beat t cs ?ka = (bs1, ka')"
      and bs: "bs = (if e \<noteq> None then c # bs1 else bs1)"
      using Cons.prems True b by (auto simp: Let_def split: prod.splits if_splits)
    from Cons.IH [OF s] show ?thesis by (auto simp: bs set_client_def)
  next
    case False
    with Cons.prems have "send_beats beat t cs ka = (bs, ka')" by simp
    from Cons.IH [OF this] show ?thesis by auto
  qed
qed simp

lemma close_fold_frame:
  "ka_pools (fold close_client bs ka) = ka_pools ka \<and> ka_raw (fold close_client bs ka) = ka_raw ka \<and>
   ka_tls (fold close_client bs ka) = ka_tls ka \<and> ka_beats (fold close_client bs ka) = ka_beats ka \<and>
   (\<forall>c. c \<notin> set bs \<longrightarrow> ka_clients (fold close_client bs ka) c = ka_clients ka c) \<and>
   (\<forall>c. c \<in> set bs \<or> cl_closed (ka_clients ka c) \<longrightarrow> cl_closed (ka_clients (fold close_client bs ka) c))"
  by (induction bs arbitrary: ka) (auto simp: close_client_clients)

lemma set_fold_remove1: "set (fold remove1 bs xs) \<subseteq> set xs"
  by (induction bs arbitrary: xs) (use set_remove1_subset in fastforce)+

lemma clientChecker_frame:
  "(\<forall>q. q \<noteq> p \<longrightarrow> ka_pools (clientChecker beat t p ka) q = ka_pools ka q) \<and>
   set (po_clients (ka_pools (clientChecker beat t p ka) p)) \<subseteq> set (po_clients (ka_pools ka p)) \<and>
   ka_raw (clientChecker beat t p ka) = ka_raw ka \<and> ka_tls (clientChecker beat t p ka) = ka_tls ka \<and>
   (\<forall>c. c \<notin> set (po_clients (ka_pools ka p)) \<longrightarrow>
      ka_clients (clientChecker beat t p ka) c = ka_clients ka c) \<and>
   set (ka_beats (clientChecker beat t p ka)) \<subseteq> set (ka_beats ka) \<union> set (po_clients (ka_pools ka p))"
proof -
  obtain bs ka1 where s: "send_beats beat t (po_clients (ka_pools ka p)) ka = (bs, ka1)" by fastforce
  let ?ka = "set_pool p (DeleteClients bs (ka_pools ka1 p)) ka1"
  have c: "clientChecker beat t p ka = fold close_client bs ?ka"
    by (simp add: clientChecker_def copyClients_def s)
  note f = send_beats_frame [OF s] and g = close_fold_frame [of bs ?ka]
  show ?thesis
    using f g set_fold_remove1 [of bs "po_clients (ka_pools ka p)"]
    by (auto simp: c DeleteClients_clients)
qed

text \<open>A step that leaves pools outside \<open>P\<close>, and the clients in none of \<open>P\<close>, alone.\<close>

definition outside :: "nat set \<Rightarrow> 'x ka \<Rightarrow> nat \<Rightarrow> bool" where
  "outside P ka c \<longleftrightarrow> (\<forall>p \<in> P. c \<notin> set (po_clients (ka_pools ka p)))"

definition confined :: "nat set \<Rightarrow> 'x ka \<Rightarrow> 'x ka \<Rightarrow> bool" where
  "confined P ka ka' \<longleftrightarrow>
     (\<forall>q. q \<notin> P \<longrightarrow> ka_pools ka' q = ka_pools ka q) \<and>
     (\<forall>q. set (po_clients (ka_pools ka' q)) \<subseteq> set (po_clients (ka_pools ka q))) \<and>
     ka_tls ka' = ka_tls ka \<and>
     (\<forall>c. outside P ka c \<longrightarrow> ka_clients ka' c = ka_clients ka c \<and>
        (c \<in> set (ka_beats ka') \<longrightarrow> c \<in> set (ka_beats ka)))"

lemma confined_trans:
  assumes "confined P ka ka1" and "confined P ka1 ka2"
  shows "confined P ka ka2"
proof -
  have "outside P ka c \<Longrightarrow> outside P ka1 c" for c
    using assms(1) unfolding confined_def outside_def by blast
  with assms show ?thesis unfolding confined_def by (metis subset_trans)
qed

lemma confined_checker:
  assumes "p \<in> P"
  shows "confined P ka (clientChecker beat t p ka)"
proof -
  note f = clientChecker_frame [of p beat t ka]
  have "set (po_clients (ka_pools (clientChecker beat t p ka) q)) \<subseteq> set (po_clients (ka_pools ka q))"
    for q using f by (cases "q = p") auto
  moreover have "c \<notin> set (po_clients (ka_pools ka p))" if "outside P ka c" for c
    using that assms by (simp add: outside_def)
  moreover have "q \<notin> P \<Longrightarrow> q \<noteq> p" for q using assms by auto
  ultimately show ?thesis using f unfolding confined_def by auto
qed

lemma confined_fold:
  "snd ` set kvs \<subseteq> P \<Longrightarrow> confined P ka (fold (\<lambda>(addr, p). clientChecker beat t p) kvs ka)"
proof (induction kvs arbitrary: ka)
  case Nil
  show ?case by (simp add: confined_def)
next
  case (Cons kv kvs)
  obtain a p where kv: "kv = (a, p)" by fastforce
  with Cons.prems have "p \<in> P" and sub: "snd ` set kvs \<subseteq> P" by auto
  from confined_trans [OF confined_checker [OF this(1)] Cons.IH [OF sub]] show ?case by (simp add: kv)
qed

lemma raw_fold: "ka_raw (fold (\<lambda>(addr, p). clientChecker beat t p) kvs ka) = ka_raw ka"
proof (induction kvs arbitrary: ka)
  case (Cons kv kvs)
  obtain a p where kv: "kv = (a, p)" by fastforce
  have "ka_raw (clientChecker beat t p ka) = ka_raw ka" using clientChecker_frame [of p beat t ka] by simp
  with Cons show ?case by (simp add: kv)
qed simp

lemma confined_range_check:
  assumes "pm_inv (ka_raw ka)"
  shows "confined (ran (pm_abs (ka_raw ka))) ka (range_check beat t ka) \<and>
    pm_inv (ka_raw (range_check beat t ka)) \<and>
    pm_abs (ka_raw (range_check beat t ka)) = pm_abs (ka_raw ka)"
proof -
  obtain kvs m where r: "pm_Range (ka_raw ka) = (kvs, m)" by fastforce
  note spec = pm.range [OF assms r]
  have "snd ` set kvs \<subseteq> ran (pm_abs (ka_raw ka))"
  proof
    fix p assume "p \<in> snd ` set kvs"
    then obtain a where "(a, p) \<in> set kvs" by auto
    then have "map_of kvs a = Some p" using spec by (metis map_of_eq_Some_iff)
    then show "p \<in> ran (pm_abs (ka_raw ka))" using spec by (auto intro: ranI)
  qed
  from confined_fold [OF this, of "ka\<lparr>ka_raw := m\<rparr>" beat t] spec show ?thesis
    by (simp add: range_check_def r raw_fold confined_def outside_def)
qed

text \<open>
  TLS connections get no heartbeat. A tick of the heartbeat goes over the pools of \<open>raw\<close> twice and
  never looks at \<open>tls\<close>: whatever the time and whatever heartbeats would return, a client that is in
  no plain pool is sent none, and stays as it is, also when its connection is dead; the pools that
  only \<open>tls\<close> knows keep their clients.
\<close>

theorem heartbeat_skips_tls:
  assumes "pm_inv (ka_raw ka)" and "ka_beats ka = []"
    and "\<And>addr p. pm_abs (ka_raw ka) addr = Some p \<Longrightarrow> c \<notin> set (po_clients (ka_pools ka p))"
  shows "c \<notin> set (ka_beats (heartbeat_tick beat t ka)) \<and>
    ka_clients (heartbeat_tick beat t ka) c = ka_clients ka c \<and>
    (\<forall>p. p \<notin> ran (pm_abs (ka_raw ka)) \<longrightarrow>
       ka_pools (heartbeat_tick beat t ka) p = ka_pools ka p)"
proof -
  let ?P = "ran (pm_abs (ka_raw ka))"
  note one = confined_range_check [OF assms(1), of beat t]
  note two = confined_range_check [of "range_check beat t ka" beat t]
  have c: "confined ?P ka (heartbeat_tick beat t ka)"
    unfolding heartbeat_tick_def using one two by (auto intro: confined_trans)
  have "outside ?P ka c" using assms(3) by (auto simp: outside_def ran_def)
  with c assms(2) show ?thesis by (simp add: confined_def)
qed

lemma heartbeat_skips_tls_witness:
  "3 \<notin> set (ka_beats (heartbeat_tick (\<lambda>_ _ x. (Some ErrEOF, x)) 1000
     (NewKeepAliver demo_opts (\<lambda>_. NewClient (demo_env False) 0))))"
  using heartbeat_skips_tls [of "NewKeepAliver demo_opts (\<lambda>_. NewClient (demo_env False) 0)" 3
    "\<lambda>_ _ x. (Some ErrEOF, x)" 1000]
  by (simp add: NewKeepAliver_def pm_New_inv pm_New_abs)

text \<open>
  A client whose pool is checked and whose heartbeat fails leaves the pool and is closed.
\<close>

lemma clientChecker_closes:
  assumes "send_beats beat t (po_clients (ka_pools ka p)) ka = (bs, ka1)" and "c \<in> set bs"
    and "distinct (po_clients (ka_pools ka p))"
  shows "c \<notin> set (po_clients (ka_pools (clientChecker beat t p ka) p)) \<and>
    cl_closed (ka_clients (clientChecker beat t p ka) c)"
proof -
  have gone: "distinct xs \<Longrightarrow> c \<in> set ds \<Longrightarrow> c \<notin> set (fold remove1 ds xs)" for ds and xs :: "nat list"
    by (induction ds arbitrary: xs) (use set_fold_remove1 in fastforce)+
  have "ka_pools ka1 = ka_pools ka" using send_beats_frame [OF assms(1)] by simp
  then show ?thesis
    using close_fold_frame [of bs "set_pool p (DeleteClients bs (ka_pools ka1 p)) ka1"]
      gone [OF assms(3,2)] assms(1,2)
    by (simp add: clientChecker_def copyClients_def DeleteClients_clients)
qed

text \<open>
  A rejected client stays in the pool. When \<open>Put\<close> is the first for its address, it stores a pool
  that holds the client before it looks at its limits; so it can answer that it did not take the
  client, and yet the next \<open>Get\<close> for the address hands that client out.
\<close>

theorem ka_put_keeps_rejected:
  assumes "pm_inv (ka_map tls ka)" and "pm_abs (ka_map tls ka) addr = None"
    and "kao_MinClientInPool (ka_opts ka) \<le> 0"
  shows "\<exists>ka' ka''. ka_put tls False addr c ka = Some (False, ka') \<and>
    ka_get tls addr ka' = Some (Some c, ka'')"
proof -
  let ?p = "ka_npools ka"
  obtain m where m: "pm_LoadOrStore addr ?p (ka_map tls ka) = Some (?p, False, m)" and i: "pm_inv m"
    and a: "pm_abs m = (pm_abs (ka_map tls ka))(addr \<mapsto> ?p)"
    using pm.load_or_store [OF assms(1), of addr ?p] assms(2) by auto
  let ?ka = "set_map tls m ((set_pool ?p (Pool_Push c NewPool) ka)\<lparr>ka_npools := ?p + 1\<rparr>)"
  have put: "ka_put tls False addr c ka = Some (False, ?ka)"
    using m assms(3) by (simp add: ka_put_def Let_def ka_map_def Pool_Size_def split: if_splits)
  have map: "ka_map tls ?ka = m" by simp
  obtain m' where l: "pm_Load addr m = (Some ?p, m')"
    using pm.load_fst [OF i, of addr] a by (cases "pm_Load addr m") auto
  have g: "Pool_Get (Pool_Push c NewPool) = (Some c, \<lparr>po_clients = [c], po_next = 0\<rparr>)"
    by (simp add: Pool_Get_def Pool_Push_def NewPool_def)
  have "\<exists>ka''. ka_get tls addr ?ka = Some (Some c, ka'')"
    by (simp add: ka_get_def map l) (subst ka_get_loop.simps, simp add: g Pool_Size_def)
  with put show ?thesis by blast
qed

lemma ka_put_keeps_rejected_witness:
  "\<exists>ka' ka'' :: unit ka. ka_put True False ''a'' 5
       (NewKeepAliver (demo_opts\<lparr>kao_MinClientInPool := 0\<rparr>) (\<lambda>_. NewClient (demo_env False) 0)) =
       Some (False, ka') \<and> ka_get True ''a'' ka' = Some (Some 5, ka'')"
proof -
  let ?ka = "NewKeepAliver (demo_opts\<lparr>kao_MinClientInPool := 0\<rparr>) (\<lambda>_. NewClient (demo_env False) 0)"
  show ?thesis
    by (rule ka_put_keeps_rejected)
      (simp_all add: NewKeepAliver_def ka_map_def pm_New_inv pm_New_abs ka_polyfill_def demo_opts_def)
qed

end
