(* ===== verification/Status_Page.thy ===== *)
theory Status_Page
  imports Keep_Aliver
begin

text \<open>
  What the pools show of themselves: \<open>MarshalJSON\<close> of src/sofabolt/pool.go and \<open>ServeHTTP\<close> of
  src/sofabolt/keepaliver.go, up to the JSON text, which another package writes: the records below
  are the structs that are handed to it, and a Go map that is filled during the collection is an
  association list.

  The time a client's metrics were created, the commands that wait in its background writer, and
  the printed addresses of a connection come from outside the model of the client; they are
  the record \<open>status_env\<close>.
\<close>

record status_env =
  se_created :: "nat \<Rightarrow> int"
  se_pending :: "nat \<Rightarrow> int"
  se_LocalAddr :: "nat \<Rightarrow> string"
  se_RemoteAddr :: "nat \<Rightarrow> string"

subsection \<open>A pool\<close>

record client_status =
  cs_Closed :: bool
  cs_Ref :: int
  cs_Lasted :: int
  cs_Used :: int
  cs_Created :: int
  cs_PendingRequests :: int

record pool_status =
  ps_Next :: nat
  ps_Clients :: "client_status list"

fun pool_clients :: "status_env \<Rightarrow> (nat \<Rightarrow> 'x client) \<Rightarrow> nat list \<Rightarrow> client_status list" where
  "pool_clients env heap [] = []"
| "pool_clients env heap (c # cs) =
     \<lparr>cs_Closed = cl_closed (heap c), cs_Ref = cl_references (heap c),
       cs_Lasted = cl_lasted (heap c), cs_Used = cl_used (heap c), cs_Created = se_created env c,
       cs_PendingRequests = se_pending env c\<rparr> # pool_clients env heap cs"

definition MarshalJSON :: "status_env \<Rightarrow> (nat \<Rightarrow> 'x client) \<Rightarrow> pool \<Rightarrow> pool_status" where
  "MarshalJSON env heap p =
     \<lparr>ps_Next = po_next p, ps_Clients = pool_clients env heap (po_clients p)\<rparr>"

subsection \<open>The page\<close>

record dying_status =
  ds_Connection :: string
  ds_Used :: int
  ds_References :: int
  ds_Lasted :: int
  ds_Pending :: int
  ds_Check :: int

record ka_page =
  pg_Elapsed :: int
  pg_Options :: ka_options
  pg_Raw :: "(string \<times> pool_status) list"
  pg_TLS :: "(string \<times> pool_status) list"
  pg_Dying :: "(string \<times> dying_status) list"

text \<open>The callback of the \<open>Range\<close> over the dying clients: the line of one client, and its place.\<close>

definition dying_line :: "status_env \<Rightarrow> (nat \<Rightarrow> 'x client) \<Rightarrow> nat \<times> int \<Rightarrow> dying_status" where
  "dying_line env heap cn =
     (let (c, n) = cn; client = heap c; conn = cl_conn client
      in \<lparr>ds_Connection = se_LocalAddr env conn @ '' -> '' @ se_RemoteAddr env conn,
           ds_Used = cl_used client, ds_References = cl_references client,
           ds_Lasted = cl_lasted client, ds_Pending = se_pending env c, ds_Check = n\<rparr>)"

definition dying_key :: "status_env \<Rightarrow> (nat \<Rightarrow> 'x client) \<Rightarrow> nat \<Rightarrow> string" where
  "dying_key env heap c = se_LocalAddr env (cl_conn (heap c))"

definition show_dying ::
  "status_env \<Rightarrow> (nat \<Rightarrow> 'x client) \<Rightarrow> nat \<times> int \<Rightarrow> (string \<times> dying_status) list \<Rightarrow>
   (string \<times> dying_status) list" where
  "show_dying env heap cn = AList.update (dying_key env heap (fst cn)) (dying_line env heap cn)"

text \<open>The callbacks over the two pool maps; the encoder calls \<open>MarshalJSON\<close> of each pool.\<close>

definition show_pools ::
  "status_env \<Rightarrow> (nat \<Rightarrow> 'x client) \<Rightarrow> (nat \<Rightarrow> pool) \<Rightarrow> (string \<times> nat) list \<Rightarrow> (string \<times> pool_status) list"
  where
  "show_pools env heap pools kvs =
     map (\<lambda>(addr, p). (addr, MarshalJSON env heap (pools p)))
       (fold (\<lambda>(addr, p). AList.update addr p) kvs [])"

definition ServeHTTP :: "status_env \<Rightarrow> int \<Rightarrow> 'x ka \<Rightarrow> ka_page \<times> 'x ka" where
  "ServeHTTP env elapsed ka =
     (let dying = fold (show_dying env (ka_clients ka)) (ka_dying ka) [];
          (raw, m) = pm_Range (ka_raw ka); ka = ka\<lparr>ka_raw := m\<rparr>;
          (tls, m) = pm_Range (ka_tls ka); ka = ka\<lparr>ka_tls := m\<rparr>
      in (\<lparr>pg_Elapsed = elapsed, pg_Options = ka_opts ka,
            pg_Raw = show_pools env (ka_clients ka) (ka_pools ka) raw,
            pg_TLS = show_pools env (ka_clients ka) (ka_pools ka) tls, pg_Dying = dying\<rparr>, ka))"

subsection \<open>What the page shows\<close>

lemma pool_clients_map: "pool_clients env heap cs = map (\<lambda>c. hd (pool_clients env heap [c])) cs"
  by (induction cs) simp_all

lemma fold_update_map_of:
  "distinct (map fst kvs) \<Longrightarrow>
   map_of (fold (\<lambda>(k, v). AList.update k v) kvs l) = map_of l ++ map_of kvs"
proof (induction kvs arbitrary: l)
  case (Cons kv kvs)
  obtain k v where kv: "kv = (k, v)" by fastforce
  with Cons.prems have "map_of kvs k = None" by (simp add: map_of_eq_None_iff)
  with Cons.IH [of "AList.update k v l"] Cons.prems show ?case
    by (auto simp: kv update_conv' map_add_def split: option.splits)
qed simp

lemma map_of_show_pools:
  "distinct (map fst kvs) \<Longrightarrow>
   map_of (show_pools env heap pools kvs) = map_option (\<lambda>p. MarshalJSON env heap (pools p)) \<circ> map_of kvs"
  by (simp add: show_pools_def fold_update_map_of map_of_map comp_def)

text \<open>A line of the page is that of the last dying client with this local address.\<close>

lemma show_dying_other:
  "a \<notin> (dying_key env heap \<circ> fst) ` set cns \<Longrightarrow>
   map_of (fold (show_dying env heap) cns l) a = map_of l a"
  by (induction cns arbitrary: l) (auto simp: show_dying_def update_conv')

lemma show_dying_last:
  "(\<forall>cn' \<in> set after. dying_key env heap (fst cn') \<noteq> dying_key env heap (fst cn)) \<Longrightarrow>
   map_of (fold (show_dying env heap) (before @ cn # after) l) (dying_key env heap (fst cn)) =
     Some (dying_line env heap cn)"
proof -
  assume "\<forall>cn' \<in> set after. dying_key env heap (fst cn') \<noteq> dying_key env heap (fst cn)"
  then have "dying_key env heap (fst cn) \<notin> (dying_key env heap \<circ> fst) ` set after" by force
  from show_dying_other [OF this] show ?thesis by (simp add: show_dying_def update_conv')
qed

lemma show_dying_length:
  "length (fold (show_dying env heap) cns l) \<le> length l + length cns"
proof (induction cns arbitrary: l)
  case (Cons cn cns)
  have "length (show_dying env heap cn l) \<le> Suc (length l)"
    unfolding show_dying_def by (induction l) (auto split: if_splits)
  with Cons.IH [of "show_dying env heap cn l"] show ?case by simp
qed simp

lemma show_dying_keys:
  "fst ` set (fold (show_dying env heap) cns l) = fst ` set l \<union> (dying_key env heap \<circ> fst) ` set cns"
  by (induction cns arbitrary: l) (auto simp: show_dying_def dom_update)

lemma ServeHTTP_keeps:
  assumes "pm_inv (ka_raw ka)" and "pm_inv (ka_tls ka)" and "ServeHTTP env t ka = (pg, ka')"
  shows "pm_inv (ka_raw ka')" and "pm_inv (ka_tls ka')"
    and "pm_abs (ka_raw ka') = pm_abs (ka_raw ka)" and "pm_abs (ka_tls ka') = pm_abs (ka_tls ka)"
    and "ka' = ka\<lparr>ka_raw := ka_raw ka', ka_tls := ka_tls ka'\<rparr>"
    and "map_of (pg_Raw pg) =
      map_option (\<lambda>p. MarshalJSON env (ka_clients ka) (ka_pools ka p)) \<circ> pm_abs (ka_raw ka)"
    and "map_of (pg_TLS pg) =
      map_option (\<lambda>p. MarshalJSON env (ka_clients ka) (ka_pools ka p)) \<circ> pm_abs (ka_tls ka)"
    and "pg_Dying pg = fold (show_dying env (ka_clients ka)) (ka_dying ka) []"
proof -
  obtain raw m tls m' where r: "pm_Range (ka_raw ka) = (raw, m)" and t: "pm_Range (ka_tls ka) = (tls, m')"
    by fastforce
  note R = pm_Range_ok [OF assms(1) r] and T = pm_Range_ok [OF assms(2) t]
  show "pm_inv (ka_raw ka')" "pm_inv (ka_tls ka')"
    "pm_abs (ka_raw ka') = pm_abs (ka_raw ka)" "pm_abs (ka_tls ka') = pm_abs (ka_tls ka)"
    "ka' = ka\<lparr>ka_raw := ka_raw ka', ka_tls := ka_tls ka'\<rparr>"
    "map_of (pg_Raw pg) =
      map_option (\<lambda>p. MarshalJSON env (ka_clients ka) (ka_pools ka p)) \<circ> pm_abs (ka_raw ka)"
    "map_of (pg_TLS pg) =
      map_option (\<lambda>p. MarshalJSON env (ka_clients ka) (ka_pools ka p)) \<circ> pm_abs (ka_tls ka)"
    "pg_Dying pg = fold (show_dying env (ka_clients ka)) (ka_dying ka) []"
    using assms(3) R T by (auto simp: ServeHTTP_def r t map_of_show_pools)
qed


text \<open>
  Dying clients share a line when their local addresses are equal, as those of all clients on
  unnamed Unix sockets are: of two clients that still have calls in flight the page shows one.
\<close>

definition one_address :: status_env where
  "one_address = \<lparr>se_created = (\<lambda>_. 0), se_pending = (\<lambda>_. 0), se_LocalAddr = (\<lambda>_. ''@''),
     se_RemoteAddr = (\<lambda>_. ''/run/bolt.sock'')\<rparr>"

definition two_dying :: "unit ka" where
  "two_dying = (NewKeepAliver demo_opts (\<lambda>c. (NewClient (demo_env False) c)\<lparr>cl_references := 1\<rparr>))"

theorem dying_page_hides:
  "map fst (ka_dying (GracefullyClose 1 (GracefullyClose 0 two_dying))) = [0, 1] \<and>
   length (pg_Dying (fst (ServeHTTP one_address 0 (GracefullyClose 1 (GracefullyClose 0 two_dying))))) = 1"
  by (simp add: two_dying_def NewKeepAliver_def GracefullyClose_def ServeHTTP_def pm_Range_def
      pm_New_def show_dying_def dying_key_def one_address_def NewClient_def dirty_list_def Let_def)


end
