(* ===== verification/Client_Conn.thy ===== *)
theory Client_Conn
  imports Request_Response
begin

text \<open>
  \<open>ClientConn\<close> of src/sofabolt/clinetconn.go, with its options (clientconn_options.go), its status
  (clientconnstatus.go) and \<open>IsDeadlineError\<close> (helper.go): a connection with a pluggable protocol. A
  goroutine, \<open>doread\<close>, decodes commands and hands them to a dispatcher, dials again when the
  connection fails, and reports each change of the connection's status.

  The goroutine is a machine of small steps, its program counter is \<open>x_reader\<close>; the other goroutines
  call \<open>Send\<close>, \<open>Close\<close> and \<open>IncrementID\<close> between any two of its steps, so an interleaving is a list
  of actions. What the connection, the dialer and the decoder return are arguments of the actions. A
  connection of the package net is a number; the two wrappers the code puts around it, or in its
  place, are constructors. The calls of the status changer and the dispatcher are recorded, not run.
\<close>

subsection \<open>Status\<close>

datatype ClientConnStatus =
    IdleClientConnStatus | ConnectingClientConnStatus | ReadTimeoutClientConnStatus
  | ActiveClientConnStatus | TransientFailureClientConnStatus | ShutdownClientConnStatus

fun ClientConnStatus_String :: "ClientConnStatus \<Rightarrow> string" where
  "ClientConnStatus_String IdleClientConnStatus = ''Idle''"
| "ClientConnStatus_String ConnectingClientConnStatus = ''Connecting''"
| "ClientConnStatus_String ActiveClientConnStatus = ''Active''"
| "ClientConnStatus_String ReadTimeoutClientConnStatus = ''ReadTimeout''"
| "ClientConnStatus_String TransientFailureClientConnStatus = ''TransientFailure''"
| "ClientConnStatus_String ShutdownClientConnStatus = ''Shutdown''"

subsection \<open>Deadline errors\<close>

text \<open>
  What the type assertions and methods tell of an error: whether it is a \<open>net.Error\<close> and its
  \<open>Timeout\<close>, whether it is a \<open>*net.OpError\<close>, and whether that wraps a \<open>syscall.Errno\<close>.
\<close>

record error_view =
  ev_netError :: bool
  ev_Timeout :: bool
  ev_OpError :: bool
  ev_Errno :: bool

definition IsDeadlineError :: "(go_error \<Rightarrow> error_view) \<Rightarrow> go_error option \<Rightarrow> bool" where
  "IsDeadlineError view err =
     (case err of
        None \<Rightarrow> False
      | Some e \<Rightarrow>
          if \<not> ev_netError (view e) then False
          else if \<not> ev_Timeout (view e) then False
          else if \<not> ev_OpError (view e) then False
          else if ev_Errno (view e) then False
          else True)"

subsection \<open>State\<close>

datatype net_conn = Raw_conn nat | Error_conn go_error | Async_conn net_conn

text \<open>
  Durations are integers. Of the dialer, the status changer and the dispatcher the options say
  whether they are set; no option setter sets \<open>blockmode\<close>.
\<close>

record conn_options =
  co_idleTimeout :: int
  co_readTimeout :: int
  co_writeTimeout :: int
  co_flushInterval :: int
  co_blockmode :: bool
  co_dialer :: bool
  co_statusChanger :: bool
  co_dispatcher :: bool
  co_maxPendingCommands :: int

datatype conn_reader =
    Starting | Decoding | Failed | Checking | Redial | Dialing_conn | Wrapping net_conn
  | Awaiting | Releasing | Exiting | Ended

record 'm client_conn =
  x_options :: conn_options
  x_conn :: "net_conn option"
  x_closed :: bool
  x_id :: "64 word"
  x_status :: ClientConnStatus
  x_changes :: "(ClientConnStatus \<times> ClientConnStatus) list"
  x_reader :: conn_reader
  x_rconn :: net_conn
  x_dispatched :: "(go_error option \<times> 'm) list"
  x_pending :: "(go_error option \<times> 'm) list"
  x_deadlines :: "(net_conn \<times> int) list"
  x_closes :: "net_conn list"
  x_written :: "(net_conn \<times> bytes) list"

text \<open>
  \<open>x_rconn\<close> is the variable \<open>conn\<close> of \<open>doread\<close>, the connection it reads from, and \<open>x_pending\<close> the
  goroutines of \<open>dispatchAsync\<close> that have not run yet. The last three fields list the calls of
  \<open>SetReadDeadline\<close>, \<open>Close\<close> and \<open>Write\<close> on the connections.
\<close>

definition conn_zero :: "'m client_conn" where
  "conn_zero = \<lparr>x_options = \<lparr>co_idleTimeout = 0, co_readTimeout = 0, co_writeTimeout = 0,
       co_flushInterval = 0, co_blockmode = False, co_dialer = False, co_statusChanger = False,
       co_dispatcher = False, co_maxPendingCommands = 0\<rparr>,
     x_conn = None, x_closed = False, x_id = 0, x_status = IdleClientConnStatus, x_changes = [],
     x_reader = Starting, x_rconn = Raw_conn 0, x_dispatched = [], x_pending = [],
     x_deadlines = [], x_closes = [], x_written = []\<rparr>"

subsection \<open>Options\<close>

definition WithClientConnTimeout ::
  "int \<Rightarrow> int \<Rightarrow> int \<Rightarrow> int \<Rightarrow> 'm client_conn \<Rightarrow> 'm client_conn" where
  "WithClientConnTimeout readtimeout writetimeout idletimeout flushInterval c =
     c\<lparr>x_options := (x_options c)\<lparr>co_readTimeout := readtimeout, co_writeTimeout := writetimeout,
         co_idleTimeout := idletimeout\<rparr>\<rparr>"

definition WithClientConnConn :: "net_conn option \<Rightarrow> 'm client_conn \<Rightarrow> 'm client_conn" where
  "WithClientConnConn conn c = c\<lparr>x_conn := conn\<rparr>"

definition WithClientConnMaxPendingCommands :: "int \<Rightarrow> 'm client_conn \<Rightarrow> 'm client_conn" where
  "WithClientConnMaxPendingCommands m c =
     c\<lparr>x_options := (x_options c)\<lparr>co_maxPendingCommands := m\<rparr>\<rparr>"

definition WithClientConnRedial :: "bool \<Rightarrow> 'm client_conn \<Rightarrow> 'm client_conn" where
  "WithClientConnRedial dialer c = c\<lparr>x_options := (x_options c)\<lparr>co_dialer := dialer\<rparr>\<rparr>"

definition WithClientConnStatusChanger :: "bool \<Rightarrow> 'm client_conn \<Rightarrow> 'm client_conn" where
  "WithClientConnStatusChanger changer c =
     c\<lparr>x_options := (x_options c)\<lparr>co_statusChanger := changer\<rparr>\<rparr>"

definition WithClientConnDispatcher :: "bool \<Rightarrow> 'm client_conn \<Rightarrow> 'm client_conn" where
  "WithClientConnDispatcher dispatcher c =
     c\<lparr>x_options := (x_options c)\<lparr>co_dispatcher := dispatcher\<rparr>\<rparr>"

subsection \<open>Construction\<close>

definition OnStatusChange :: "ClientConnStatus \<Rightarrow> 'm client_conn \<Rightarrow> 'm client_conn" where
  "OnStatusChange to x =
     (let from = x_status x
      in if from = to then x
         else let x = x\<lparr>x_status := to\<rparr>
              in if co_statusChanger (x_options x)
                 then x\<lparr>x_changes := x_changes x @ [(from, to)]\<rparr> else x)"

definition setConn :: "net_conn \<Rightarrow> 'm client_conn \<Rightarrow> 'm client_conn" where
  "setConn conn x = x\<lparr>x_conn := Some conn\<rparr>"

definition getConn :: "'m client_conn \<Rightarrow> net_conn" where
  "getConn x = the (x_conn x)"

text \<open>What a new connection needs of its surroundings.\<close>

record conn_env =
  xe_NumCPU :: int
  xe_Dial :: "go_error + net_conn"
  xe_asyncwriteconn_New :: "net_conn \<Rightarrow> go_error option"
  xe_view :: "go_error \<Rightarrow> error_view"

text \<open>The wrapper of the package asyncwriteconn, around a connection whose writer could be made.\<close>

definition buildAsyncWriteConn :: "conn_env \<Rightarrow> net_conn \<Rightarrow> go_error + net_conn" where
  "buildAsyncWriteConn env conn =
     (case xe_asyncwriteconn_New env conn of Some err \<Rightarrow> Inl err | None \<Rightarrow> Inr (Async_conn conn))"

definition conn_polyfill :: "conn_env \<Rightarrow> 'm client_conn \<Rightarrow> go_error option \<times> 'm client_conn" where
  "conn_polyfill env x =
     (if \<not> co_dispatcher (x_options x) then (Some (ErrOther 1), x)
      else
        let x = (if co_maxPendingCommands (x_options x) = 0
                 then WithClientConnMaxPendingCommands (xe_NumCPU env * 16) x else x);
            x = OnStatusChange IdleClientConnStatus x
        in case x_conn x of
             None \<Rightarrow>
               if \<not> co_dialer (x_options x) then (Some ErrNilDialer, x)
               else
                 let x = OnStatusChange ConnectingClientConnStatus x
                 in (case xe_Dial env of
                       Inl err \<Rightarrow> (None, setConn (Error_conn err) x)
                     | Inr conn \<Rightarrow> (None, setConn conn x))
           | Some conn \<Rightarrow>
               (case buildAsyncWriteConn env conn of
                  Inl err \<Rightarrow> (Some err, x)
                | Inr conn \<Rightarrow> (None, setConn conn x)))"

definition NewClientConn ::
  "conn_env \<Rightarrow> ('m client_conn \<Rightarrow> 'm client_conn) list \<Rightarrow> go_error + 'm client_conn" where
  "NewClientConn env options =
     (let c = fold (\<lambda>option c. option c) options conn_zero
      in case conn_polyfill env c of
           (Some err, c) \<Rightarrow> Inl err
         | (None, c) \<Rightarrow> Inr c)"

subsection \<open>The other goroutines\<close>

definition IncrementID :: "'m client_conn \<Rightarrow> 64 word \<times> 'm client_conn" where
  "IncrementID x = (x_id x + 1, x\<lparr>x_id := x_id x + 1\<rparr>)"

definition conn_Write :: "bytes \<Rightarrow> 'm client_conn \<Rightarrow> 'm client_conn" where
  "conn_Write b x = x\<lparr>x_written := x_written x @ [(getConn x, b)]\<rparr>"

text \<open>
  \<open>Send\<close> with the result of the encoder and of the connection's \<open>Write\<close>; the pooled buffer is the
  encoder's affair.
\<close>

definition Send ::
  "go_error + bytes \<Rightarrow> go_error option \<Rightarrow> 'm client_conn \<Rightarrow> go_error option \<times> 'm client_conn" where
  "Send encoded written x =
     (case encoded of Inl err \<Rightarrow> (Some err, x) | Inr b \<Rightarrow> (written, conn_Write b x))"

definition conn_Close :: "'m client_conn \<Rightarrow> go_error option \<times> 'm client_conn" where
  "conn_Close x =
     (if x_closed x then (Some ErrClientWasClosed, x)
      else (None, x\<lparr>x_closed := True, x_closes := x_closes x @ [getConn x]\<rparr>))"

subsection \<open>The reader\<close>

definition conn_setConnReadTimeout :: "net_conn \<Rightarrow> int \<Rightarrow> go_error option \<Rightarrow> 'm client_conn \<Rightarrow>
    go_error option \<times> 'm client_conn" where
  "conn_setConnReadTimeout conn now result x =
     (if co_readTimeout (x_options x) > 0
      then (result, x\<lparr>x_deadlines := x_deadlines x @ [(conn, now + co_readTimeout (x_options x))]\<rparr>)
      else (None, x))"

text \<open>
  The hook that the buffered reader calls at time \<open>now\<close> before each \<open>Read\<close> of the connection;
  \<open>result\<close> is what \<open>SetReadDeadline\<close> returns. An error of the hook ends the \<open>Read\<close>.
\<close>

definition conn_beforeread ::
  "int \<Rightarrow> go_error option \<Rightarrow> 'm client_conn \<Rightarrow> go_error option \<times> 'm client_conn" where
  "conn_beforeread now result x =
     (case conn_setConnReadTimeout (x_rconn x) now result x of
        (Some err, x) \<Rightarrow> (Some err, x)
      | (None, x) \<Rightarrow> (None, OnStatusChange ActiveClientConnStatus x))"

definition conn_Dispatch :: "go_error option \<Rightarrow> 'm \<Rightarrow> 'm client_conn \<Rightarrow> 'm client_conn" where
  "conn_Dispatch err cmd x = x\<lparr>x_dispatched := x_dispatched x @ [(err, cmd)]\<rparr>"

definition DoDispatch :: "go_error option \<Rightarrow> 'm \<Rightarrow> 'm client_conn \<Rightarrow> 'm client_conn" where
  "DoDispatch err cmd x =
     (if \<not> co_blockmode (x_options x) then conn_Dispatch err cmd x
      else x\<lparr>x_pending := x_pending x @ [(err, cmd)]\<rparr>)"

text \<open>The \<open>i\<close>-th waiting goroutine runs.\<close>

definition dispatchAsync :: "nat \<Rightarrow> 'm client_conn \<Rightarrow> 'm client_conn option" where
  "dispatchAsync i x =
     (if i < length (x_pending x)
      then Some (case x_pending x ! i of (err, cmd) \<Rightarrow>
             conn_Dispatch err cmd (x\<lparr>x_pending := take i (x_pending x) @ drop (i + 1) (x_pending x)\<rparr>))
      else None)"

definition set_xreader :: "conn_reader \<Rightarrow> 'm client_conn \<Rightarrow> 'm client_conn" where
  "set_xreader r x = x\<lparr>x_reader := r\<rparr>"

definition is_errorconn :: "net_conn \<Rightarrow> bool" where
  "is_errorconn conn = (case conn of Error_conn err \<Rightarrow> True | _ \<Rightarrow> False)"

text \<open>The body of the read loop, when \<open>Decode\<close> returned \<open>cmd\<close> and \<open>err\<close>.\<close>

definition decode_returns ::
  "conn_env \<Rightarrow> 'm \<Rightarrow> go_error option \<Rightarrow> 'm client_conn \<Rightarrow> 'm client_conn" where
  "decode_returns env cmd err x =
     (if err \<noteq> None \<and> is_errorconn (x_rconn x) then set_xreader Failed (DoDispatch err cmd x)
      else if err \<noteq> None \<and> IsDeadlineError (xe_view env) err
      then OnStatusChange ReadTimeoutClientConnStatus x
      else
        let x = DoDispatch err cmd x
        in if err \<noteq> None then set_xreader Failed x else x)"

text \<open>\<open>mayRedial\<close> up to the loop of \<open>redial\<close>.\<close>

definition conn_mayRedial :: "'m client_conn \<Rightarrow> 'm client_conn" where
  "conn_mayRedial x =
     (if x_closed x then set_xreader Awaiting x
      else if \<not> co_dialer (x_options x) then set_xreader Awaiting x
      else set_xreader Redial (OnStatusChange ConnectingClientConnStatus x))"

declare conn_mayRedial_def [simp]

text \<open>
  The rest of \<open>doread\<close>: \<open>mayRedial\<close> is \<open>Checking\<close>, \<open>redial\<close> the states \<open>Redial\<close> and \<open>Dialing_conn\<close>, the
  wait for the dispatching goroutines \<open>Awaiting\<close>.
\<close>

definition doread_step :: "'m client_conn \<Rightarrow> 'm client_conn option" where
  "doread_step x =
     (case x_reader x of
        Starting \<Rightarrow>
          Some (set_xreader Decoding (OnStatusChange ActiveClientConnStatus (x\<lparr>x_rconn := getConn x\<rparr>)))
      | Failed \<Rightarrow> Some (set_xreader Checking (OnStatusChange TransientFailureClientConnStatus x))
      | Checking \<Rightarrow> Some (conn_mayRedial x)
      | Redial \<Rightarrow> Some (set_xreader (if x_closed x then Awaiting else Dialing_conn) x)
      | Awaiting \<Rightarrow> if x_pending x = [] then Some (set_xreader Releasing x) else None
      | Releasing \<Rightarrow> Some (set_xreader Exiting (x\<lparr>x_closes := x_closes x @ [getConn x]\<rparr>))
      | Exiting \<Rightarrow> Some (set_xreader Ended (OnStatusChange ShutdownClientConnStatus x))
      | _ \<Rightarrow> None)"

definition conn_dialed :: "go_error + net_conn \<Rightarrow> 'm client_conn \<Rightarrow> 'm client_conn option" where
  "conn_dialed result x =
     (if x_reader x = Dialing_conn
      then Some (set_xreader (case result of Inl err \<Rightarrow> Redial | Inr conn \<Rightarrow> Wrapping conn) x)
      else None)"

definition conn_wrapped :: "conn_env \<Rightarrow> 'm client_conn \<Rightarrow> 'm client_conn option" where
  "conn_wrapped env x =
     (case x_reader x of
        Wrapping conn \<Rightarrow>
          Some (case buildAsyncWriteConn env conn of
                  Inl dialerr \<Rightarrow> set_xreader Awaiting x
                | Inr newconn \<Rightarrow>
                    let x = x\<lparr>x_closes := x_closes x @ [x_rconn x]\<rparr>;
                        x = setConn newconn (x\<lparr>x_rconn := newconn\<rparr>)
                    in set_xreader Decoding (OnStatusChange ActiveClientConnStatus x))
      | _ \<Rightarrow> None)"

subsection \<open>Runs\<close>

datatype 'm conn_action =
    Step_reader
  | Fill int "go_error option"
  | Decode_returns 'm "go_error option"
  | Dialed "go_error + net_conn"
  | Wrap
  | Dispatch_runs nat
  | Send_cmd "go_error + bytes" "go_error option"
  | Next_id
  | Close_conn

definition conn_act ::
  "conn_env \<Rightarrow> 'm conn_action \<Rightarrow> 'm client_conn \<Rightarrow> 'm client_conn option" where
  "conn_act env a x =
     (case a of
        Step_reader \<Rightarrow> doread_step x
      | Fill now result \<Rightarrow>
          if x_reader x = Decoding then Some (snd (conn_beforeread now result x)) else None
      | Decode_returns cmd err \<Rightarrow>
          if x_reader x = Decoding then Some (decode_returns env cmd err x) else None
      | Dialed result \<Rightarrow> conn_dialed result x
      | Wrap \<Rightarrow> conn_wrapped env x
      | Dispatch_runs i \<Rightarrow> dispatchAsync i x
      | Send_cmd encoded written \<Rightarrow> Some (snd (Send encoded written x))
      | Next_id \<Rightarrow> Some (snd (IncrementID x))
      | Close_conn \<Rightarrow> Some (snd (conn_Close x)))"

fun conn_run :: "conn_env \<Rightarrow> 'm conn_action list \<Rightarrow> 'm client_conn \<Rightarrow> 'm client_conn option" where
  "conn_run env [] x = Some x"
| "conn_run env (a # as) x = Option.bind (conn_act env a x) (conn_run env as)"

text \<open>The setters of clientconn_options.go that the model has.\<close>

inductive conn_setter :: "('m client_conn \<Rightarrow> 'm client_conn) \<Rightarrow> bool" where
  "conn_setter (WithClientConnTimeout r w i f)"
| "conn_setter (WithClientConnConn conn)"
| "conn_setter (WithClientConnMaxPendingCommands m)"
| "conn_setter (WithClientConnRedial dialer)"
| "conn_setter (WithClientConnStatusChanger changer)"
| "conn_setter (WithClientConnDispatcher dispatcher)"

text \<open>
  Every state a client connection can be in: its environment may answer differently at each step.
\<close>

inductive conn_reachable :: "'m client_conn \<Rightarrow> bool" where
  new: "NewClientConn env options = Inr x \<Longrightarrow> list_all conn_setter options \<Longrightarrow> conn_reachable x"
| act: "conn_reachable x \<Longrightarrow> conn_act env a x = Some x' \<Longrightarrow> conn_reachable x'"

subsection \<open>The status\<close>

text \<open>The changes of status there may be, and a log of changes that is a path of them.\<close>

fun status_edge :: "ClientConnStatus \<Rightarrow> ClientConnStatus \<Rightarrow> bool" where
  "status_edge IdleClientConnStatus b \<longleftrightarrow> b \<in> {ConnectingClientConnStatus, ActiveClientConnStatus}"
| "status_edge ConnectingClientConnStatus b \<longleftrightarrow> b \<in> {ActiveClientConnStatus, ShutdownClientConnStatus}"
| "status_edge ActiveClientConnStatus b \<longleftrightarrow>
     b \<in> {ReadTimeoutClientConnStatus, TransientFailureClientConnStatus}"
| "status_edge ReadTimeoutClientConnStatus b \<longleftrightarrow>
     b \<in> {ActiveClientConnStatus, TransientFailureClientConnStatus}"
| "status_edge TransientFailureClientConnStatus b \<longleftrightarrow>
     b \<in> {ConnectingClientConnStatus, ShutdownClientConnStatus}"
| "status_edge ShutdownClientConnStatus b \<longleftrightarrow> False"

fun status_path ::
  "ClientConnStatus \<Rightarrow> (ClientConnStatus \<times> ClientConnStatus) list \<Rightarrow> ClientConnStatus \<Rightarrow> bool" where
  "status_path a [] z \<longleftrightarrow> a = z"
| "status_path a ((b, c) # es) z \<longleftrightarrow> a = b \<and> status_edge b c \<and> status_path c es z"

lemma status_path_snoc [simp]:
  "status_path a (es @ [(y, z)]) z' \<longleftrightarrow> status_path a es y \<and> status_edge y z \<and> z' = z"
  by (induction es arbitrary: a) auto

text \<open>The status at each point of \<open>doread\<close>.\<close>

fun reader_status :: "conn_reader \<Rightarrow> ClientConnStatus set" where
  "reader_status Starting = {IdleClientConnStatus, ConnectingClientConnStatus}"
| "reader_status Decoding = {ActiveClientConnStatus, ReadTimeoutClientConnStatus}"
| "reader_status Failed = {ActiveClientConnStatus, ReadTimeoutClientConnStatus}"
| "reader_status Checking = {TransientFailureClientConnStatus}"
| "reader_status Redial = {ConnectingClientConnStatus}"
| "reader_status Dialing_conn = {ConnectingClientConnStatus}"
| "reader_status (Wrapping conn) = {ConnectingClientConnStatus}"
| "reader_status Awaiting = {ConnectingClientConnStatus, TransientFailureClientConnStatus}"
| "reader_status Releasing = {ConnectingClientConnStatus, TransientFailureClientConnStatus}"
| "reader_status Exiting = {ConnectingClientConnStatus, TransientFailureClientConnStatus}"
| "reader_status Ended = {ShutdownClientConnStatus}"

definition status_inv :: "'m client_conn \<Rightarrow> bool" where
  "status_inv x \<longleftrightarrow> x_status x \<in> reader_status (x_reader x) \<and>
     (if co_statusChanger (x_options x) then status_path IdleClientConnStatus (x_changes x) (x_status x)
      else x_changes x = [])"

lemma OnStatusChange_simps [simp]:
  "x_status (OnStatusChange to x) = to" "x_options (OnStatusChange to x) = x_options x"
  "x_reader (OnStatusChange to x) = x_reader x" "x_closed (OnStatusChange to x) = x_closed x"
  "x_conn (OnStatusChange to x) = x_conn x" "x_rconn (OnStatusChange to x) = x_rconn x"
  "x_dispatched (OnStatusChange to x) = x_dispatched x" "x_pending (OnStatusChange to x) = x_pending x"
  "x_closes (OnStatusChange to x) = x_closes x" "x_written (OnStatusChange to x) = x_written x"
  by (simp_all add: OnStatusChange_def Let_def)

lemma set_xreader_simps [simp]:
  "x_status (set_xreader r x) = x_status x" "x_options (set_xreader r x) = x_options x"
  "x_reader (set_xreader r x) = r" "x_changes (set_xreader r x) = x_changes x"
  "x_closed (set_xreader r x) = x_closed x" "x_conn (set_xreader r x) = x_conn x"
  "x_rconn (set_xreader r x) = x_rconn x" "x_pending (set_xreader r x) = x_pending x"
  "x_dispatched (set_xreader r x) = x_dispatched x" "x_closes (set_xreader r x) = x_closes x"
  by (simp_all add: set_xreader_def)

lemma DoDispatch_simps [simp]:
  "x_status (DoDispatch e m x) = x_status x" "x_options (DoDispatch e m x) = x_options x"
  "x_reader (DoDispatch e m x) = x_reader x" "x_changes (DoDispatch e m x) = x_changes x"
  "x_rconn (DoDispatch e m x) = x_rconn x" "x_closed (DoDispatch e m x) = x_closed x"
  by (simp_all add: DoDispatch_def conn_Dispatch_def)

text \<open>A change along an edge, or none, keeps the log a path.\<close>

lemma status_inv_change:
  assumes "status_inv x" and "x_status x = to \<or> status_edge (x_status x) to"
    and "to \<in> reader_status r"
  shows "status_inv (set_xreader r (OnStatusChange to x))"
  using assms by (auto simp: status_inv_def OnStatusChange_def Let_def)

lemma status_inv_reader:
  "status_inv x \<Longrightarrow> x_status x \<in> reader_status r \<Longrightarrow> status_inv (set_xreader r x)"
  by (simp add: status_inv_def)

lemma status_inv_cong:
  "status_inv x \<Longrightarrow> x_status y = x_status x \<Longrightarrow> x_options y = x_options x \<Longrightarrow>
   x_reader y = x_reader x \<Longrightarrow> x_changes y = x_changes x \<Longrightarrow> status_inv y"
  by (simp add: status_inv_def)

lemma status_inv_here: "status_inv x \<Longrightarrow> x_status x \<in> reader_status (x_reader x)"
  by (simp add: status_inv_def)

lemma set_xreader_id: "set_xreader (x_reader x) x = x"
  by (simp add: set_xreader_def)

lemma status_inv_stay:
  "status_inv x \<Longrightarrow> x_status x = to \<or> status_edge (x_status x) to \<Longrightarrow>
   to \<in> reader_status (x_reader x) \<Longrightarrow> status_inv (OnStatusChange to x)"
  by (auto simp: status_inv_def OnStatusChange_def Let_def)

lemma status_inv_doread:
  assumes "doread_step x = Some x'" and i: "status_inv x"
  shows "status_inv x'"
proof -
  have here: "x_status x \<in> reader_status (x_reader x)" using i by (rule status_inv_here)
  have r: "status_inv (x\<lparr>x_rconn := c\<rparr>)" "status_inv (x\<lparr>x_closes := cs\<rparr>)" for c cs
    using i by (auto intro: status_inv_cong)
  show ?thesis
  proof (cases "x_reader x")
    case Starting
    with assms here show ?thesis
      by (auto simp: doread_step_def intro!: status_inv_change r)
  next
    case Failed
    with assms here show ?thesis by (auto simp: doread_step_def intro!: status_inv_change)
  next
    case Checking
    have "status_inv (set_xreader Awaiting x)" using i here Checking by (auto intro: status_inv_reader)
    moreover have "status_inv (set_xreader Redial (OnStatusChange ConnectingClientConnStatus x))"
      using here Checking by (intro status_inv_change [OF i]) auto
    ultimately show ?thesis using Checking assms(1) by (auto simp: doread_step_def split: if_splits)
  next
    case Redial
    with assms here show ?thesis by (auto simp: doread_step_def intro!: status_inv_reader)
  next
    case Awaiting
    with assms here show ?thesis
      by (auto simp: doread_step_def intro!: status_inv_reader split: if_splits)
  next
    case Releasing
    with assms here show ?thesis
      by (auto simp: doread_step_def intro!: status_inv_reader r)
  next
    case Exiting
    with assms here show ?thesis by (auto simp: doread_step_def intro!: status_inv_change)
  qed (use assms in \<open>simp_all add: doread_step_def\<close>)
qed

lemma status_inv_decode:
  assumes "x_reader x = Decoding" and i: "status_inv x"
  shows "status_inv (decode_returns env cmd err x)"
proof -
  have here: "x_status x \<in> {ActiveClientConnStatus, ReadTimeoutClientConnStatus}"
    using status_inv_here [OF i] assms(1) by simp
  have d: "status_inv (DoDispatch err cmd x)" using i by (rule status_inv_cong) simp_all
  have f: "status_inv (set_xreader Failed (DoDispatch err cmd x))"
    by (rule status_inv_reader [OF d]) (use here in simp)
  have t: "status_inv (OnStatusChange ReadTimeoutClientConnStatus x)"
    by (rule status_inv_stay [OF i]) (use here assms(1) in auto)
  show ?thesis using d f t by (cases err) (auto simp: decode_returns_def Let_def)
qed

lemma status_inv_fill:
  assumes "x_reader x = Decoding" and i: "status_inv x"
  shows "status_inv (snd (conn_beforeread now result x))"
proof -
  obtain e y where y: "conn_setConnReadTimeout (x_rconn x) now result x = (e, y)" by fastforce
  then have y': "status_inv y" "x_reader y = Decoding"
    using i assms(1) by (auto simp: conn_setConnReadTimeout_def intro: status_inv_cong split: if_splits)
  then have "x_status y \<in> {ActiveClientConnStatus, ReadTimeoutClientConnStatus}"
    using status_inv_here [of y] by simp
  then have "status_inv (OnStatusChange ActiveClientConnStatus y)"
    by (intro status_inv_stay y'(1)) (use y'(2) in auto)
  with y y' show ?thesis by (cases e) (simp_all add: conn_beforeread_def)
qed

lemma status_inv_wrapped:
  assumes "conn_wrapped env x = Some x'" and i: "status_inv x"
  shows "status_inv x'"
proof (cases "x_reader x")
  case (Wrapping conn)
  then have here: "x_status x = ConnectingClientConnStatus" using status_inv_here [OF i] by simp
  have "status_inv (setConn newconn (x\<lparr>x_closes := cs, x_rconn := newconn\<rparr>))" for newconn cs
    using i by (rule status_inv_cong) (simp_all add: setConn_def)
  then have "status_inv (set_xreader Decoding (OnStatusChange ActiveClientConnStatus
      (setConn newconn (x\<lparr>x_closes := cs, x_rconn := newconn\<rparr>))))" for newconn cs
    by (rule status_inv_change) (simp_all add: setConn_def here)
  moreover have "status_inv (set_xreader Awaiting x)"
    by (rule status_inv_reader [OF i]) (simp add: here)
  ultimately show ?thesis using assms(1) Wrapping
    by (auto simp: conn_wrapped_def Let_def split: sum.splits)
qed (use assms(1) in \<open>simp_all add: conn_wrapped_def\<close>)

lemma status_inv_act:
  assumes "conn_act env a x = Some x'" and i: "status_inv x"
  shows "status_inv x'"
proof (cases a)
  case Step_reader
  with assms show ?thesis by (auto simp: conn_act_def intro: status_inv_doread)
next
  case (Fill now result)
  with assms show ?thesis by (auto simp: conn_act_def intro: status_inv_fill split: if_splits)
next
  case (Decode_returns cmd err)
  with assms show ?thesis by (auto simp: conn_act_def intro: status_inv_decode split: if_splits)
next
  case (Dialed result)
  with assms status_inv_here [OF i] show ?thesis
    by (auto simp: conn_act_def conn_dialed_def intro!: status_inv_reader split: if_splits sum.splits)
next
  case Wrap
  with assms show ?thesis by (auto simp: conn_act_def intro: status_inv_wrapped)
next
  case (Dispatch_runs k)
  with assms show ?thesis
    by (auto simp: conn_act_def dispatchAsync_def conn_Dispatch_def intro!: status_inv_cong [OF i]
        split: if_splits prod.splits)
next
  case (Send_cmd encoded written)
  with assms show ?thesis
    by (auto simp: conn_act_def Send_def conn_Write_def intro!: status_inv_cong [OF i] split: sum.splits)
next
  case Next_id
  with assms show ?thesis by (auto simp: conn_act_def IncrementID_def intro!: status_inv_cong [OF i])
next
  case Close_conn
  with assms show ?thesis
    by (auto simp: conn_act_def conn_Close_def intro!: status_inv_cong [OF i] split: if_splits)
qed

lemma setter_fresh:
  "conn_setter f \<Longrightarrow> x_status (f y) = x_status y \<and> x_changes (f y) = x_changes y \<and>
     x_reader (f y) = x_reader y \<and> x_closed (f y) = x_closed y \<and> x_id (f y) = x_id y"
  by (induction rule: conn_setter.induct)
    (simp_all add: WithClientConnTimeout_def WithClientConnConn_def
      WithClientConnMaxPendingCommands_def WithClientConnRedial_def
      WithClientConnStatusChanger_def WithClientConnDispatcher_def)

lemma setters_fresh:
  "list_all conn_setter fs \<Longrightarrow> x_status (fold (\<lambda>f. f) fs y) = x_status y \<and>
     x_changes (fold (\<lambda>f. f) fs y) = x_changes y \<and> x_reader (fold (\<lambda>f. f) fs y) = x_reader y \<and>
     x_closed (fold (\<lambda>f. f) fs y) = x_closed y \<and> x_id (fold (\<lambda>f. f) fs y) = x_id y"
  by (induction fs arbitrary: y) (simp_all add: setter_fresh)

lemma status_inv_polyfill:
  assumes "conn_polyfill env y = (e, x)" and "status_inv y" and "x_reader y = Starting"
    and "x_status y = IdleClientConnStatus"
  shows "status_inv x"
proof -
  define z where "z = (if co_maxPendingCommands (x_options y) = 0
    then WithClientConnMaxPendingCommands (xe_NumCPU env * 16) y else y)"
  have z: "status_inv z" "x_reader z = Starting" "x_status z = IdleClientConnStatus"
    using assms(2-4) by (auto simp: z_def status_inv_def WithClientConnMaxPendingCommands_def)
  have idle: "OnStatusChange IdleClientConnStatus z = z" using z(3) by (simp add: OnStatusChange_def)
  have conn: "status_inv (setConn c w)" if "status_inv w" for c and w :: "'a client_conn"
    using that by (rule status_inv_cong) (simp_all add: setConn_def)
  have dial: "status_inv (OnStatusChange ConnectingClientConnStatus z)"
    by (rule status_inv_stay) (use z in auto)
  show ?thesis
  proof (cases "co_dispatcher (x_options y)")
    case True
    have "conn_polyfill env y = (case x_conn z of
        None \<Rightarrow> if \<not> co_dialer (x_options z) then (Some ErrNilDialer, z)
          else (case xe_Dial env of
                  Inl err \<Rightarrow> (None, setConn (Error_conn err) (OnStatusChange ConnectingClientConnStatus z))
                | Inr conn \<Rightarrow> (None, setConn conn (OnStatusChange ConnectingClientConnStatus z)))
      | Some conn \<Rightarrow> (case buildAsyncWriteConn env conn of
                        Inl err \<Rightarrow> (Some err, z) | Inr conn \<Rightarrow> (None, setConn conn z)))"
      using True idle by (cases "x_conn z"; cases "xe_Dial env")
        (simp_all add: conn_polyfill_def z_def [symmetric] Let_def split: sum.split)
    with assms(1) conn [OF z(1)] conn [OF dial] z(1) show ?thesis
      by (auto split: option.splits sum.splits if_splits)
  qed (use assms(1,2) in \<open>simp add: conn_polyfill_def\<close>)
qed

lemma status_inv_new:
  assumes "NewClientConn env options = Inr x" and "list_all conn_setter options"
  shows "status_inv x"
proof -
  let ?y = "fold (\<lambda>f. f) options conn_zero"
  have "status_inv ?y" "x_reader ?y = Starting" "x_status ?y = IdleClientConnStatus"
    using setters_fresh [OF assms(2), of conn_zero] by (auto simp: status_inv_def conn_zero_def)
  moreover obtain e where "conn_polyfill env ?y = (e, x)"
    using assms(1) by (auto simp: NewClientConn_def Let_def split: option.splits prod.splits)
  ultimately show ?thesis by (rule status_inv_polyfill [rotated])
qed

lemma conn_reachable_status: "conn_reachable x \<Longrightarrow> status_inv x"
  by (induction rule: conn_reachable.induct) (auto intro: status_inv_new status_inv_act)

subsection \<open>Properties\<close>

lemma ended_act:
  assumes "conn_act env a x = Some x'" and "x_reader x = Ended"
  shows "x_reader x' = Ended \<and> x_changes x' = x_changes x \<and> x_status x' = x_status x"
  using assms by (cases a) (auto simp: conn_act_def doread_step_def conn_dialed_def conn_wrapped_def
      dispatchAsync_def conn_Dispatch_def Send_def conn_Write_def IncrementID_def conn_Close_def
      split: if_splits prod.splits sum.splits)

definition demo_conn_env :: conn_env where
  "demo_conn_env = \<lparr>xe_NumCPU = 4, xe_Dial = Inr (Raw_conn 1), xe_asyncwriteconn_New = (\<lambda>_. None),
     xe_view = (\<lambda>e. \<lparr>ev_netError = e = ErrOther 9, ev_Timeout = True, ev_OpError = True,
                       ev_Errno = False\<rparr>)\<rparr>"

definition demo_conn :: "unit client_conn" where
  "demo_conn = conn_zero\<lparr>x_options := \<lparr>co_idleTimeout = 0, co_readTimeout = 5, co_writeTimeout = 0,
     co_flushInterval = 0, co_blockmode = False, co_dialer = True, co_statusChanger = True,
     co_dispatcher = True, co_maxPendingCommands = 64\<rparr>, x_status := ConnectingClientConnStatus,
     x_changes := [(IdleClientConnStatus, ConnectingClientConnStatus)], x_conn := Some (Raw_conn 1)\<rparr>"

lemma demo_conn_reachable: "conn_reachable demo_conn"
proof (rule conn_reachable.new)
  show "NewClientConn demo_conn_env [WithClientConnTimeout 5 0 0 7, WithClientConnRedial True,
      WithClientConnStatusChanger True, WithClientConnDispatcher True] = Inr demo_conn"
    by (simp add: NewClientConn_def conn_polyfill_def demo_conn_env_def demo_conn_def conn_zero_def
        WithClientConnTimeout_def WithClientConnRedial_def WithClientConnStatusChanger_def
        WithClientConnDispatcher_def WithClientConnMaxPendingCommands_def OnStatusChange_def
        setConn_def Let_def)
qed (auto intro: conn_setter.intros)

lemma conn_act_reader [simp]: "conn_act env Step_reader x = doread_step x"
  by (simp add: conn_act_def)

lemma conn_run_reachable: "conn_run env as x = Some x' \<Longrightarrow> conn_reachable x \<Longrightarrow> conn_reachable x'"
proof (induction as arbitrary: x)
  case (Cons a as)
  then show ?case by (cases "conn_act env a x") (auto intro: conn_reachable.act)
qed simp

lemmas conn_eval = conn_act_def doread_step_def conn_dialed_def conn_wrapped_def conn_Close_def
  decode_returns_def conn_beforeread_def conn_setConnReadTimeout_def OnStatusChange_def set_xreader_def
  DoDispatch_def conn_Dispatch_def IsDeadlineError_def is_errorconn_def setConn_def getConn_def
  buildAsyncWriteConn_def demo_conn_env_def demo_conn_def conn_zero_def Let_def

text \<open>
  C13. The status of a connection. Whatever the connection, the dialer and the decoder do and however
  the other goroutines interleave, the changes reported to the status changer are a path from Idle
  along the edges of \<open>status_edge\<close> to the current status, each reported once and in order; Shutdown is
  the status exactly when the reader has ended, and nothing changes any more after it.
\<close>

theorem conn_status_path:
  assumes "conn_reachable x"
  shows "(co_statusChanger (x_options x) \<longrightarrow> status_path IdleClientConnStatus (x_changes x) (x_status x)) \<and>
    (x_status x = ShutdownClientConnStatus \<longleftrightarrow> x_reader x = Ended) \<and>
    (x_reader x = Ended \<longrightarrow> (\<forall>env a x'. conn_act env a x = Some x' \<longrightarrow>
       x_status x' = ShutdownClientConnStatus \<and> x_changes x' = x_changes x))"
proof -
  have i: "status_inv x" by (rule conn_reachable_status [OF assms])
  have "x_status x = ShutdownClientConnStatus \<longleftrightarrow> x_reader x = Ended"
    using status_inv_here [OF i] by (cases "x_reader x") auto
  then show ?thesis using i ended_act [of _ _ x] unfolding status_inv_def by metis
qed

definition status_run :: "unit conn_action list" where
  "status_run = [Step_reader, Fill 10 None, Decode_returns () (Some (ErrOther 9)), Fill 20 None,
     Decode_returns () None, Decode_returns () (Some ErrEOF), Step_reader, Step_reader, Step_reader,
     Dialed (Inl (ErrOther 2)), Close_conn, Step_reader, Step_reader, Step_reader, Step_reader]"

lemma conn_status_path_witness:
  "\<exists>x. conn_run demo_conn_env status_run demo_conn = Some x \<and> x_reader x = Ended \<and>
     x_status x = ShutdownClientConnStatus \<and> length (x_changes x) = 7 \<and>
     status_path IdleClientConnStatus (x_changes x) ShutdownClientConnStatus"
proof -
  obtain x where run: "conn_run demo_conn_env status_run demo_conn = Some x"
    and e: "x_reader x = Ended" "length (x_changes x) = 7" "co_statusChanger (x_options x)"
    by (simp add: status_run_def conn_eval)
  have "conn_reachable x" by (rule conn_run_reachable [OF run demo_conn_reachable])
  from conn_status_path [OF this] run e show ?thesis by auto
qed

text \<open>
  What \<open>Close\<close> brings about. Once a connection is closed and its decoder fails, the reader hands
  that one error to the dispatcher, dials nothing, closes the connection and ends within five
  steps of its own, in status Shutdown.
\<close>

theorem conn_close_ends:
  assumes "x_closed x" and "x_reader x = Decoding" and "\<not> co_blockmode (x_options x)"
    and "x_pending x = []" and "\<not> IsDeadlineError (xe_view env) (Some e)"
  shows "\<exists>x'. conn_run env (Decode_returns cmd (Some e) # replicate 5 Step_reader) x = Some x' \<and>
    x_reader x' = Ended \<and> x_status x' = ShutdownClientConnStatus \<and>
    x_dispatched x' = x_dispatched x @ [(Some e, cmd)] \<and> x_closes x' = x_closes x @ [getConn x]"
proof -
  define y where "y = set_xreader Failed (DoDispatch (Some e) cmd x)"
  have d: "conn_act env (Decode_returns cmd (Some e)) x = Some y"
    using assms by (simp add: conn_act_def decode_returns_def Let_def y_def)
  have y: "x_closed y" "x_pending y = []" "x_reader y = Failed" "getConn y = getConn x"
    "x_dispatched y = x_dispatched x @ [(Some e, cmd)]" "x_closes y = x_closes x"
    using assms by (simp_all add: y_def DoDispatch_def conn_Dispatch_def set_xreader_def getConn_def)
  then show ?thesis
    by (simp add: d numeral_eq_Suc doread_step_def getConn_def)
qed

lemma conn_close_ends_witness:
  "\<exists>x x'. conn_run demo_conn_env [Step_reader, Close_conn] demo_conn = Some x \<and>
     conn_run demo_conn_env (Decode_returns () (Some ErrEOF) # replicate 5 Step_reader) x = Some x' \<and>
     x_reader x' = Ended \<and> x_closes x' = [Raw_conn 1, Raw_conn 1]"
proof -
  obtain x where run: "conn_run demo_conn_env [Step_reader, Close_conn] demo_conn = Some x"
    and x: "x_closed x" "x_reader x = Decoding" "\<not> co_blockmode (x_options x)" "x_pending x = []"
      "x_closes x = [Raw_conn 1]" "getConn x = Raw_conn 1"
    by (simp add: conn_eval)
  have "\<not> IsDeadlineError (xe_view demo_conn_env) (Some ErrEOF)" by (simp add: conn_eval)
  from conn_close_ends [OF x(1-4) this, of "()"] run x show ?thesis by auto
qed

text \<open>
  A connection that \<open>Close\<close> misses. When \<open>Close\<close> is called after the reader dialed a new
  connection and before it stored it, \<open>Close\<close> closes the old one; the reader goes on with the new
  one, which is open and active although the client connection is closed, and which no further
  \<open>Close\<close> can close.
\<close>

theorem conn_close_leaks:
  assumes "x_reader x = Wrapping conn" and "\<not> x_closed x"
    and "xe_asyncwriteconn_New env conn = None"
  shows "\<exists>x'. conn_run env [Close_conn, Wrap] x = Some x' \<and> x_closed x' \<and>
    x_reader x' = Decoding \<and> x_status x' = ActiveClientConnStatus \<and>
    getConn x' = Async_conn conn \<and> x_closes x' = x_closes x @ [getConn x, x_rconn x] \<and>
    conn_Close x' = (Some ErrClientWasClosed, x')"
  using assms by (simp add: conn_act_def conn_Close_def conn_wrapped_def buildAsyncWriteConn_def
      setConn_def getConn_def Let_def)

lemma conn_close_leaks_witness:
  "\<exists>x x'. conn_run demo_conn_env [Step_reader, Decode_returns () (Some ErrEOF), Step_reader,
       Step_reader, Step_reader, Dialed (Inr (Raw_conn 2))] demo_conn = Some x \<and>
     conn_run demo_conn_env [Close_conn, Wrap] x = Some x' \<and> x_closed x' \<and>
     getConn x' = Async_conn (Raw_conn 2) \<and> x_closes x' = [Raw_conn 1, Raw_conn 1]"
proof -
  obtain x where run: "conn_run demo_conn_env [Step_reader, Decode_returns () (Some ErrEOF),
      Step_reader, Step_reader, Step_reader, Dialed (Inr (Raw_conn 2))] demo_conn = Some x"
    and x: "x_reader x = Wrapping (Raw_conn 2)" "\<not> x_closed x" "x_closes x = []"
      "getConn x = Raw_conn 1" "x_rconn x = Raw_conn 1"
    by (simp add: conn_eval)
  have "xe_asyncwriteconn_New demo_conn_env (Raw_conn 2) = None" by (simp add: demo_conn_env_def)
  from conn_close_leaks [OF x(1,2) this] run x show ?thesis by auto
qed

end
