(* ===== verification/Response_Writer.thy ===== *)
theory Response_Writer
  imports Request_Response
begin

text \<open>
  src/sofabolt/response_writer.go and client_response_wirter.go: the object through which a
  handler answers one request, at most once.

  The \<open>io.Writer\<close> behind it (the connection, or its write buffer) is a parameter \<open>wr\<close> over writer
  states \<open>'w\<close>: what it returns for a slice, and its new state. The pool of byte slices only
  recycles storage and is not modelled. Go counts written bytes as \<open>int\<close>, here \<open>nat\<close>.
\<close>

type_synonym 'w io_writer = "'w \<Rightarrow> bytes \<Rightarrow> nat \<times> go_error option \<times> 'w"

record 'x response_writer =
  rw_id :: "64 word"
  rw_numwrite :: nat
  rw_res :: "'x response"
  rw_err :: "go_error option"
  rw_hijacked :: bool

text \<open>\<open>AcquireSofaResponseWriter\<close>: ids come from a global counter that is passed along.\<close>

definition AcquireSofaResponseWriter ::
  "64 word \<Rightarrow> 'x response_writer \<Rightarrow> 64 word \<times> 'x response_writer" where
  "AcquireSofaResponseWriter counter pooled = (counter + 1, pooled\<lparr>rw_id := counter + 1\<rparr>)"

definition rw_Reset :: "'x response_writer \<Rightarrow> 'x response_writer" where
  "rw_Reset rw = rw\<lparr>rw_numwrite := 0, rw_res := Response_Reset (rw_res rw), rw_hijacked := False\<rparr>"

definition ReleaseSofaResponseWriter :: "'x response_writer \<Rightarrow> 'x response_writer" where
  "ReleaseSofaResponseWriter rw = rw_Reset rw"

text \<open>The command code of a response, from that of its request.\<close>

definition derive_code :: "16 word \<Rightarrow> 16 word" where
  "derive_code code =
     (if code = CMDCodeBOLTHeartbeat then CMDCodeBOLTHeartbeat
      else if code = CMDCodeTRemotingRequest then CMDCodeTRemotingResponse
      else CMDCodeBOLTResponse)"

definition rw_Derive :: "'x request \<Rightarrow> 'x response_writer \<Rightarrow> 'x response_writer" where
  "rw_Derive req rw =
     (let res = set_command (\<lambda>c. c\<lparr>c_proto := c_proto (m_command req)\<rparr>) (rw_res rw);
          res = Response_SetRequestID (GetRequestID req) res;
          res = set_command (\<lambda>c. c\<lparr>c_cmdcode := CMDCodeBOLTResponse, c_class := ClassResponse\<rparr>) res;
          res = set_command (\<lambda>c. c\<lparr>c_cmdcode := derive_code (c_cmdcode (m_command req))\<rparr>) res
      in rw\<lparr>rw_res := res\<rparr>)"

definition rw_Write ::
  "'x hessian \<Rightarrow> (bytes \<Rightarrow> nat \<Rightarrow> bytes) \<Rightarrow> 'w io_writer \<Rightarrow> 'x response_writer \<Rightarrow> 'w \<Rightarrow>
   (nat \<times> go_error option \<times> 'x response_writer \<times> 'w) option" where
  "rw_Write h alloc wr rw w =
     (if rw_numwrite rw > 0 then Some (0, Some ErrDuplicatedWrite, rw, w)
      else case Message_Write h alloc [] (rw_res rw) of
        None \<Rightarrow> None
      | Some (Inl err, res) \<Rightarrow> Some (0, Some err, rw\<lparr>rw_res := res\<rparr>, w)
      | Some (Inr dp, res) \<Rightarrow>
          (case wr w dp of
             (n, None, w) \<Rightarrow> Some (n, None, rw\<lparr>rw_res := res, rw_numwrite := n\<rparr>, w)
           | (n, Some err, w) \<Rightarrow>
               Some (n, Some err, rw\<lparr>rw_res := res, rw_numwrite := n, rw_err := Some err\<rparr>, w)))"

definition rw_Hijack :: "'x response_writer \<Rightarrow> bool \<times> 'x response_writer" where
  "rw_Hijack rw = (if \<not> rw_hijacked rw then (True, rw\<lparr>rw_hijacked := True\<rparr>) else (False, rw))"

text \<open>
  The writer a client's handler gets (client_response_wirter.go) cannot be hijacked and sets no
  class.
\<close>

definition crw_Derive :: "'x request \<Rightarrow> 'x response_writer \<Rightarrow> 'x response_writer" where
  "crw_Derive req rw =
     (let res = set_command (\<lambda>c. c\<lparr>c_proto := c_proto (m_command req)\<rparr>) (rw_res rw);
          res = Response_SetRequestID (GetRequestID req) res;
          res = set_command (\<lambda>c. c\<lparr>c_cmdcode := CMDCodeBOLTResponse\<rparr>) res;
          res = set_command (\<lambda>c. c\<lparr>c_cmdcode := derive_code (c_cmdcode (m_command req))\<rparr>) res
      in rw\<lparr>rw_res := res\<rparr>)"

definition crw_Write ::
  "'x hessian \<Rightarrow> (bytes \<Rightarrow> nat \<Rightarrow> bytes) \<Rightarrow> 'w io_writer \<Rightarrow> 'x response_writer \<Rightarrow> 'w \<Rightarrow>
   (nat \<times> go_error option \<times> 'x response_writer \<times> 'w) option" where
  "crw_Write h alloc wr c w =
     (if rw_numwrite c > 0 then Some (0, Some ErrDuplicatedWrite, c, w)
      else case Message_Write h alloc [] (rw_res c) of
        None \<Rightarrow> None
      | Some (Inl err, res) \<Rightarrow> Some (0, Some err, c\<lparr>rw_res := res\<rparr>, w)
      | Some (Inr dp, res) \<Rightarrow>
          (case wr w dp of
             (nw, None, w) \<Rightarrow> Some (nw, None, c\<lparr>rw_res := res, rw_numwrite := nw\<rparr>, w)
           | (nw, Some err, w) \<Rightarrow>
               Some (nw, Some err, c\<lparr>rw_res := res, rw_numwrite := nw, rw_err := Some err\<rparr>, w)))"

definition crw_reset :: "'x response_writer \<Rightarrow> 'x response_writer" where
  "crw_reset c = c\<lparr>rw_numwrite := 0, rw_res := Response_Reset (rw_res c)\<rparr>"

definition crw_Hijack :: "'x response_writer \<Rightarrow> bool" where
  "crw_Hijack c = False"

text \<open>
  The writer of src/sofabolt/response_writer.go meant for tests: on a write error it returns the
  count 0, and it refuses to be hijacked.
\<close>

definition test_Write ::
  "'x hessian \<Rightarrow> (bytes \<Rightarrow> nat \<Rightarrow> bytes) \<Rightarrow> 'w io_writer \<Rightarrow> 'x response_writer \<Rightarrow> 'w \<Rightarrow>
   (nat \<times> go_error option \<times> 'x response_writer \<times> 'w) option" where
  "test_Write h alloc wr rw w =
     (if rw_numwrite rw > 0 then Some (0, Some ErrDuplicatedWrite, rw, w)
      else case Message_Write h alloc [] (rw_res rw) of
        None \<Rightarrow> None
      | Some (Inl err, res) \<Rightarrow> Some (0, Some err, rw\<lparr>rw_res := res\<rparr>, w)
      | Some (Inr dp, res) \<Rightarrow>
          (case wr w dp of
             (n, None, w) \<Rightarrow> Some (n, None, rw\<lparr>rw_res := res, rw_numwrite := n\<rparr>, w)
           | (n, Some err, w) \<Rightarrow>
               Some (0, Some err, rw\<lparr>rw_res := res, rw_numwrite := n, rw_err := Some err\<rparr>, w)))"

subsection \<open>At most one response\<close>

text \<open>
  The interface a handler uses, for every kind of writer: a handler may call \<open>Write\<close> any number of
  times, in any state of the underlying connection. \<open>written\<close> is the list of slices handed to the
  connection.
\<close>

definition tracing :: "'w io_writer \<Rightarrow> ('w \<times> bytes list) io_writer" where
  "tracing wr = (\<lambda>(w, tr) dp. case wr w dp of (n, e, w') \<Rightarrow> (n, e, (w', tr @ [dp])))"

fun write_times ::
  "('x response_writer \<Rightarrow> 'w \<Rightarrow> (nat \<times> go_error option \<times> 'x response_writer \<times> 'w) option) \<Rightarrow>
   nat \<Rightarrow> 'x response_writer \<Rightarrow> 'w \<Rightarrow> (go_error option list \<times> 'x response_writer \<times> 'w) option" where
  "write_times f 0 rw w = Some ([], rw, w)"
| "write_times f (Suc n) rw w =
     (case f rw w of
        None \<Rightarrow> None
      | Some (k, e, rw, w) \<Rightarrow>
          (case write_times f n rw w of
             None \<Rightarrow> None | Some (es, rw, w) \<Rightarrow> Some (e # es, rw, w)))"

locale write_once =
  fixes send :: "('x response_writer \<Rightarrow> 'w \<Rightarrow>
      (nat \<times> go_error option \<times> 'x response_writer \<times> 'w) option)"
  assumes again: "rw_numwrite rw > 0 \<Longrightarrow> send rw w = Some (0, Some ErrDuplicatedWrite, rw, w)"
begin

lemma again_times:
  "rw_numwrite rw > 0 \<Longrightarrow> write_times send n rw w = Some (replicate n (Some ErrDuplicatedWrite), rw, w)"
  by (induction n) (simp_all add: again)

lemma once_times:
  assumes "send rw w = Some (k, e, rw', w')" and "rw_numwrite rw' > 0"
  shows "write_times send (Suc n) rw w =
    Some (e # replicate n (Some ErrDuplicatedWrite), rw', w')"
  using assms by (simp add: again_times)

end

interpretation sofa: write_once "rw_Write h alloc wr"
  by unfold_locales (simp add: rw_Write_def)

interpretation client_rw: write_once "crw_Write h alloc wr"
  by unfold_locales (simp add: crw_Write_def)

interpretation test_rw: write_once "test_Write h alloc wr"
  by unfold_locales (simp add: test_Write_def)

lemma rw_Write_ok:
  assumes "alloc_ok alloc" and "rw_numwrite rw = 0"
    and "c_proto (m_command (rw_res rw)) \<noteq> ProtoTBRemoting"
    and "write_spec (m_command (rw_res rw)) = Inr f" and "wr w f = (n, e, w')"
  shows "\<exists>rw'. rw_Write h alloc wr rw w = Some (n, e, rw', w') \<and> rw_numwrite rw' = n \<and>
    rw_res rw' = rw_res rw \<and> rw_hijacked rw' = rw_hijacked rw"
  using assms(2,4,5)
  by (cases e) (simp_all add: rw_Write_def Message_Write_bolt [OF assms(1,3)])

subsection \<open>What the derived response carries\<close>

lemma Response_SetRequestID_other [simp]:
  "c_class (m_command (Response_SetRequestID i c)) = c_class (m_command c)"
  "c_headers (m_command (Response_SetRequestID i c)) = c_headers (m_command c)"
  "c_content (m_command (Response_SetRequestID i c)) = c_content (m_command c)"
  "c_proto (m_command (Response_SetRequestID i c)) = c_proto (m_command c)"
  "c_typ (m_command (Response_SetRequestID i c)) = c_typ (m_command c)"
  "c_status (m_command (Response_SetRequestID i c)) = c_status (m_command c)"
  "m_tbconn (set_command f c) = m_tbconn c"
  by (simp_all add: Response_SetRequestID_def set_command_def Let_def)

lemma rw_Derive_simps [simp]:
  "c_proto (m_command (rw_res (rw_Derive q rw))) = c_proto (m_command q)"
  "c_typ (m_command (rw_res (rw_Derive q rw))) = c_typ (m_command (rw_res rw))"
  "c_class (m_command (rw_res (rw_Derive q rw))) = ClassResponse"
  "c_headers (m_command (rw_res (rw_Derive q rw))) = c_headers (m_command (rw_res rw))"
  "c_content (m_command (rw_res (rw_Derive q rw))) = c_content (m_command (rw_res rw))"
  "c_cmdcode (m_command (rw_res (rw_Derive q rw))) = derive_code (c_cmdcode (m_command q))"
  "rw_numwrite (rw_Derive q rw) = rw_numwrite rw" "rw_hijacked (rw_Derive q rw) = rw_hijacked rw"
  by (simp_all add: rw_Derive_def Let_def set_command_def Response_SetRequestID_def)

lemma GetRequestID_Derive [simp]: "GetRequestID (rw_res (rw_Derive q rw)) = GetRequestID q"
  by (auto simp: rw_Derive_def Let_def set_command_def Response_SetRequestID_def GetRequestID_def
      split: option.split)

lemma GetRequestID_crw_Derive [simp]: "GetRequestID (rw_res (crw_Derive q rw)) = GetRequestID q"
  by (auto simp: crw_Derive_def Let_def set_command_def Response_SetRequestID_def GetRequestID_def
      split: option.split)

subsection \<open>Properties\<close>

text \<open>
  C29. A handler answers at most once: after \<open>Reset\<close> and \<open>Derive\<close> for a BOLT request, a handler that
  calls \<open>Write\<close> any number of times hands exactly one slice to the connection, the frame of a
  response with the request's protocol and id, and every later call gets the duplicated-write
  error, provided the connection takes at least one byte of it.
\<close>

theorem respond_once:
  assumes "alloc_ok alloc" and "c_proto (m_command q) \<in> {0, 1, 2}"
    and "c_typ (m_command (rw_res rw)) = TypeBOLTResponse" and "\<And>w d. 0 < fst (wr w d)"
  shows "\<exists>f e rw' w'.
    write_spec (m_command (rw_res (rw_Derive q (rw_Reset rw)))) = Inr f \<and>
    c_rid (m_command (rw_res (rw_Derive q (rw_Reset rw)))) = GetRequestID q \<and>
    write_times (rw_Write h alloc (tracing wr)) (Suc n) (rw_Derive q (rw_Reset rw)) (w, []) =
      Some (e # replicate n (Some ErrDuplicatedWrite), rw', (w', [f]))"
proof -
  let ?rw = "rw_Derive q (rw_Reset rw)"
  have p: "c_proto (m_command (rw_res ?rw)) \<noteq> ProtoTBRemoting" using assms(2) by auto
  have "c_typ (m_command (rw_res ?rw)) = 0" using assms(3) by (simp add: rw_Reset_def Response_Reset_def)
  then obtain f where f: "write_spec (m_command (rw_res ?rw)) = Inr f"
    using assms(2) by (auto simp: write_spec_def)
  obtain k e w' where w: "wr w f = (k, e, w')" by (cases "wr w f")
  then have k: "k > 0" using assms(4) [of w f] by simp
  have t: "tracing wr (w, []) f = (k, e, (w', [f]))" by (simp add: tracing_def w)
  obtain rw' where sent: "rw_Write h alloc (tracing wr) ?rw (w, []) = Some (k, e, rw', (w', [f]))"
    and nw: "rw_numwrite rw' = k"
    using rw_Write_ok [where wr = "tracing wr", OF assms(1) _ p f t] by (auto simp: rw_Reset_def)
  note sofa.once_times [OF sent, of n]
  with k nw have "write_times (rw_Write h alloc (tracing wr)) (Suc n) ?rw (w, []) =
      Some (e # replicate n (Some ErrDuplicatedWrite), rw', (w', [f]))"
    by simp
  moreover have "c_rid (m_command (rw_res ?rw)) = GetRequestID q"
    using GetRequestID_Derive [of q "rw_Reset rw"] p by (simp add: GetRequestID_def)
  ultimately show ?thesis using f by blast
qed

lemma respond_once_witness:
  "\<exists>rw f e rw' w'. write_times (rw_Write plain_hessian (\<lambda>b n. replicate n 0)
      (tracing (\<lambda>u d. (1, None, u)))) (Suc 2) rw ((), []) =
    Some (e # replicate 2 (Some ErrDuplicatedWrite), rw', (w', [f]))"
proof -
  let ?rw = "\<lparr>rw_id = 0, rw_numwrite = 9, rw_res = blank, rw_err = None, rw_hijacked = True\<rparr>"
  have "c_typ (m_command (rw_res ?rw)) = TypeBOLTResponse"
    "c_proto (m_command (AcquireRequest blank)) \<in> {0, 1, 2}"
    by (simp_all add: blank_def message_new_def Command_zero_def AcquireRequest_def set_command_def)
  with respond_once [of "\<lambda>b n. replicate n 0" "AcquireRequest blank" ?rw "\<lambda>u d. (1, None, u)"
      plain_hessian 2 "()"]
  show ?thesis by (auto simp: alloc_ok_def)
qed

end
