(* ===== verification/Server.thy ===== *)
theory Server
  imports Response_Writer
begin

text \<open>
  src/sofabolt/server.go: the loop that serves one connection, in synchronous and asynchronous
  mode. The life of the server's listeners and connections is in theory \<open>Server_Life\<close>.

  The user's handler, the write buffer, the connection and the clock act on a state \<open>'s\<close> and are
  the record \<open>server_env\<close>, a parameter; durations and times are \<open>int\<close> nanoseconds. The hook the
  buffered reader calls before it reads from the socket is \<open>beforeread\<close>; when the third-party
  reader calls it is not modelled. In asynchronous mode the loop starts a goroutine per request:
  these jobs are collected in \<open>ss_jobs\<close>, and \<open>run_jobs\<close> runs them in whatever order they are
  given; each job has its own copy of the request.
\<close>

record ('x, 's) server_env =
  sv_handler :: "'x response_writer \<Rightarrow> 'x request \<Rightarrow> 's \<Rightarrow> 'x response_writer \<times> 's"
  sv_write :: "'s io_writer"
  sv_conn_write :: "'s io_writer"
  sv_flush :: "'s \<Rightarrow> go_error option \<times> 's"
  sv_buffered :: "'s \<Rightarrow> nat"
  sv_SetWriteDeadline :: "int \<Rightarrow> 's \<Rightarrow> go_error option \<times> 's"
  sv_SetReadDeadline :: "int \<Rightarrow> 's \<Rightarrow> go_error option \<times> 's"
  sv_now :: "'s \<Rightarrow> int"
  sv_pooled_request :: "'x request"
  sv_pooled_writer :: "'x response_writer"
  sv_hessian :: "'x hessian"
  sv_alloc :: "bytes \<Rightarrow> nat \<Rightarrow> bytes"

record server_options =
  so_async :: bool
  so_readTimeout :: int
  so_writeTimeout :: int
  so_idleTimeout :: int
  so_flushInterval :: int

record server_metrics =
  met_numwrite :: int
  met_numread :: int
  met_commands :: int
  met_pendingcommands :: int
  met_connections :: int
  met_pendingconnections :: int

text \<open>The counters are modelled without their wrap-around at 64 bits.\<close>

definition addConnections :: "int \<Rightarrow> server_metrics \<Rightarrow> server_metrics" where
  [simp]: "addConnections n m = m\<lparr>met_connections := met_connections m + n\<rparr>"

definition addPendingConnections :: "int \<Rightarrow> server_metrics \<Rightarrow> server_metrics" where
  [simp]: "addPendingConnections n m = m\<lparr>met_pendingconnections := met_pendingconnections m + n\<rparr>"

definition addBytesRead :: "int \<Rightarrow> server_metrics \<Rightarrow> server_metrics" where
  [simp]: "addBytesRead n m = m\<lparr>met_numread := met_numread m + n\<rparr>"

definition addBytesWrite :: "int \<Rightarrow> server_metrics \<Rightarrow> server_metrics" where
  [simp]: "addBytesWrite n m = m\<lparr>met_numwrite := met_numwrite m + n\<rparr>"

definition addCommands :: "int \<Rightarrow> server_metrics \<Rightarrow> server_metrics" where
  [simp]: "addCommands n m = m\<lparr>met_commands := met_commands m + n\<rparr>"

definition addPendingCommands :: "int \<Rightarrow> server_metrics \<Rightarrow> server_metrics" where
  [simp]: "addPendingCommands n m = m\<lparr>met_pendingcommands := met_pendingcommands m + n\<rparr>"

record ('x, 'r, 's) serve_state =
  ss_reader :: 'r
  ss_req :: "'x request"
  ss_rw :: "'x response_writer"
  ss_requests :: nat
  ss_lastFlushTime :: int
  ss_jobs :: "(64 word \<times> 'x request) list"
  ss_metrics :: server_metrics
  ss_world :: 's

subsection \<open>Timeouts and flushing\<close>

definition setConnReadTimeout ::
  "('x, 's) server_env \<Rightarrow> server_options \<Rightarrow> 's \<Rightarrow> go_error option \<times> 's" where
  "setConnReadTimeout env o' s =
     (if so_readTimeout o' > 0
      then sv_SetReadDeadline env (sv_now env s + so_readTimeout o') s else (None, s))"

definition setConnIdleTimeout ::
  "('x, 's) server_env \<Rightarrow> server_options \<Rightarrow> 's \<Rightarrow> go_error option \<times> 's" where
  "setConnIdleTimeout env o' s =
     (if so_idleTimeout o' > 0
      then sv_SetReadDeadline env (sv_now env s + so_idleTimeout o') s else (None, s))"

definition flush :: "('x, 's) server_env \<Rightarrow> server_options \<Rightarrow> 's \<Rightarrow> go_error option \<times> 's" where
  "flush env o' s =
     (if so_writeTimeout o' > 0
      then case sv_SetWriteDeadline env (sv_now env s + so_writeTimeout o') s of
             (Some err, s) \<Rightarrow> (Some err, s)
           | (None, s) \<Rightarrow> sv_flush env s
      else sv_flush env s)"

definition flushWrite ::
  "('x, 's) server_env \<Rightarrow> server_options \<Rightarrow> int \<Rightarrow> 's \<Rightarrow> int \<times> go_error option \<times> 's" where
  "flushWrite env o' lastFlushTime s =
     (let now = sv_now env s in
      if so_flushInterval o' > 0
      then if now - lastFlushTime \<ge> so_flushInterval o'
           then (now, flush env o' s) else (now, None, s)
      else (now, flush env o' s))"

definition beforeread ::
  "('x, 's) server_env \<Rightarrow> server_options \<Rightarrow> ('x, 'r, 's) serve_state \<Rightarrow>
   go_error option \<times> ('x, 'r, 's) serve_state" where
  "beforeread env o' st =
     (let (e, s) = (if ss_requests st > 1
                    then if c_proto (m_command (ss_req st)) > 0
                         then setConnReadTimeout env o' (ss_world st)
                         else setConnIdleTimeout env o' (ss_world st)
                    else setConnReadTimeout env o' (ss_world st));
          st = st\<lparr>ss_world := s\<rparr>
      in case e of
           Some err \<Rightarrow> (Some err, st)
         | None \<Rightarrow>
             if sv_buffered env s > 0
             then case flushWrite env o' (ss_lastFlushTime st) s of
                    (t, e, s) \<Rightarrow> (e, st\<lparr>ss_lastFlushTime := t, ss_world := s\<rparr>)
             else (None, st))"

subsection \<open>Handling one command\<close>

text \<open>\<open>HandlerFunc\<close> of handler.go makes a handler of a function.\<close>

definition ServeSofaBOLT ::
  "('x response_writer \<Rightarrow> 'x request \<Rightarrow> 's \<Rightarrow> 'x response_writer \<times> 's) \<Rightarrow>
   'x response_writer \<Rightarrow> 'x request \<Rightarrow> 's \<Rightarrow> 'x response_writer \<times> 's" where
  [simp]: "ServeSofaBOLT f rw req s = f rw req s"

definition serveCommand ::
  "('x, 's) server_env \<Rightarrow> 'x response_writer \<Rightarrow> 'x request \<Rightarrow> server_metrics \<Rightarrow> 's \<Rightarrow>
   'x response_writer \<times> server_metrics \<times> 's" where
  "serveCommand env rw req m s =
     (let m = addPendingCommands 1 (addCommands 1 m);
          (rw, s) = sv_handler env rw req s
      in (rw, addPendingCommands (- 1) m, s))"

text \<open>The end of both handlers: write once to avoid nil response, or count the bytes.\<close>

definition finish_command ::
  "('x, 's) server_env \<Rightarrow> 's io_writer \<Rightarrow> 'x response_writer \<Rightarrow> 'x request \<Rightarrow> server_metrics \<Rightarrow>
   's \<Rightarrow> ('x response_writer \<times> server_metrics \<times> 's) option" where
  "finish_command env wr rw req m s =
     (let typ = c_typ (m_command req) in
      if rw_numwrite rw = 0 \<and> typ \<noteq> TypeBOLTRequestOneWay \<and> typ \<noteq> TypeTBRemotingOneWay
      then map_option (\<lambda>(n, e, rw, s). (rw, m, s))
             (rw_Write (sv_hessian env) (sv_alloc env) wr rw s)
      else Some (rw, addBytesWrite (int (rw_numwrite rw)) m, s))"

definition handleCommandSync ::
  "('x, 's) server_env \<Rightarrow> ('x, 'r, 's) serve_state \<Rightarrow> (bool \<times> ('x, 'r, 's) serve_state) option" where
  "handleCommandSync env st =
     (let req = ss_req st;
          (rw, m, s) = serveCommand env (rw_Derive req (rw_Reset (ss_rw st))) req
                         (ss_metrics st) (ss_world st)
      in case finish_command env (sv_write env) rw req m s of
           None \<Rightarrow> None
         | Some (rw, m, s) \<Rightarrow>
             Some (rw_hijacked rw, st\<lparr>ss_rw := rw, ss_metrics := m, ss_world := s\<rparr>))"

definition handleCommandAsync ::
  "('x, 's) server_env \<Rightarrow> ('x, 'r, 's) serve_state \<Rightarrow> ('x, 'r, 's) serve_state" where
  "handleCommandAsync env st =
     st\<lparr>ss_jobs := ss_jobs st @
       [(rw_id (ss_rw st),
         CopyCommand (m_command (ss_req st)) (AcquireRequest (sv_pooled_request env)))]\<rparr>"

definition doHandleCommandAsync ::
  "('x, 's) server_env \<Rightarrow> 64 word \<times> 'x request \<Rightarrow> server_metrics \<Rightarrow> 's \<Rightarrow>
   (server_metrics \<times> 's) option" where
  "doHandleCommandAsync env job m s =
     (let (i, req) = job;
          rw = rw_Derive req ((sv_pooled_writer env)\<lparr>rw_id := i\<rparr>);
          (rw, m, s) = serveCommand env rw req m s
      in map_option (\<lambda>(rw, m, s). (m, s)) (finish_command env (sv_conn_write env) rw req m s))"

definition HandleCommand ::
  "('x, 's) server_env \<Rightarrow> server_options \<Rightarrow> ('x, 'r, 's) serve_state \<Rightarrow>
   (bool \<times> ('x, 'r, 's) serve_state) option" where
  "HandleCommand env o' st =
     (if \<not> so_async o' then handleCommandSync env st else Some (False, handleCommandAsync env st))"

subsection \<open>The loop of a connection\<close>

text \<open>One round of \<open>READLOOP\<close>: go on, or leave it with \<open>hijacked\<close> and \<open>err\<close>.\<close>

definition serve_round ::
  "('x, 's) server_env \<Rightarrow> server_options \<Rightarrow> 'r read_helper \<Rightarrow> bytes \<Rightarrow> ('x, 'r, 's) serve_state \<Rightarrow>
   (('x, 'r, 's) serve_state + bool \<times> go_error option \<times> ('x, 'r, 's) serve_state) option" where
  "serve_round env o' rh b32 st =
     (case Message_Read (sv_hessian env) rh b32 (ss_reader st)
             (Request_Reset (sv_hessian env) (ss_req st)) of
        None \<Rightarrow> None
      | Some (n, Some err, req, r) \<Rightarrow>
          Some (Inr (False, Some err, st\<lparr>ss_req := req, ss_reader := r\<rparr>))
      | Some (n, None, req, r) \<Rightarrow>
          let m = ss_metrics st;
              st = st\<lparr>ss_req := req, ss_reader := r, ss_requests := ss_requests st + 1,
                      ss_metrics := addBytesRead (int n) m\<rparr>;
              typ = c_typ (m_command req)
          in if typ \<noteq> TypeBOLTRequest \<and> typ \<noteq> TypeBOLTRequestOneWay \<and> typ \<noteq> TypeTBRemotingOneWay
             then Some (Inr (False, Some ErrServerNotARequest, st))
             else case HandleCommand env o' st of
                    None \<Rightarrow> None
                  | Some (hijacked, st) \<Rightarrow>
                      (case flushWrite env o' (ss_lastFlushTime st) (ss_world st) of
                         (t, e, s) \<Rightarrow>
                           let st = st\<lparr>ss_lastFlushTime := t, ss_world := s\<rparr>
                           in if e \<noteq> None then Some (Inr (hijacked, e, st))
                              else if hijacked then Some (Inr (True, None, st))
                              else Some (Inl st)))"

text \<open>
  The loop with a bound on its rounds: still running after \<open>n\<close> rounds is \<open>Some (Inl st)\<close>, a panic
  is \<open>None\<close>.
\<close>

fun serve_loop ::
  "('x, 's) server_env \<Rightarrow> server_options \<Rightarrow> 'r read_helper \<Rightarrow> bytes \<Rightarrow> nat \<Rightarrow> ('x, 'r, 's) serve_state \<Rightarrow>
   (('x, 'r, 's) serve_state + bool \<times> go_error option \<times> ('x, 'r, 's) serve_state) option" where
  "serve_loop env o' rh b32 0 st = Some (Inl st)"
| "serve_loop env o' rh b32 (Suc n) st =
     (case serve_round env o' rh b32 st of
        None \<Rightarrow> None
      | Some (Inr res) \<Rightarrow> Some (Inr res)
      | Some (Inl st) \<Rightarrow> serve_loop env o' rh b32 n st)"

fun run_jobs ::
  "('x, 's) server_env \<Rightarrow> (64 word \<times> 'x request) list \<Rightarrow> server_metrics \<Rightarrow> 's \<Rightarrow>
   (server_metrics \<times> 's) option" where
  "run_jobs env [] m s = Some (m, s)"
| "run_jobs env (job # jobs) m s =
     (case doHandleCommandAsync env job m s of
        None \<Rightarrow> None | Some (m, s) \<Rightarrow> run_jobs env jobs m s)"

text \<open>
  \<open>serveConn\<close>: the loop, the last flush, whose error is discarded, and \<open>wg.Wait\<close>. \<open>order\<close> is the
  order in which the goroutines come to run.
\<close>

definition serveConn ::
  "('x, 's) server_env \<Rightarrow> server_options \<Rightarrow> 'r read_helper \<Rightarrow> bytes \<Rightarrow>
   ((64 word \<times> 'x request) list \<Rightarrow> (64 word \<times> 'x request) list) \<Rightarrow> nat \<Rightarrow>
   ('x, 'r, 's) serve_state \<Rightarrow> (bool \<times> go_error option \<times> ('x, 'r, 's) serve_state) option" where
  "serveConn env o' rh b32 order n st =
     (case serve_loop env o' rh b32 n st of
        Some (Inr (hijacked, e, st)) \<Rightarrow>
          let s = (if sv_buffered env (ss_world st) > 0
                   then snd (snd (flushWrite env o' (ss_lastFlushTime st) (ss_world st)))
                   else ss_world st)
          in map_option (\<lambda>(m, s). (hijacked, e, st\<lparr>ss_jobs := [], ss_metrics := m, ss_world := s\<rparr>))
               (run_jobs env (order (ss_jobs st)) (ss_metrics st) s)
      | _ \<Rightarrow> None)"

subsection \<open>Every round reads one frame\<close>

lemma Message_Write_total:
  assumes "alloc_ok alloc"
  shows "Message_Write h alloc b c \<noteq> None"
  by (auto simp: Message_Write_def WriteCommand_spec [OF assms] Let_def split: prod.split option.split)

lemma rw_Write_total:
  assumes "alloc_ok alloc"
  shows "rw_Write h alloc wr rw w \<noteq> None"
  using Message_Write_total [OF assms, of h "[]" "rw_res rw"]
  by (auto simp: rw_Write_def split: option.split prod.split sum.split)

lemma finish_command_total:
  assumes "alloc_ok (sv_alloc env)"
  shows "finish_command env wr rw req m s \<noteq> None"
  using rw_Write_total [OF assms, of "sv_hessian env" wr rw s]
  by (cases "rw_Write (sv_hessian env) (sv_alloc env) wr rw s") (auto simp: finish_command_def Let_def)

lemma HandleCommand_total:
  assumes "alloc_ok (sv_alloc env)"
  shows "\<exists>hj st'. HandleCommand env o' st = Some (hj, st') \<and> ss_reader st' = ss_reader st"
proof (cases "so_async o'")
  case True
  then have "HandleCommand env o' st = Some (False, handleCommandAsync env st)"
    by (simp add: HandleCommand_def)
  moreover have "ss_reader (handleCommandAsync env st) = ss_reader st"
    by (simp add: handleCommandAsync_def)
  ultimately show ?thesis by blast
next
  case False
  obtain rw m s where c: "serveCommand env (rw_Derive (ss_req st) (rw_Reset (ss_rw st))) (ss_req st)
      (ss_metrics st) (ss_world st) = (rw, m, s)" by (metis prod_cases3)
  obtain rw' m' s' where "finish_command env (sv_write env) rw (ss_req st) m s = Some (rw', m', s')"
    using finish_command_total [OF assms] by (metis not_Some_eq prod_cases3)
  with False c show ?thesis by (simp add: HandleCommand_def handleCommandSync_def)
qed

lemma Message_Read_consumes:
  assumes "reader_contract rh avail" and "length b32 = 32"
    and "Message_Read h rh b32 r c = Some (n, None, s, r')"
  shows "length (avail r') < length (avail r)"
proof -
  obtain cmd where rd: "ReadCommand rh b32 r (m_command c) = Some (n, None, cmd, r')"
    using assms(3) by (auto simp: Message_Read_def Let_def split: option.splits prod.splits if_splits)
  from reader_contract.ReadCommand_agrees [OF assms(1,2), of r "m_command c"] rd
  have "parse_command (m_command c) (avail r) = Frame n cmd (avail r')"
    by (cases "parse_command (m_command c) (avail r)") (auto simp: agrees_def)
  then show ?thesis by (rule parse_command_shrinks)
qed

lemma serve_round_progress:
  assumes "reader_contract rh avail" and "length b32 = 32" and "alloc_ok (sv_alloc env)"
  shows "case serve_round env o' rh b32 st of
      None \<Rightarrow> False
    | Some (Inr _) \<Rightarrow> True
    | Some (Inl st') \<Rightarrow> length (avail (ss_reader st')) < length (avail (ss_reader st))"
proof -
  obtain n e req r where rd: "Message_Read (sv_hessian env) rh b32 (ss_reader st)
      (Request_Reset (sv_hessian env) (ss_req st)) = Some (n, e, req, r)"
    by (rule Message_Read_total [OF assms(1,2)])
  show ?thesis
  proof (cases e)
    case None
    let ?st = "st\<lparr>ss_req := req, ss_reader := r, ss_requests := ss_requests st + 1,
      ss_metrics := (ss_metrics st)\<lparr>met_numread := met_numread (ss_metrics st) + int n\<rparr>\<rparr>"
    have less: "length (avail r) < length (avail (ss_reader st))"
      using Message_Read_consumes [OF assms(1,2)] rd None by blast
    obtain hj st' where h: "HandleCommand env o' ?st = Some (hj, st')" and "ss_reader st' = r"
      using HandleCommand_total [OF assms(3), of o' ?st] by auto
    with less rd None show ?thesis
      by (auto simp: serve_round_def Let_def split: prod.split)
  qed (use rd in \<open>simp add: serve_round_def\<close>)
qed

lemma serve_loop_ends:
  assumes "reader_contract rh avail" and "length b32 = 32" and "alloc_ok (sv_alloc env)"
  shows "length (avail (ss_reader st)) < n \<Longrightarrow>
    \<exists>res. serve_loop env o' rh b32 n st = Some (Inr res)"
proof (induction n arbitrary: st)
  case (Suc n)
  then show ?case
    using serve_round_progress [OF assms, where st = st and o' = o']
    by (auto split: option.splits sum.splits)
qed simp

subsection \<open>The requests the handler gets\<close>

definition bolt_request :: "command \<Rightarrow> bool" where
  "bolt_request q \<longleftrightarrow> wire_ok q \<and> c_proto q \<in> {0, 1, 2} \<and> c_typ q \<in> {1, 2}"

definition bolt_frame :: "command \<Rightarrow> bytes" where
  "bolt_frame q = (if c_proto q = ProtoBOLTV2 then frame_v2 q else frame_v1 q)"

text \<open>What a request is received as: it depends on its frame alone.\<close>

definition received :: "command \<Rightarrow> command" where
  "received q = (if c_proto q = ProtoBOLTV2 then recv_v2 q Command_zero else recv_v1 q Command_zero)"

lemma recv_reset:
  "recv_v1 q (reset_command c0) = recv_v1 q Command_zero"
  "recv_v2 q (reset_command c0) = recv_v2 q Command_zero"
  by (simp_all add: recv_v1_def recv_v2_def recv_v2_plain_def with_body_def reset_command_def
      Command_Reset_zero Command_zero_def)

lemma received_simps [simp]: "c_proto (received q) = c_proto q" "c_typ (received q) = c_typ q"
  by (simp_all add: received_def)

lemma read_bolt_request:
  assumes "reader_contract rh avail" and "length b32 = 32" and "bolt_request q"
    and "avail r = bolt_frame q @ rest"
  shows "\<exists>n r'. Message_Read h rh b32 r (Request_Reset h q0) =
      Some (n, None, (Request_Reset h q0)\<lparr>m_command := received q\<rparr>, r') \<and> avail r' = rest"
proof -
  let ?c0 = "reset_command (m_command q0)"
  have h0: "c_headers ?c0 = sm_Reset (c_headers (m_command q0))" by simp
  have t: "c_typ q \<in> {0, 1, 2}" and ok: "wire_ok q" using assms(3) by (auto simp: bolt_request_def)
  have "\<exists>n r'. ReadCommand rh b32 r ?c0 = Some (n, None, received q, r') \<and> avail r' = rest"
  proof (cases "c_proto q = ProtoBOLTV2")
    case True
    with reader_contract.read_frame [OF assms(1,2), of r "frame_v2 q" rest ?c0]
      parse_frame_v2 [OF ok h0 True t, of rest] assms(4)
    show ?thesis by (auto simp: bolt_frame_def received_def recv_reset)
  next
    case False
    then have p: "c_proto q \<in> {0, 1}" using assms(3) by (auto simp: bolt_request_def)
    with False reader_contract.read_frame [OF assms(1,2), of r "frame_v1 q" rest ?c0]
      parse_frame_v1 [OF ok h0 p t, of rest] assms(4)
    show ?thesis by (auto simp: bolt_frame_def received_def recv_reset)
  qed
  moreover have "c_proto (received q) \<noteq> ProtoTBRemoting"
    using assms(3) by (auto simp: bolt_request_def)
  ultimately show ?thesis
    by (auto simp: Message_Read_def Request_Reset_def Let_def)
qed

lemma read_end:
  assumes "reader_contract rh avail" and "length b32 = 32" and "avail r = []"
  shows "\<exists>e c r'. Message_Read h rh b32 r q = Some (0, Some e, c, r')"
  using reader_contract.read_short_frame [OF assms(1,2), of "m_command q" r] assms(3)
  by (auto simp: Message_Read_def parse_command_def)

lemma async_round:
  assumes "reader_contract rh avail" and "length b32 = 32" and "bolt_request q"
    and "avail (ss_reader st) = bolt_frame q @ rest" and "so_async o'"
    and fl: "flushWrite env o' (ss_lastFlushTime st) (ss_world st) = (t, None, s)"
  shows "\<exists>st'. serve_round env o' rh b32 st = Some (Inl st') \<and> avail (ss_reader st') = rest \<and>
    ss_world st' = s \<and> ss_jobs st' = ss_jobs st @ [(rw_id (ss_rw st),
      CopyCommand (received q) (AcquireRequest (sv_pooled_request env)))] \<and> ss_rw st' = ss_rw st"
proof -
  obtain n r' where rd: "Message_Read (sv_hessian env) rh b32 (ss_reader st)
      (Request_Reset (sv_hessian env) (ss_req st)) =
      Some (n, None, (Request_Reset (sv_hessian env) (ss_req st))\<lparr>m_command := received q\<rparr>, r')"
    and r': "avail r' = rest"
    using read_bolt_request [OF assms(1-4)] by blast
  have tq: "c_typ q = 1 \<or> c_typ q = 2" using assms(3) by (auto simp: bolt_request_def)
  show ?thesis
    using tq assms(5) r' fl
    by (auto simp: serve_round_def rd Let_def HandleCommand_def handleCommandAsync_def)
qed

lemma round_at_end:
  assumes "reader_contract rh avail" and "length b32 = 32" and "avail (ss_reader st) = []"
  shows "\<exists>e st'. serve_round env o' rh b32 st = Some (Inr (False, Some e, st')) \<and>
    ss_jobs st' = ss_jobs st \<and> ss_world st' = ss_world st"
  using read_end [OF assms, of "sv_hessian env" "Request_Reset (sv_hessian env) (ss_req st)"]
  by (auto simp: serve_round_def)

lemma async_loop:
  assumes "reader_contract rh avail" and "length b32 = 32" and "so_async o'"
    and "\<And>t s. fst (snd (flushWrite env o' t s)) = None"
  shows "list_all bolt_request qs \<Longrightarrow> avail (ss_reader st) = concat (map bolt_frame qs) \<Longrightarrow>
    \<exists>e st'. serve_loop env o' rh b32 (Suc (length qs)) st = Some (Inr (False, Some e, st')) \<and>
      ss_jobs st' = ss_jobs st @ map (\<lambda>q. (rw_id (ss_rw st),
        CopyCommand (received q) (AcquireRequest (sv_pooled_request env)))) qs"
proof (induction qs arbitrary: st)
  case Nil
  then show ?case using round_at_end [OF assms(1,2), where st = st and o' = o' and env = env] by auto
next
  case (Cons q qs)
  then have q: "bolt_request q" and a: "avail (ss_reader st) = bolt_frame q @ concat (map bolt_frame qs)"
    by simp_all
  obtain t s where fl: "flushWrite env o' (ss_lastFlushTime st) (ss_world st) = (t, None, s)"
    using assms(4) [of "ss_lastFlushTime st" "ss_world st"] by (metis prod.collapse)
  obtain st' where r: "serve_round env o' rh b32 st = Some (Inl st')"
    and "avail (ss_reader st') = concat (map bolt_frame qs)" "ss_rw st' = ss_rw st"
    and j: "ss_jobs st' = ss_jobs st @ [(rw_id (ss_rw st),
      CopyCommand (received q) (AcquireRequest (sv_pooled_request env)))]"
    using async_round [OF assms(1,2) q a assms(3) fl] by blast
  moreover obtain e st'' where
    "serve_loop env o' rh b32 (Suc (length qs)) st' = Some (Inr (False, Some e, st''))"
    "ss_jobs st'' = ss_jobs st' @ map (\<lambda>q. (rw_id (ss_rw st'),
        CopyCommand (received q) (AcquireRequest (sv_pooled_request env)))) qs"
    using Cons.IH [of st'] Cons.prems calculation(2) by auto
  ultimately show ?case by auto
qed

subsection \<open>Properties\<close>

text \<open>
  A server environment for the witnesses: the world is the list of slices written and the clock;
  the handler answers nothing.
\<close>

definition quiet_env :: "(unit, bytes list \<times> int) server_env" where
  "quiet_env = \<lparr>sv_handler = (\<lambda>rw q s. (rw, s)),
     sv_write = (\<lambda>s d. (length d, None, (fst s @ [d], snd s))),
     sv_conn_write = (\<lambda>s d. (length d, None, (fst s @ [d], snd s))),
     sv_flush = (\<lambda>s. (None, ([], snd s))), sv_buffered = (\<lambda>s. length (fst s)),
     sv_SetWriteDeadline = (\<lambda>t s. (None, s)), sv_SetReadDeadline = (\<lambda>t s. (None, s)),
     sv_now = snd, sv_pooled_request = blank,
     sv_pooled_writer = \<lparr>rw_id = 0, rw_numwrite = 0, rw_res = blank, rw_err = None,
                         rw_hijacked = False\<rparr>,
     sv_hessian = plain_hessian, sv_alloc = (\<lambda>b n. replicate n 0)\<rparr>"

definition quiet_state :: "bytes list \<Rightarrow> (unit, bytes list, bytes list \<times> int) serve_state" where
  "quiet_state r = \<lparr>ss_reader = r, ss_req = blank, ss_rw = sv_pooled_writer quiet_env,
     ss_requests = 0, ss_lastFlushTime = 0, ss_jobs = [],
     ss_metrics = \<lparr>met_numwrite = 0, met_numread = 0, met_commands = 0, met_pendingcommands = 0,
       met_connections = 0, met_pendingconnections = 0\<rparr>, ss_world = ([], 0)\<rparr>"

definition sync_options :: "bool \<Rightarrow> int \<Rightarrow> server_options" where
  "sync_options a i = \<lparr>so_async = a, so_readTimeout = 0, so_writeTimeout = 0, so_idleTimeout = 0,
     so_flushInterval = i\<rparr>"

text \<open>
  C17. Serving a connection ends: whatever bytes arrive, and whatever the handler does to the
  response writer, the loop neither panics nor goes on after the input is used up; every round
  takes at least one byte, so as many rounds as bytes, and one more, are enough.
\<close>

theorem serving_terminates:
  assumes "reader_contract rh avail" and "length b32 = 32" and "alloc_ok (sv_alloc env)"
  shows "\<exists>hijacked e st'.
    serve_loop env o' rh b32 (length (avail (ss_reader st)) + 1) st = Some (Inr (hijacked, e, st'))"
  using serve_loop_ends [OF assms, of st "length (avail (ss_reader st)) + 1" o'] by auto

lemma serving_terminates_witness:
  "\<exists>hijacked e st'. serve_loop quiet_env (sync_options False 0) stream_helper (replicate 32 0) 4
     (quiet_state [[1, 1, 0]]) = Some (Inr (hijacked, e, st'))"
  using serving_terminates [OF stream.reader_contract_axioms, of "replicate 32 0" quiet_env
      "sync_options False 0" "quiet_state [[1, 1, 0]]"]
  by (simp add: alloc_ok_def quiet_state_def quiet_env_def [THEN arg_cong [where f = sv_alloc]]
      eval_nat_numeral del: serve_loop.simps)

text \<open>
  C18. Pipelined requests in asynchronous mode: for any number of well-formed requests on one
  connection, in whatever pieces they arrive, the server starts exactly one job per request, in
  order, each with its own copy of what its frame carries; nothing of an earlier request on the
  connection shows in a later one.
\<close>

theorem async_one_job_per_request:
  assumes "reader_contract rh avail" and "length b32 = 32" and "so_async o'"
    and "\<And>t s. fst (snd (flushWrite env o' t s)) = None"
    and "list_all bolt_request qs" and "avail (ss_reader st) = concat (map bolt_frame qs)"
    and "ss_jobs st = []"
  shows "\<exists>e st'. serve_loop env o' rh b32 (Suc (length qs)) st = Some (Inr (False, Some e, st')) \<and>
    map snd (ss_jobs st') =
      map (\<lambda>q. CopyCommand (received q) (AcquireRequest (sv_pooled_request env))) qs"
proof -
  obtain e st' where l: "serve_loop env o' rh b32 (Suc (length qs)) st = Some (Inr (False, Some e, st'))"
    and j: "ss_jobs st' = ss_jobs st @ map (\<lambda>q. (rw_id (ss_rw st),
      CopyCommand (received q) (AcquireRequest (sv_pooled_request env)))) qs"
    using async_loop [OF assms(1-6)] by blast
  have "map snd (ss_jobs st') =
      map (\<lambda>q. CopyCommand (received q) (AcquireRequest (sv_pooled_request env))) qs"
    by (simp add: j assms(7))
  with l show ?thesis by blast
qed

lemma async_one_job_per_request_witness:
  "\<exists>e st'. serve_loop quiet_env (sync_options True 0) stream_helper (replicate 32 0)
     (Suc (length [sample 1 1, sample 2 2]))
     (quiet_state [bolt_frame (sample 1 1) @ take 9 (bolt_frame (sample 2 2)),
       drop 9 (bolt_frame (sample 2 2))]) = Some (Inr (False, Some e, st')) \<and>
     map snd (ss_jobs st') = map (\<lambda>q. CopyCommand (received q)
       (AcquireRequest (sv_pooled_request quiet_env))) [sample 1 1, sample 2 2]"
  by (rule async_one_job_per_request [OF stream.reader_contract_axioms])
    (simp_all add: sync_options_def quiet_env_def quiet_state_def flushWrite_def flush_def Let_def
      bolt_request_def sample_ok)

text \<open>
  A handler that does not write leaves its request without any response, although the code
  means to \<open>write once to avoid nil response\<close>: the guard excludes the types 1 and 2, and the loop
  accepts no other type of request.
\<close>

theorem silent_handler_no_response:
  assumes "\<And>rw q s. sv_handler env rw q s = (rw, s)" and "c_typ (m_command (ss_req st)) \<in> {1, 2}"
  shows "\<exists>st'. handleCommandSync env st = Some (rw_hijacked (rw_Reset (ss_rw st)), st') \<and>
    ss_world st' = ss_world st"
  using assms(2) by (auto simp: handleCommandSync_def serveCommand_def finish_command_def
      assms(1) Let_def rw_Reset_def)

lemma silent_handler_no_response_witness:
  "\<exists>st'. handleCommandSync quiet_env ((quiet_state [])\<lparr>ss_req := AcquireRequest blank\<rparr>) =
     Some (False, st') \<and> ss_world st' = ([], 0)"
  using silent_handler_no_response [of quiet_env "(quiet_state [])\<lparr>ss_req := AcquireRequest blank\<rparr>"]
  by (simp add: quiet_env_def quiet_state_def AcquireRequest_def set_command_def rw_Reset_def)

fun flush_calls ::
  "('x, 's) server_env \<Rightarrow> server_options \<Rightarrow> ('s \<Rightarrow> 's) \<Rightarrow> nat \<Rightarrow> int \<Rightarrow> 's \<Rightarrow> 's" where
  "flush_calls env o' between 0 lf s = s"
| "flush_calls env o' between (Suc n) lf s =
     (case flushWrite env o' lf s of (t, e, s) \<Rightarrow> flush_calls env o' between n t (between s))"

text \<open>
  A flush interval can hold responses back for ever: \<open>flushWrite\<close> takes the present as the
  time of the last flush also when it did not flush. When the calls follow each other by less
  than the interval, none of any number of them flushes, however much time has passed in all.
\<close>

theorem flush_interval_starves:
  assumes "0 < so_flushInterval o'"
    and "\<And>s. sv_now env (between s) - sv_now env s < so_flushInterval o'"
    and "sv_now env s - lf < so_flushInterval o'"
  shows "flush_calls env o' between n lf s = (between ^^ n) s"
  using assms(3)
proof (induction n arbitrary: s lf)
  case (Suc n)
  have "flushWrite env o' lf s = (sv_now env s, None, s)"
    using assms(1) Suc.prems by (simp add: flushWrite_def)
  with Suc.IH [OF assms(2)] show ?case by (simp add: funpow_swap1)
qed simp

lemma flush_interval_starves_witness:
  "flush_calls quiet_env (sync_options False 10) (\<lambda>s. (fst s @ [[7]], snd s + 9)) 1000 0 ([], 5) =
     ((\<lambda>s. (fst s @ [[7]], snd s + 9)) ^^ 1000) ([], 5)"
  by (rule flush_interval_starves) (simp_all add: sync_options_def quiet_env_def)

text \<open>
  Asynchronous mode loses the connection object of a TBRemoting request: the copy the job
  works on has the pooled request's object and an empty connection buffer, so its id, and with it
  the id of its response, is not the id in the object the client sent.
\<close>

theorem async_drops_connection_object:
  assumes "c_proto (m_command (ss_req st)) = ProtoTBRemoting"
    and "tb_Ctx_ID (m_tbconn (sv_pooled_request env)) = None"
  shows "\<exists>req. ss_jobs (handleCommandAsync env st) = ss_jobs st @ [(rw_id (ss_rw st), req)] \<and>
    m_tbconn req = m_tbconn (sv_pooled_request env) \<and>
    c_connection (m_command req) = c_connection (m_command (sv_pooled_request env)) \<and>
    GetRequestID req = c_rid (m_command (ss_req st))"
  using assms
  by (simp add: handleCommandAsync_def CopyCommand_def AcquireRequest_def set_command_def
      GetRequestID_def Command_CopyTo_def)

lemma async_drops_connection_object_witness:
  "\<exists>req. ss_jobs (handleCommandAsync quiet_env ((quiet_state [])\<lparr>ss_req :=
      blank\<lparr>m_command := sample 13 1, m_tbconn := \<lparr>tb_Ctx_ID = Some 5, tb_rest = ()\<rparr>\<rparr>\<rparr>)) = [(0, req)] \<and>
    GetRequestID req = 0x01000002"
  using async_drops_connection_object [of "(quiet_state [])\<lparr>ss_req :=
      blank\<lparr>m_command := sample 13 1, m_tbconn := \<lparr>tb_Ctx_ID = Some 5, tb_rest = ()\<rparr>\<rparr>\<rparr>" quiet_env]
  by (auto simp: quiet_state_def quiet_env_def blank_def message_new_def)

end
