(* ===== verification/Client_Bolt.thy ===== *)
theory Client_Bolt
  imports Client_Conn Client_Safety Server
begin

text \<open>
  src/sofabolt/protocol/bolt: the BOLT protocol over a \<open>ClientConn\<close>, with its encoder and decoder
  (clientx_bolt_protocol.go), its table of pending requests and its dispatcher (clientx_bolt.go).

  The machine is that of theory \<open>Client_Conn\<close> with the state of the protocol around it: the calls of
  \<open>Do\<close>, \<open>DoTimeout\<close> and \<open>DoCallback\<close>, whose steps are those of \<open>invoke\<close>, and the dispatcher, which runs
  in the reader's goroutine, so that the reader stands still until it is done. Contexts are those of
  invoke_context.go as theory \<open>Client\<close> has them. The ids come from the 64-bit counter of the
  connection. The handler and the callbacks of the user are recorded, not run.
\<close>

subsection \<open>Encoder and decoder\<close>

datatype 'x bolt_value = A_request "'x request" | A_response "'x response" | Another

definition bolt_Encode ::
  "'x hessian \<Rightarrow> (bytes \<Rightarrow> nat \<Rightarrow> bytes) \<Rightarrow> bytes \<Rightarrow> 'x bolt_value \<Rightarrow> (go_error + bytes) option" where
  "bolt_Encode h alloc dst cmd =
     (case cmd of
        A_request x \<Rightarrow> map_option fst (Message_Write h alloc dst x)
      | A_response x \<Rightarrow> map_option fst (Message_Write h alloc dst x)
      | Another \<Rightarrow> Some (Inl (ErrOther 0)))"

definition bolt_Decode ::
  "'r read_helper \<Rightarrow> bytes \<Rightarrow> 'r \<Rightarrow> (command \<times> go_error option \<times> 'r) option" where
  "bolt_Decode rh b32 r =
     map_option (\<lambda>(n, err, cmd, r). (cmd, err, r)) (ReadCommand rh b32 r Command_zero)"

subsection \<open>State\<close>

datatype bolt_phase =
    B_entering | B_open | B_adding | B_sending | B_failed go_error | B_oneway | B_waiting
  | B_timedout | B_copying | B_finishing "go_error option" | B_returned "go_error option"

record 'x bolt_call =
  bc_ictx :: nat
  bc_callback :: bool
  bc_timeout :: bool
  bc_req :: "'x request"
  bc_res :: "'x response"
  bc_rid :: "32 word"
  bc_phase :: bolt_phase

datatype 'x dispatching = Idle_disp | Invoking nat "'x response" | Notifying_disp nat

record 'x conn_bolt =
  xb_x :: "command client_conn"
  xb_requests :: "(32 word \<times> nat) list"
  xb_ictxs :: "nat \<Rightarrow> 'x ictx"
  xb_nictxs :: nat
  xb_pool :: "nat list"
  xb_calls :: "nat \<Rightarrow> 'x bolt_call"
  xb_ncalls :: nat
  xb_disp :: "'x dispatching"
  xb_handled :: "'x request list"
  xb_references :: int
  xb_used :: int
  xb_lasted :: int

definition bolt_call_new :: "'x client_env \<Rightarrow> 'x bolt_call" where
  "bolt_call_new env = \<lparr>bc_ictx = 0, bc_callback = False, bc_timeout = False,
     bc_req = message_new (ce_tbconn env), bc_res = message_new (ce_tbconn env), bc_rid = 0,
     bc_phase = B_returned None\<rparr>"

text \<open>The state \<open>polyfill\<close> builds around a new client connection.\<close>

definition bolt_new :: "'x client_env \<Rightarrow> command client_conn \<Rightarrow> 'x conn_bolt" where
  "bolt_new env x = \<lparr>xb_x = x, xb_requests = [], xb_ictxs = (\<lambda>_. ictx_new env), xb_nictxs = 0,
     xb_pool = [], xb_calls = (\<lambda>_. bolt_call_new env), xb_ncalls = 0, xb_disp = Idle_disp,
     xb_handled = [], xb_references = 0, xb_used = 0, xb_lasted = 0\<rparr>"

definition set_bictx :: "nat \<Rightarrow> ('x ictx \<Rightarrow> 'x ictx) \<Rightarrow> 'x conn_bolt \<Rightarrow> 'x conn_bolt" where
  "set_bictx p f xb = xb\<lparr>xb_ictxs := (xb_ictxs xb)(p := f (xb_ictxs xb p))\<rparr>"

definition set_bcall :: "nat \<Rightarrow> ('x bolt_call \<Rightarrow> 'x bolt_call) \<Rightarrow> 'x conn_bolt \<Rightarrow> 'x conn_bolt" where
  "set_bcall i f xb = xb\<lparr>xb_calls := (xb_calls xb)(i := f (xb_calls xb i))\<rparr>"

abbreviation set_bphase :: "nat \<Rightarrow> bolt_phase \<Rightarrow> 'x conn_bolt \<Rightarrow> 'x conn_bolt" where
  "set_bphase i ph \<equiv> set_bcall i (\<lambda>k. k\<lparr>bc_phase := ph\<rparr>)"

abbreviation bphase :: "'x conn_bolt \<Rightarrow> nat \<Rightarrow> bolt_phase" where
  "bphase xb i \<equiv> bc_phase (xb_calls xb i)"

subsection \<open>Options\<close>

text \<open>
  The options but for the handler, which is that of \<open>client_env\<close>, and the metrics. The heartbeat
  options are stored and not used by the code.
\<close>

record bolt_options =
  bo_conn :: "net_conn option"
  bo_idleTimeout :: int
  bo_readTimeout :: int
  bo_writeTimeout :: int
  bo_flushInterval :: int
  bo_maxPendingCommands :: int
  bo_onHeartbeat :: bool
  bo_heartbeatInterval :: int
  bo_heartbeatTimeout :: int
  bo_heartbeatProbes :: int
  bo_dialer :: bool

definition bolt_options_zero :: bolt_options where
  "bolt_options_zero = \<lparr>bo_conn = None, bo_idleTimeout = 0, bo_readTimeout = 0, bo_writeTimeout = 0,
     bo_flushInterval = 0, bo_maxPendingCommands = 0, bo_onHeartbeat = False,
     bo_heartbeatInterval = 0, bo_heartbeatTimeout = 0, bo_heartbeatProbes = 0, bo_dialer = False\<rparr>"

definition WithClientConnBOLTTimeout ::
  "int \<Rightarrow> int \<Rightarrow> int \<Rightarrow> int \<Rightarrow> bolt_options \<Rightarrow> bolt_options" where
  "WithClientConnBOLTTimeout readtimeout writetimeout idletimeout flushInterval c =
     c\<lparr>bo_readTimeout := readtimeout, bo_writeTimeout := writetimeout, bo_idleTimeout := idletimeout\<rparr>"

definition WithClientConnBOLTConn :: "net_conn option \<Rightarrow> bolt_options \<Rightarrow> bolt_options" where
  "WithClientConnBOLTConn conn c = c\<lparr>bo_conn := conn\<rparr>"

definition WithClientConnBOLTHeartbeat ::
  "int \<Rightarrow> int \<Rightarrow> int \<Rightarrow> bool \<Rightarrow> bolt_options \<Rightarrow> bolt_options" where
  "WithClientConnBOLTHeartbeat heartbeatinterval heartbeattimeout heartbeatprobes onheartbeat c =
     c\<lparr>bo_heartbeatTimeout := heartbeattimeout, bo_heartbeatInterval := heartbeatinterval,
       bo_heartbeatProbes := heartbeatprobes, bo_onHeartbeat := onheartbeat\<rparr>"

definition WithClientConnBOLTMaxPendingCommands :: "int \<Rightarrow> bolt_options \<Rightarrow> bolt_options" where
  "WithClientConnBOLTMaxPendingCommands m c = c\<lparr>bo_maxPendingCommands := m\<rparr>"

definition WithClientConnBOLTRedial :: "bool \<Rightarrow> bolt_options \<Rightarrow> bolt_options" where
  "WithClientConnBOLTRedial dialer c = c\<lparr>bo_dialer := dialer\<rparr>"

text \<open>The options \<open>polyfill\<close> hands to the client connection, in its order.\<close>

definition polyfill_options ::
  "bolt_options \<Rightarrow> (command client_conn \<Rightarrow> command client_conn) list" where
  "polyfill_options o' =
     [case bo_conn o' of Some c \<Rightarrow> WithClientConnConn (Some c)
      | None \<Rightarrow> WithClientConnRedial (bo_dialer o'),
      WithClientConnMaxPendingCommands (bo_maxPendingCommands o'),
      WithClientConnTimeout (bo_readTimeout o') (bo_writeTimeout o') (bo_idleTimeout o')
        (bo_flushInterval o'),
      WithClientConnMaxPendingCommands (bo_maxPendingCommands o'),
      WithClientConnDispatcher True]"

definition bolt_polyfill ::
  "'x client_env \<Rightarrow> conn_env \<Rightarrow> bolt_options \<Rightarrow> go_error + 'x conn_bolt" where
  "bolt_polyfill env cenv o' =
     (case NewClientConn cenv (polyfill_options o') of
        Inl err \<Rightarrow> Inl err
      | Inr x \<Rightarrow> Inr (bolt_new env x))"

definition NewClientConnBOLT ::
  "'x client_env \<Rightarrow> conn_env \<Rightarrow> (bolt_options \<Rightarrow> bolt_options) list \<Rightarrow> go_error + 'x conn_bolt" where
  "NewClientConnBOLT env cenv options =
     bolt_polyfill env cenv (fold (\<lambda>option c. option c) options bolt_options_zero)"

subsection \<open>The table of pending requests\<close>

definition bolt_addRequestContext :: "32 word \<Rightarrow> nat \<Rightarrow> 'x conn_bolt \<Rightarrow> 'x conn_bolt" where
  "bolt_addRequestContext rid p xb = xb\<lparr>xb_requests := AList.update rid p (xb_requests xb)\<rparr>"

definition bolt_delRequestContext :: "32 word \<Rightarrow> 'x conn_bolt \<Rightarrow> 'x conn_bolt" where
  "bolt_delRequestContext rid xb = xb\<lparr>xb_requests := AList.delete rid (xb_requests xb)\<rparr>"

definition bolt_getAndDelRequestContext ::
  "32 word \<Rightarrow> 'x conn_bolt \<Rightarrow> nat option \<times> 'x conn_bolt" where
  "bolt_getAndDelRequestContext rid xb =
     (map_of (xb_requests xb) rid, xb\<lparr>xb_requests := AList.delete rid (xb_requests xb)\<rparr>)"

definition cleanupPendingRequests :: "go_error \<Rightarrow> 'x conn_bolt \<Rightarrow> 'x conn_bolt" where
  "cleanupPendingRequests err xb =
     (fold (\<lambda>(_, p). set_bictx p (fail_pending err)) (xb_requests xb) xb)\<lparr>xb_requests := []\<rparr>"

subsection \<open>The dispatcher\<close>

definition dispatchRequest :: "'x client_env \<Rightarrow> 'x request \<Rightarrow> 'x conn_bolt \<Rightarrow> 'x conn_bolt" where
  "dispatchRequest env req xb =
     (if \<not> ce_handler env then xb else xb\<lparr>xb_handled := xb_handled xb @ [req]\<rparr>)"

definition dispatchResponse :: "'x response \<Rightarrow> 'x conn_bolt \<Rightarrow> 'x conn_bolt" where
  "dispatchResponse res xb =
     (case bolt_getAndDelRequestContext (GetRequestID res) xb of
        (None, xb) \<Rightarrow> xb
      | (Some p, xb) \<Rightarrow> xb\<lparr>xb_disp := Invoking p res\<rparr>)"

definition bolt_Dispatch ::
  "'x client_env \<Rightarrow> go_error option \<Rightarrow> command \<Rightarrow> 'x conn_bolt \<Rightarrow> 'x conn_bolt" where
  "bolt_Dispatch env err cmd xb =
     (case err of
        Some e \<Rightarrow> cleanupPendingRequests e xb
      | None \<Rightarrow>
          let m = ShallowCopyCommand cmd (message_new (ce_tbconn env))
          in if IsRequest cmd then dispatchRequest env m xb else dispatchResponse m xb)"

text \<open>\<open>InvokeContext.Invoke\<close>, in two steps; the send waits while the channel is full.\<close>

definition Invoke_step :: "'x conn_bolt \<Rightarrow> 'x conn_bolt option" where
  "Invoke_step xb =
     (case xb_disp xb of
        Idle_disp \<Rightarrow> None
      | Invoking p res \<Rightarrow>
          Some (if ic_callback (xb_ictxs xb p)
                then (set_bictx p (\<lambda>x. x\<lparr>ic_res := Some res,
                        ic_calls := ic_calls x @ [(None, Some res)]\<rparr>) xb)\<lparr>xb_disp := Idle_disp\<rparr>
                else (set_bictx p (AssignResponse res) xb)\<lparr>xb_disp := Notifying_disp p\<rparr>)
      | Notifying_disp p \<Rightarrow>
          (case ic_errCh (xb_ictxs xb p) of
             Some ch \<Rightarrow>
               if length ch < 1
               then Some ((set_bictx p (\<lambda>x. x\<lparr>ic_errCh := Some (ch @ [None])\<rparr>) xb)\<lparr>xb_disp := Idle_disp\<rparr>)
               else None
           | None \<Rightarrow> None))"

subsection \<open>Calls\<close>

definition add_bcall :: "'x bolt_call \<Rightarrow> 'x conn_bolt \<Rightarrow> 'x conn_bolt" where
  "add_bcall k xb =
     xb\<lparr>xb_calls := (xb_calls xb)(xb_ncalls xb := k), xb_ncalls := xb_ncalls xb + 1\<rparr>"

text \<open>
  \<open>AcquireInvokeContext\<close> on the pooled context \<open>pooled\<close> or, when that is \<open>None\<close>, a new one.
\<close>

definition bolt_DoTimeout ::
  "'x client_env \<Rightarrow> 'x request \<Rightarrow> 'x response \<Rightarrow> bool \<Rightarrow> nat option \<Rightarrow> 'x conn_bolt \<Rightarrow>
   'x conn_bolt option" where
  "bolt_DoTimeout env req res timeout pooled xb =
     (let xb = xb\<lparr>xb_references := xb_references xb + 1, xb_used := xb_used xb + 1\<rparr>;
          i = xb_ncalls xb;
          acquire = (\<lambda>x. x\<lparr>ic_owner := i,
            ic_errCh := (case ic_errCh x of None \<Rightarrow> Some []
                         | Some ch \<Rightarrow> if length ch = 1 then Some [] else Some ch)\<rparr>);
          start = (\<lambda>p xb. add_bcall \<lparr>bc_ictx = p, bc_callback = False, bc_timeout = timeout,
                      bc_req = req, bc_res = res, bc_rid = 0, bc_phase = B_entering\<rparr>
                    (set_bictx p acquire xb))
      in case pooled of
           None \<Rightarrow> Some (start (xb_nictxs xb)
             (set_bictx (xb_nictxs xb) (\<lambda>_. ictx_new env) (xb\<lparr>xb_nictxs := xb_nictxs xb + 1\<rparr>)))
         | Some p \<Rightarrow>
             if p \<in> set (xb_pool xb) then Some (start p (xb\<lparr>xb_pool := remove1 p (xb_pool xb)\<rparr>))
             else None)"

definition bolt_DoCallbackTimeout ::
  "'x client_env \<Rightarrow> 'x request \<Rightarrow> 'x conn_bolt \<Rightarrow> 'x conn_bolt" where
  "bolt_DoCallbackTimeout env req xb =
     (let p = xb_nictxs xb; i = xb_ncalls xb
      in add_bcall \<lparr>bc_ictx = p, bc_callback = True, bc_timeout = False, bc_req = req,
             bc_res = message_new (ce_tbconn env), bc_rid = 0, bc_phase = B_entering\<rparr>
           (set_bictx p (\<lambda>_. (ictx_new env)\<lparr>ic_callback := True, ic_owner := i\<rparr>)
             (xb\<lparr>xb_references := xb_references xb + 1, xb_used := xb_used xb + 1,
                 xb_nictxs := p + 1\<rparr>)))"

text \<open>The id of a request, refused when it does not fit 32 bits.\<close>

definition bolt_number :: "nat \<Rightarrow> 'x conn_bolt \<Rightarrow> 'x conn_bolt" where
  "bolt_number i xb =
     (let (id, x) = IncrementID (xb_x xb);
          xb = xb\<lparr>xb_x := x\<rparr>
      in if id > 0xFFFFFFFF then set_bphase i (B_finishing (Some ErrRequestIDOverflow)) xb
         else set_bcall i (\<lambda>k. k\<lparr>bc_rid := ucast id, bc_req := Request_SetRequestID (ucast id) (bc_req k),
                                bc_phase := B_adding\<rparr>) xb)"

text \<open>The end of \<open>DoTimeout\<close> and \<open>DoCallbackTimeout\<close>, at time \<open>now\<close>.\<close>

definition bolt_finish :: "int \<Rightarrow> nat \<Rightarrow> go_error option \<Rightarrow> 'x conn_bolt \<Rightarrow> 'x conn_bolt" where
  "bolt_finish now i err xb =
     (let k = xb_calls xb i;
          xb = (if \<not> bc_callback k \<and> err \<noteq> Some ErrClientTimeout
                then xb\<lparr>xb_pool := bc_ictx k # xb_pool xb\<rparr> else xb)
      in set_bphase i (B_returned err)
           (xb\<lparr>xb_lasted := now, xb_references := xb_references xb - 1\<rparr>))"

definition bolt_invoke_step :: "int \<Rightarrow> nat \<Rightarrow> 'x conn_bolt \<Rightarrow> 'x conn_bolt option" where
  "bolt_invoke_step now i xb =
     (let k = xb_calls xb i; p = bc_ictx k; rid = bc_rid k
      in case bc_phase k of
           B_entering \<Rightarrow>
             Some (set_bphase i
               (if x_closed (xb_x xb) then B_finishing (Some ErrClientWasClosed) else B_open) xb)
         | B_open \<Rightarrow> Some (bolt_number i xb)
         | B_adding \<Rightarrow> Some (set_bphase i B_sending (bolt_addRequestContext rid p xb))
         | B_failed err \<Rightarrow>
             Some (set_bphase i (B_finishing (Some err)) (bolt_delRequestContext rid xb))
         | B_oneway \<Rightarrow> Some (set_bphase i (B_finishing None) (bolt_delRequestContext rid xb))
         | B_waiting \<Rightarrow>
             (case ic_errCh (xb_ictxs xb p) of
                Some (m # ch) \<Rightarrow>
                  Some (set_bphase i (case m of Some err \<Rightarrow> B_finishing (Some err) | None \<Rightarrow> B_copying)
                    (set_bictx p (\<lambda>x. x\<lparr>ic_errCh := Some ch\<rparr>) xb))
              | _ \<Rightarrow> None)
         | B_timedout \<Rightarrow>
             Some (set_bphase i (B_finishing (Some ErrClientTimeout)) (bolt_delRequestContext rid xb))
         | B_copying \<Rightarrow>
             Some (set_bcall i (\<lambda>k. k\<lparr>bc_res := Message_CopyTo (ic_ires (xb_ictxs xb p)) (bc_res k),
                                     bc_phase := B_finishing None\<rparr>) xb)
         | B_finishing err \<Rightarrow> Some (bolt_finish now i err xb)
         | _ \<Rightarrow> None)"

text \<open>\<open>Send\<close> returns; \<open>written\<close> is what the connection's \<open>Write\<close> gave, when the request was encoded.\<close>

definition bolt_send ::
  "'x client_env \<Rightarrow> nat \<Rightarrow> go_error option \<Rightarrow> 'x conn_bolt \<Rightarrow> 'x conn_bolt option" where
  "bolt_send env i written xb =
     (let k = xb_calls xb i
      in if bc_phase k \<noteq> B_sending then None
         else case bolt_Encode (ce_hessian env) (ce_alloc env) [] (A_request (bc_req k)) of
                None \<Rightarrow> None
              | Some encoded \<Rightarrow>
                  let (err, x) = Send encoded written (xb_x xb)
                  in Some (set_bphase i
                       (case err of
                          Some e \<Rightarrow> B_failed e
                        | None \<Rightarrow>
                            if c_typ (m_command (bc_req k)) = TypeBOLTRequestOneWay then B_oneway
                            else if ic_errCh (xb_ictxs xb (bc_ictx k)) \<noteq> None then B_waiting
                            else B_finishing None)
                       (xb\<lparr>xb_x := x\<rparr>)))"

definition bolt_timer :: "nat \<Rightarrow> 'x conn_bolt \<Rightarrow> 'x conn_bolt option" where
  "bolt_timer i xb =
     (if bphase xb i = B_waiting \<and> bc_timeout (xb_calls xb i)
      then Some (set_bphase i B_timedout xb) else None)"

subsection \<open>Runs\<close>

text \<open>
  The decoder returns, and the dispatcher runs if the loop calls it. Of the connection's other
  actions those of the reader are possible only while the dispatcher does not run.
\<close>

definition bolt_decoded ::
  "'x client_env \<Rightarrow> conn_env \<Rightarrow> command \<Rightarrow> go_error option \<Rightarrow> 'x conn_bolt \<Rightarrow> 'x conn_bolt" where
  "bolt_decoded env cenv cmd err xb =
     (let x = decode_returns cenv cmd err (xb_x xb);
          dispatched = x_dispatched x \<noteq> x_dispatched (xb_x xb);
          xb = xb\<lparr>xb_x := x\<rparr>
      in if dispatched then bolt_Dispatch env err cmd xb else xb)"

datatype 'x bolt_action =
    Bolt_do "'x request" "'x response" bool "nat option"
  | Bolt_callback "'x request"
  | Bolt_run int nat
  | Bolt_sent nat "go_error option"
  | Bolt_timer_fires nat
  | Bolt_decodes command "go_error option"
  | Bolt_dispatches
  | Bolt_reader
  | Bolt_fill int "go_error option"
  | Bolt_dialed "go_error + net_conn"
  | Bolt_wrap
  | Bolt_close

definition on_conn ::
  "(command client_conn \<Rightarrow> command client_conn option) \<Rightarrow> 'x conn_bolt \<Rightarrow> 'x conn_bolt option" where
  "on_conn f xb = map_option (\<lambda>x. xb\<lparr>xb_x := x\<rparr>) (f (xb_x xb))"

definition bolt_act ::
  "'x client_env \<Rightarrow> conn_env \<Rightarrow> 'x bolt_action \<Rightarrow> 'x conn_bolt \<Rightarrow> 'x conn_bolt option" where
  "bolt_act env cenv a xb =
     (case a of
        Bolt_do req res timeout pooled \<Rightarrow> bolt_DoTimeout env req res timeout pooled xb
      | Bolt_callback req \<Rightarrow> Some (bolt_DoCallbackTimeout env req xb)
      | Bolt_run now i \<Rightarrow> if i < xb_ncalls xb then bolt_invoke_step now i xb else None
      | Bolt_sent i written \<Rightarrow> if i < xb_ncalls xb then bolt_send env i written xb else None
      | Bolt_timer_fires i \<Rightarrow> if i < xb_ncalls xb then bolt_timer i xb else None
      | Bolt_dispatches \<Rightarrow> Invoke_step xb
      | Bolt_close \<Rightarrow> on_conn (conn_act cenv Close_conn) xb
      | Bolt_decodes cmd err \<Rightarrow>
          if xb_disp xb = Idle_disp \<and> x_reader (xb_x xb) = Decoding
          then Some (bolt_decoded env cenv cmd err xb) else None
      | Bolt_reader \<Rightarrow> if xb_disp xb = Idle_disp then on_conn doread_step xb else None
      | Bolt_fill now result \<Rightarrow>
          if xb_disp xb = Idle_disp then on_conn (conn_act cenv (Fill now result)) xb else None
      | Bolt_dialed result \<Rightarrow> if xb_disp xb = Idle_disp then on_conn (conn_dialed result) xb else None
      | Bolt_wrap \<Rightarrow> if xb_disp xb = Idle_disp then on_conn (conn_wrapped cenv) xb else None)"

fun bolt_run :: "'x client_env \<Rightarrow> conn_env \<Rightarrow> 'x bolt_action list \<Rightarrow> 'x conn_bolt \<Rightarrow>
    'x conn_bolt option" where
  "bolt_run env cenv [] xb = Some xb"
| "bolt_run env cenv (a # as) xb = Option.bind (bolt_act env cenv a xb) (bolt_run env cenv as)"

text \<open>The states after \<open>n\<close> actions.\<close>

inductive bolt_reach :: "'x client_env \<Rightarrow> nat \<Rightarrow> 'x conn_bolt \<Rightarrow> bool" for env where
  new: "NewClientConnBOLT env cenv options = Inr xb \<Longrightarrow> bolt_reach env 0 xb"
| act: "bolt_reach env n xb \<Longrightarrow> bolt_act env cenv a xb = Some xb' \<Longrightarrow> bolt_reach env (Suc n) xb'"

subsection \<open>Ids\<close>

fun unborn :: "bolt_phase \<Rightarrow> bool" where
  "unborn B_entering = True" | "unborn B_open = True" | "unborn _ = False"

fun has_id :: "bolt_phase \<Rightarrow> bool" where
  "has_id B_entering = False" | "has_id B_open = False" | "has_id (B_finishing e) = False"
| "has_id (B_returned e) = False" | "has_id _ = True"

definition bolt_inv :: "nat \<Rightarrow> 'x conn_bolt \<Rightarrow> bool" where
  "bolt_inv n xb \<longleftrightarrow> unat (x_id (xb_x xb)) \<le> n \<and>
     (\<forall>i < xb_ncalls xb. unat (bc_rid (xb_calls xb i)) \<le> unat (x_id (xb_x xb)) \<and>
        (unborn (bphase xb i) \<longrightarrow> bc_rid (xb_calls xb i) = 0) \<and>
        (has_id (bphase xb i) \<longrightarrow> bc_rid (xb_calls xb i) \<noteq> 0)) \<and>
     (\<forall>i < xb_ncalls xb. \<forall>j < xb_ncalls xb. bc_rid (xb_calls xb i) = bc_rid (xb_calls xb j) \<longrightarrow>
        bc_rid (xb_calls xb i) \<noteq> 0 \<longrightarrow> i = j) \<and>
     (\<forall>rid p. map_of (xb_requests xb) rid = Some p \<longrightarrow> rid \<noteq> 0 \<and>
        (\<exists>i < xb_ncalls xb. bc_rid (xb_calls xb i) = rid \<and> bc_ictx (xb_calls xb i) = p \<and>
           bphase xb i \<noteq> B_adding))"

lemma bolt_inv_frame:
  assumes inv: "bolt_inv n xb" and x: "x_id (xb_x xb') = x_id (xb_x xb)"
    and nc: "xb_ncalls xb' = xb_ncalls xb"
    and same: "\<And>i. i < xb_ncalls xb \<Longrightarrow> bc_rid (xb_calls xb' i) = bc_rid (xb_calls xb i) \<and>
      bc_ictx (xb_calls xb' i) = bc_ictx (xb_calls xb i) \<and>
      (unborn (bphase xb' i) \<longrightarrow> unborn (bphase xb i)) \<and>
      (has_id (bphase xb' i) \<longrightarrow> has_id (bphase xb i)) \<and>
      (bphase xb' i = B_adding \<longrightarrow> bphase xb i = B_adding)"
    and table: "\<And>rid p. map_of (xb_requests xb') rid = Some p \<Longrightarrow>
      map_of (xb_requests xb) rid = Some p \<or>
      (\<exists>i < xb_ncalls xb. bphase xb i = B_adding \<and> rid = bc_rid (xb_calls xb i) \<and>
         p = bc_ictx (xb_calls xb i) \<and> bphase xb' i \<noteq> B_adding)"
  shows "bolt_inv n xb'"
proof -
  have "rid \<noteq> 0 \<and> (\<exists>i < xb_ncalls xb. bc_rid (xb_calls xb' i) = rid \<and>
      bc_ictx (xb_calls xb' i) = p \<and> bphase xb' i \<noteq> B_adding)"
    if m: "map_of (xb_requests xb') rid = Some p" for rid p
    using table [OF m]
  proof (elim disjE exE conjE)
    assume "map_of (xb_requests xb) rid = Some p"
    then show ?thesis using inv same unfolding bolt_inv_def by metis
  next
    fix i assume i: "i < xb_ncalls xb" "bphase xb i = B_adding" "rid = bc_rid (xb_calls xb i)"
      "p = bc_ictx (xb_calls xb i)" "bphase xb' i \<noteq> B_adding"
    then have "rid \<noteq> 0" using inv by (simp add: bolt_inv_def)
    with i same [OF i(1)] show ?thesis by auto
  qed
  moreover have "\<forall>i < xb_ncalls xb. unat (bc_rid (xb_calls xb' i)) \<le> unat (x_id (xb_x xb)) \<and>
        (unborn (bphase xb' i) \<longrightarrow> bc_rid (xb_calls xb' i) = 0) \<and>
        (has_id (bphase xb' i) \<longrightarrow> bc_rid (xb_calls xb' i) \<noteq> 0)"
    using inv same by (simp add: bolt_inv_def)
  moreover have "\<forall>i < xb_ncalls xb. \<forall>j < xb_ncalls xb.
      bc_rid (xb_calls xb' i) = bc_rid (xb_calls xb' j) \<longrightarrow> bc_rid (xb_calls xb' i) \<noteq> 0 \<longrightarrow> i = j"
    using inv same by (simp add: bolt_inv_def)
  ultimately show ?thesis using inv x nc by (simp add: bolt_inv_def)
qed

lemma bolt_inv_new_call:
  assumes inv: "bolt_inv n xb" and "x_id (xb_x xb') = x_id (xb_x xb)"
    and "xb_ncalls xb' = xb_ncalls xb + 1" and "xb_requests xb' = xb_requests xb"
    and "xb_calls xb' = (xb_calls xb)(xb_ncalls xb := k)" and "bc_rid k = 0" and "bc_phase k = B_entering"
  shows "bolt_inv n xb'"
proof -
  have "rid \<noteq> 0 \<and> (\<exists>i < xb_ncalls xb + 1. bc_rid (xb_calls xb' i) = rid \<and>
      bc_ictx (xb_calls xb' i) = p \<and> bphase xb' i \<noteq> B_adding)"
    if m: "map_of (xb_requests xb) rid = Some p" for rid p
  proof -
    obtain i where "rid \<noteq> 0" and i: "i < xb_ncalls xb" and "bc_rid (xb_calls xb i) = rid \<and>
      bc_ictx (xb_calls xb i) = p \<and> bphase xb i \<noteq> B_adding"
      using inv m unfolding bolt_inv_def by blast
    with assms(5) show ?thesis by (intro conjI exI [of _ i]) auto
  qed
  with assms show ?thesis by (auto simp: bolt_inv_def less_Suc_eq)
qed

lemma bolt_inv_number:
  assumes inv: "bolt_inv n xb" and i: "i < xb_ncalls xb" and ph: "bphase xb i = B_open"
    and n: "Suc n < 2 ^ 64"
  shows "bolt_inv (Suc n) (bolt_number i xb)"
proof -
  let ?x = "x_id (xb_x xb)"
  have le: "unat ?x \<le> n" using inv by (simp add: bolt_inv_def)
  then have u: "unat (?x + 1) = unat ?x + 1" using n by (simp add: unat_word_ariths)
  have r0: "bc_rid (xb_calls xb i) = 0" using inv i ph by (simp add: bolt_inv_def)
  show ?thesis
  proof (cases "?x + 1 > 0xFFFFFFFF")
    case True
    then have eq: "bolt_number i xb =
      set_bphase i (B_finishing (Some ErrRequestIDOverflow)) (xb\<lparr>xb_x := (xb_x xb)\<lparr>x_id := ?x + 1\<rparr>\<rparr>)"
      by (simp add: bolt_number_def IncrementID_def Let_def)
    have "rid \<noteq> 0 \<and> (\<exists>j < xb_ncalls xb. bc_rid (xb_calls (bolt_number i xb) j) = rid \<and>
        bc_ictx (xb_calls (bolt_number i xb) j) = p \<and> bphase (bolt_number i xb) j \<noteq> B_adding)"
      if m: "map_of (xb_requests xb) rid = Some p" for rid p
    proof -
      obtain j where "rid \<noteq> 0" "j < xb_ncalls xb" "bc_rid (xb_calls xb j) = rid"
        "bc_ictx (xb_calls xb j) = p" "bphase xb j \<noteq> B_adding"
        using inv m unfolding bolt_inv_def by blast
      then show ?thesis by (intro conjI exI [of _ j]) (auto simp: eq set_bcall_def)
    qed
    moreover have rid: "bc_rid (xb_calls (bolt_number i xb) j) = bc_rid (xb_calls xb j)" for j
      by (simp add: eq set_bcall_def)
    moreover have "unat (bc_rid (xb_calls xb j)) \<le> unat (?x + 1) \<and>
        (unborn (bphase (bolt_number i xb) j) \<longrightarrow> bc_rid (xb_calls xb j) = 0) \<and>
        (has_id (bphase (bolt_number i xb) j) \<longrightarrow> bc_rid (xb_calls xb j) \<noteq> 0)"
      if "j < xb_ncalls xb" for j
      using inv that u by (auto simp: bolt_inv_def eq set_bcall_def le_Suc_eq)
    moreover have "j = k" if "j < xb_ncalls xb" "k < xb_ncalls xb"
      "bc_rid (xb_calls xb j) = bc_rid (xb_calls xb k)" "bc_rid (xb_calls xb j) \<noteq> 0" for j k
      using inv that unfolding bolt_inv_def by metis
    moreover have "xb_ncalls (bolt_number i xb) = xb_ncalls xb"
      "xb_requests (bolt_number i xb) = xb_requests xb" "x_id (xb_x (bolt_number i xb)) = ?x + 1"
      by (simp_all add: eq set_bcall_def)
    ultimately show ?thesis using le u unfolding bolt_inv_def by simp
  next
    case False
    then have small: "unat (?x + 1) < 2 ^ 32" by (simp add: word_less_nat_alt not_less word_le_nat_alt)
    let ?r = "ucast (?x + 1) :: 32 word"
    have ur: "unat ?r = unat ?x + 1"
      using small u by (simp add: unsigned_ucast_eq take_bit_nat_eq_self_iff)
    define xb' where "xb' = bolt_number i xb"
    have eq: "xb' = set_bcall i (\<lambda>k. k\<lparr>bc_rid := ?r, bc_req := Request_SetRequestID ?r (bc_req k),
        bc_phase := B_adding\<rparr>) (xb\<lparr>xb_x := (xb_x xb)\<lparr>x_id := ?x + 1\<rparr>\<rparr>)"
      using False by (simp add: xb'_def bolt_number_def IncrementID_def Let_def)
    have nc: "xb_ncalls xb' = xb_ncalls xb" and req: "xb_requests xb' = xb_requests xb"
      and x': "x_id (xb_x xb') = ?x + 1" by (simp_all add: eq set_bcall_def)
    have ri: "bc_rid (xb_calls xb' i) = ?r" and pi: "bphase xb' i = B_adding"
      by (simp_all add: eq set_bcall_def)
    have other: "xb_calls xb' j = xb_calls xb j" if "j \<noteq> i" for j using that by (simp add: eq set_bcall_def)
    have rn: "?r \<noteq> 0" using ur by (metis add_is_0 one_neq_zero unat_0)
    have fresh: "bc_rid (xb_calls xb j) \<noteq> ?r" if "j < xb_ncalls xb" for j
      using inv that ur unfolding bolt_inv_def by fastforce
    have "rid \<noteq> 0 \<and> (\<exists>j < xb_ncalls xb. bc_rid (xb_calls xb' j) = rid \<and>
        bc_ictx (xb_calls xb' j) = p \<and> bphase xb' j \<noteq> B_adding)"
      if m: "map_of (xb_requests xb) rid = Some p" for rid p
    proof -
      obtain j where j: "rid \<noteq> 0" "j < xb_ncalls xb" "bc_rid (xb_calls xb j) = rid"
        "bc_ictx (xb_calls xb j) = p" "bphase xb j \<noteq> B_adding"
        using inv m unfolding bolt_inv_def by blast
      with r0 have "j \<noteq> i" by auto
      with j other show ?thesis by auto
    qed
    moreover have "unat (bc_rid (xb_calls xb' j)) \<le> unat (?x + 1) \<and>
        (unborn (bphase xb' j) \<longrightarrow> bc_rid (xb_calls xb' j) = 0) \<and>
        (has_id (bphase xb' j) \<longrightarrow> bc_rid (xb_calls xb' j) \<noteq> 0)" if "j < xb_ncalls xb" for j
      using inv that other ri pi ur u rn by (cases "j = i") (auto simp: bolt_inv_def le_Suc_eq)
    moreover have "j = k" if "j < xb_ncalls xb" "k < xb_ncalls xb"
      "bc_rid (xb_calls xb' j) = bc_rid (xb_calls xb' k)" "bc_rid (xb_calls xb' j) \<noteq> 0" for j k
      using inv that other ri fresh unfolding bolt_inv_def by metis
    ultimately have "bolt_inv (Suc n) xb'" using le u nc req x' by (simp add: bolt_inv_def)
    then show ?thesis by (simp add: xb'_def)
  qed
qed

lemma bolt_inv_call:
  assumes inv: "bolt_inv n xb" and i: "i < xb_ncalls xb" and x: "x_id (xb_x xb') = x_id (xb_x xb)"
    and nc: "xb_ncalls xb' = xb_ncalls xb" and calls: "\<And>j. j \<noteq> i \<Longrightarrow> xb_calls xb' j = xb_calls xb j"
    and k: "bc_rid (xb_calls xb' i) = bc_rid (xb_calls xb i)"
      "bc_ictx (xb_calls xb' i) = bc_ictx (xb_calls xb i)"
      "unborn (bphase xb' i) \<Longrightarrow> unborn (bphase xb i)" "has_id (bphase xb' i) \<Longrightarrow> has_id (bphase xb i)"
      "bphase xb' i \<noteq> B_adding"
    and table: "\<And>rid p. map_of (xb_requests xb') rid = Some p \<Longrightarrow>
      map_of (xb_requests xb) rid = Some p \<or>
      (bphase xb i = B_adding \<and> rid = bc_rid (xb_calls xb i) \<and> p = bc_ictx (xb_calls xb i))"
  shows "bolt_inv n xb'"
proof (rule bolt_inv_frame [OF inv x nc])
  fix j assume "j < xb_ncalls xb"
  show "bc_rid (xb_calls xb' j) = bc_rid (xb_calls xb j) \<and>
      bc_ictx (xb_calls xb' j) = bc_ictx (xb_calls xb j) \<and>
      (unborn (bphase xb' j) \<longrightarrow> unborn (bphase xb j)) \<and>
      (has_id (bphase xb' j) \<longrightarrow> has_id (bphase xb j)) \<and>
      (bphase xb' j = B_adding \<longrightarrow> bphase xb j = B_adding)"
    using calls k by (cases "j = i") auto
next
  fix rid p assume "map_of (xb_requests xb') rid = Some p"
  then show "map_of (xb_requests xb) rid = Some p \<or>
      (\<exists>i < xb_ncalls xb. bphase xb i = B_adding \<and> rid = bc_rid (xb_calls xb i) \<and>
         p = bc_ictx (xb_calls xb i) \<and> bphase xb' i \<noteq> B_adding)"
    using table i calls k(5) by (auto intro!: exI [of _ i])
qed

lemma bolt_inv_outside:
  assumes "bolt_inv n xb" and "x_id (xb_x xb') = x_id (xb_x xb)"
    and "xb_ncalls xb' = xb_ncalls xb" and "xb_calls xb' = xb_calls xb"
    and "\<And>rid p. map_of (xb_requests xb') rid = Some p \<Longrightarrow> map_of (xb_requests xb) rid = Some p"
  shows "bolt_inv n xb'"
  by (rule bolt_inv_frame [OF assms(1-3)]) (use assms(4,5) in auto)

lemma set_bictx_simps [simp]:
  "xb_x (set_bictx p f xb) = xb_x xb" "xb_ncalls (set_bictx p f xb) = xb_ncalls xb"
  "xb_calls (set_bictx p f xb) = xb_calls xb" "xb_requests (set_bictx p f xb) = xb_requests xb"
  "xb_disp (set_bictx p f xb) = xb_disp xb" "xb_pool (set_bictx p f xb) = xb_pool xb"
  "xb_nictxs (set_bictx p f xb) = xb_nictxs xb"
  by (simp_all add: set_bictx_def)

lemma set_bcall_simps [simp]:
  "xb_x (set_bcall i f xb) = xb_x xb" "xb_ncalls (set_bcall i f xb) = xb_ncalls xb"
  "xb_calls (set_bcall i f xb) = (xb_calls xb)(i := f (xb_calls xb i))"
  "xb_requests (set_bcall i f xb) = xb_requests xb" "xb_disp (set_bcall i f xb) = xb_disp xb"
  "xb_ictxs (set_bcall i f xb) = xb_ictxs xb"
  by (simp_all add: set_bcall_def)

lemma add_bcall_simps [simp]:
  "xb_x (add_bcall k xb) = xb_x xb" "xb_ncalls (add_bcall k xb) = xb_ncalls xb + 1"
  "xb_calls (add_bcall k xb) = (xb_calls xb)(xb_ncalls xb := k)"
  "xb_requests (add_bcall k xb) = xb_requests xb"
  by (simp_all add: add_bcall_def)

lemma fold_bictx_simps [simp]:
  "xb_x (fold (\<lambda>(_, p). set_bictx p f) t xb) = xb_x xb"
  "xb_ncalls (fold (\<lambda>(_, p). set_bictx p f) t xb) = xb_ncalls xb"
  "xb_calls (fold (\<lambda>(_, p). set_bictx p f) t xb) = xb_calls xb"
  "xb_disp (fold (\<lambda>(_, p). set_bictx p f) t xb) = xb_disp xb"
  by (induction t arbitrary: xb) auto

lemma x_id_simps [simp]:
  "x_id (OnStatusChange s x) = x_id x" "x_id (set_xreader r x) = x_id x"
  "x_id (DoDispatch e m x) = x_id x" "x_id (setConn c x) = x_id x"
  "x_id (decode_returns cenv m e x) = x_id x" "x_id (snd (conn_Close x)) = x_id x"
  "x_id (snd (Send enc w x)) = x_id x" "x_id (snd (conn_beforeread now re x)) = x_id x"
  by (auto simp: OnStatusChange_def set_xreader_def DoDispatch_def conn_Dispatch_def setConn_def
      decode_returns_def conn_Close_def Send_def conn_Write_def conn_beforeread_def
      conn_setConnReadTimeout_def Let_def split: sum.split option.split prod.split)

lemma x_id_reader:
  "doread_step x = Some x' \<Longrightarrow> x_id x' = x_id x" "conn_dialed r x = Some x' \<Longrightarrow> x_id x' = x_id x"
  "conn_wrapped cenv x = Some x' \<Longrightarrow> x_id x' = x_id x"
  by (auto simp: doread_step_def conn_dialed_def conn_wrapped_def Let_def
      split: conn_reader.splits if_splits sum.splits)

lemma bolt_inv_on_conn:
  assumes "on_conn f xb = Some xb'" and "bolt_inv n xb" and "\<And>x x'. f x = Some x' \<Longrightarrow> x_id x' = x_id x"
  shows "bolt_inv n xb'"
  using assms(1,3) by (auto simp: on_conn_def intro!: bolt_inv_outside [OF assms(2)])

lemma bolt_inv_dispatch:
  assumes "bolt_inv n xb" shows "bolt_inv n (bolt_Dispatch env err cmd xb)"
proof -
  have "bolt_inv n (cleanupPendingRequests e xb)" for e
    by (rule bolt_inv_outside [OF assms]) (simp_all add: cleanupPendingRequests_def)
  moreover have "bolt_inv n (dispatchRequest env m xb)" for m
    by (rule bolt_inv_outside [OF assms]) (auto simp: dispatchRequest_def split: if_splits)
  moreover have "bolt_inv n (dispatchResponse m xb)" for m
    by (rule bolt_inv_outside [OF assms])
      (auto simp: dispatchResponse_def bolt_getAndDelRequestContext_def map_of_delete_Some
        split: option.splits)
  ultimately show ?thesis by (simp add: bolt_Dispatch_def Let_def split: option.split)
qed

lemma bolt_inv_decoded: "bolt_inv n xb \<Longrightarrow> bolt_inv n (bolt_decoded env cenv cmd err xb)"
proof -
  assume i: "bolt_inv n xb"
  have "bolt_inv n (xb\<lparr>xb_x := decode_returns cenv cmd err (xb_x xb)\<rparr>)"
    by (rule bolt_inv_outside [OF i]) simp_all
  then show ?thesis by (simp add: bolt_decoded_def Let_def bolt_inv_dispatch)
qed

lemma bolt_inv_Suc: "bolt_inv n xb \<Longrightarrow> bolt_inv (Suc n) xb"
  by (simp add: bolt_inv_def)

lemma bolt_inv_invoke:
  assumes s: "bolt_invoke_step now i xb = Some xb'" and i: "i < xb_ncalls xb" and inv: "bolt_inv n xb"
    and n: "Suc n < 2 ^ 64"
  shows "bolt_inv (Suc n) xb'"
proof (cases "bphase xb i")
  case B_open
  with s bolt_inv_number [OF inv i B_open n] show ?thesis by (simp add: bolt_invoke_step_def Let_def)
next
  case B_adding
  show ?thesis
    by (rule bolt_inv_call [OF bolt_inv_Suc [OF inv] i]) (use s B_adding in
      \<open>auto simp: bolt_invoke_step_def bolt_addRequestContext_def Let_def map_of_update_Some
         split: if_splits\<close>)
next
  case (B_finishing e)
  show ?thesis
    by (rule bolt_inv_call [OF bolt_inv_Suc [OF inv] i]) (use s B_finishing in
      \<open>auto simp: bolt_invoke_step_def bolt_finish_def Let_def split: if_splits\<close>)
next
  case B_waiting
  show ?thesis
    by (rule bolt_inv_call [OF bolt_inv_Suc [OF inv] i]) (use s B_waiting in
      \<open>auto simp: bolt_invoke_step_def Let_def split: option.splits list.splits\<close>)
qed ((rule bolt_inv_call [OF bolt_inv_Suc [OF inv] i]; use s in \<open>auto simp: bolt_invoke_step_def
    bolt_delRequestContext_def Let_def map_of_delete_Some split: if_splits\<close>)+)

lemma bolt_inv_act:
  assumes s: "bolt_act env cenv a xb = Some xb'" and inv: "bolt_inv n xb" and n: "Suc n < 2 ^ 64"
  shows "bolt_inv (Suc n) xb'"
proof -
  note inv' = bolt_inv_Suc [OF inv]
  show ?thesis
  proof (cases a)
    case (Bolt_do req res timeout pooled)
    with s show ?thesis
      by (auto simp: bolt_act_def bolt_DoTimeout_def Let_def intro!: bolt_inv_new_call [OF inv']
          split: option.splits if_splits)
  next
    case (Bolt_callback req)
    with s show ?thesis
      by (auto simp: bolt_act_def bolt_DoCallbackTimeout_def Let_def
          intro!: bolt_inv_new_call [OF inv'])
  next
    case (Bolt_run now i)
    with s show ?thesis
      by (auto simp: bolt_act_def split: if_splits intro: bolt_inv_invoke [OF _ _ inv n])
  next
    case (Bolt_sent i written)
    with s have i: "i < xb_ncalls xb" and s': "bolt_send env i written xb = Some xb'"
      by (auto simp: bolt_act_def split: if_splits)
    from s' have ph: "bphase xb i = B_sending" by (auto simp: bolt_send_def Let_def split: if_splits)
    have sx: "x_id x = x_id (xb_x xb)" if "Send enc written (xb_x xb) = (err, x)" for enc err x
      using x_id_simps(7) [of enc written "xb_x xb"] that by simp
    show ?thesis
      by (rule bolt_inv_call [OF inv' i]) (use s' ph sx in
        \<open>auto simp: bolt_send_def Let_def split: if_splits option.splits prod.splits\<close>)
  next
    case (Bolt_timer_fires i)
    with s have i: "i < xb_ncalls xb" and s': "bolt_timer i xb = Some xb'"
      by (auto simp: bolt_act_def split: if_splits)
    show ?thesis
      by (rule bolt_inv_call [OF inv' i]) (use s' in \<open>auto simp: bolt_timer_def split: if_splits\<close>)
  next
    case (Bolt_decodes cmd err)
    with s inv' show ?thesis by (auto simp: bolt_act_def bolt_inv_decoded split: if_splits)
  next
    case Bolt_dispatches
    with s show ?thesis
      by (auto simp: bolt_act_def Invoke_step_def intro!: bolt_inv_outside [OF inv']
          split: dispatching.splits option.splits if_splits)
  next
    case Bolt_reader
    with s show ?thesis
      by (auto simp: bolt_act_def x_id_reader intro: bolt_inv_on_conn [OF _ inv'] split: if_splits)
  next
    case (Bolt_dialed r)
    with s show ?thesis
      by (auto simp: bolt_act_def x_id_reader intro: bolt_inv_on_conn [OF _ inv'] split: if_splits)
  next
    case Bolt_wrap
    with s show ?thesis
      by (auto simp: bolt_act_def x_id_reader intro: bolt_inv_on_conn [OF _ inv'] split: if_splits)
  next
    case (Bolt_fill now r)
    with s have "on_conn (conn_act cenv (Fill now r)) xb = Some xb'"
      by (auto simp: bolt_act_def split: if_splits)
    then show ?thesis
      by (rule bolt_inv_on_conn [OF _ inv']) (auto simp: conn_act_def split: if_splits)
  next
    case Bolt_close
    with s have "on_conn (conn_act cenv Close_conn) xb = Some xb'" by (simp add: bolt_act_def)
    then show ?thesis by (rule bolt_inv_on_conn [OF _ inv']) (auto simp: conn_act_def)
  qed
qed

lemma NewClientConn_id:
  assumes "NewClientConn cenv options = Inr x" and "list_all conn_setter options"
  shows "x_id x = 0"
proof -
  have "x_id (WithClientConnMaxPendingCommands m y) = x_id y" for m and y :: "'a client_conn"
    by (simp add: WithClientConnMaxPendingCommands_def)
  moreover have "x_id (fold (\<lambda>f. f) options conn_zero :: 'a client_conn) = 0"
    using setters_fresh [OF assms(2), of conn_zero] by (simp add: conn_zero_def)
  ultimately show ?thesis
    using assms(1) by (auto simp: NewClientConn_def conn_polyfill_def Let_def
        split: if_splits option.splits sum.splits)
qed

lemma polyfill_options_setters: "list_all conn_setter (polyfill_options o')"
  by (auto simp: polyfill_options_def intro: conn_setter.intros split: option.split)

lemma bolt_reach_inv: "bolt_reach env n xb \<Longrightarrow> n < 2 ^ 64 \<Longrightarrow> bolt_inv n xb"
proof (induction rule: bolt_reach.induct)
  case (new cenv options xb)
  then obtain o' x where "NewClientConn cenv (polyfill_options o') = Inr x" "xb = bolt_new env x"
    by (auto simp: NewClientConnBOLT_def bolt_polyfill_def split: sum.splits)
  then show ?case
    using NewClientConn_id [OF _ polyfill_options_setters] by (simp add: bolt_inv_def bolt_new_def)
next
  case (act n xb cenv a xb')
  then show ?case by (intro bolt_inv_act [OF act.hyps(2)]) simp_all
qed

subsection \<open>Properties\<close>

lemma bolt_reachD:
  assumes "bolt_reach env n xb" and "n < 2 ^ 64"
  shows "\<And>i j. i < xb_ncalls xb \<Longrightarrow> j < xb_ncalls xb \<Longrightarrow>
      bc_rid (xb_calls xb i) = bc_rid (xb_calls xb j) \<Longrightarrow> bc_rid (xb_calls xb i) \<noteq> 0 \<Longrightarrow> i = j"
    and "\<And>i. i < xb_ncalls xb \<Longrightarrow> has_id (bphase xb i) \<Longrightarrow> bc_rid (xb_calls xb i) \<noteq> 0"
    and "\<And>rid p. map_of (xb_requests xb) rid = Some p \<Longrightarrow> rid \<noteq> 0 \<and>
      (\<exists>i < xb_ncalls xb. bc_rid (xb_calls xb i) = rid \<and> bc_ictx (xb_calls xb i) = p \<and>
         bphase xb i \<noteq> B_adding)"
  using bolt_reach_inv [OF assms] by (auto simp: bolt_inv_def)

lemma x_options_simps [simp]:
  "x_options (decode_returns cenv m e x) = x_options x" "x_options (snd (conn_Close x)) = x_options x"
  "x_options (snd (Send enc w x)) = x_options x" "x_options (setConn c x) = x_options x"
  "x_options (snd (conn_beforeread now re x)) = x_options x"
  by (auto simp: setConn_def decode_returns_def conn_Close_def Send_def conn_Write_def
      conn_beforeread_def conn_setConnReadTimeout_def Let_def split: sum.split option.split prod.split)

lemma x_options_reader:
  "doread_step x = Some x' \<Longrightarrow> x_options x' = x_options x"
  "conn_dialed r x = Some x' \<Longrightarrow> x_options x' = x_options x"
  "conn_wrapped cenv x = Some x' \<Longrightarrow> x_options x' = x_options x"
  by (auto simp: doread_step_def conn_dialed_def conn_wrapped_def Let_def
      split: conn_reader.splits if_splits sum.splits)

lemma x_options_conn_act: "conn_act cenv a x = Some x' \<Longrightarrow> x_options x' = x_options x"
  by (cases a) (auto simp: conn_act_def x_options_reader dispatchAsync_def conn_Dispatch_def
      IncrementID_def split: if_splits prod.splits)

lemma on_connE:
  assumes "on_conn f xb = Some xb'" obtains x where "f (xb_x xb) = Some x" "xb' = xb\<lparr>xb_x := x\<rparr>"
  using assms by (auto simp: on_conn_def)

lemma xb_x_dispatch [simp]: "xb_x (bolt_Dispatch env err cmd xb) = xb_x xb"
  by (auto simp: bolt_Dispatch_def cleanupPendingRequests_def dispatchRequest_def dispatchResponse_def
      bolt_getAndDelRequestContext_def Let_def split: option.split)

lemma bolt_act_options:
  assumes "bolt_act env cenv a xb = Some xb'" shows "x_options (xb_x xb') = x_options (xb_x xb)"
proof (cases a)
  case (Bolt_run now i)
  with assms show ?thesis
    by (cases "bphase xb i") (auto simp: bolt_act_def bolt_invoke_step_def bolt_number_def
        IncrementID_def bolt_addRequestContext_def bolt_delRequestContext_def bolt_finish_def Let_def
        split: if_splits option.splits list.splits)
next
  case (Bolt_sent i written)
  have "x_options x = x_options (xb_x xb)" if "Send enc written (xb_x xb) = (err, x)" for enc err x
    using x_options_simps(3) [of enc written "xb_x xb"] that by simp
  with assms Bolt_sent show ?thesis
    by (auto simp: bolt_act_def bolt_send_def Let_def split: if_splits option.splits prod.splits)
qed (use assms in \<open>auto simp: bolt_act_def bolt_DoTimeout_def bolt_DoCallbackTimeout_def bolt_timer_def
      bolt_decoded_def Invoke_step_def Let_def x_options_reader x_options_conn_act
      elim!: on_connE split: if_splits option.splits dispatching.splits\<close>)

lemma bolt_reach_blockmode: "bolt_reach env n xb \<Longrightarrow> co_blockmode (x_options (xb_x xb)) = False"
proof (induction rule: bolt_reach.induct)
  case (new cenv options xb)
  then obtain o' x where x: "NewClientConn cenv (polyfill_options o') = Inr x" "xb = bolt_new env x"
    by (auto simp: NewClientConnBOLT_def bolt_polyfill_def split: sum.splits)
  have m: "co_blockmode (x_options (WithClientConnMaxPendingCommands k y)) = co_blockmode (x_options y)"
    "co_blockmode (x_options (WithClientConnTimeout rt wt' it fl y)) = co_blockmode (x_options y)"
    "co_blockmode (x_options (WithClientConnDispatcher b y)) = co_blockmode (x_options y)"
    "co_blockmode (x_options (WithClientConnRedial b y)) = co_blockmode (x_options y)"
    "co_blockmode (x_options (WithClientConnConn c y)) = co_blockmode (x_options y)"
    "co_blockmode (x_options (conn_zero :: command client_conn)) = False"
    for k b c rt wt' it fl and y :: "command client_conn"
    by (simp_all add: WithClientConnMaxPendingCommands_def WithClientConnTimeout_def conn_zero_def
        WithClientConnDispatcher_def WithClientConnRedial_def WithClientConnConn_def)
  have "co_blockmode (x_options (fold (\<lambda>f. f) (polyfill_options o') conn_zero)) = False"
    by (cases "bo_conn o'") (simp_all add: polyfill_options_def m)
  with x show ?case
    by (auto simp: bolt_new_def NewClientConn_def conn_polyfill_def m Let_def
        split: if_splits option.splits sum.splits)
qed (simp add: bolt_act_options)

lemma fold_bictxs:
  "xb_ictxs (fold (\<lambda>(_, p). set_bictx p f) t xb) q =
     (f ^^ length (filter (\<lambda>(_, p). p = q) t)) (xb_ictxs xb q)"
  by (induction t arbitrary: xb) (auto simp: set_bictx_def funpow_swap1)

lemma fail_pending_simps:
  "ic_callback (fail_pending e x) = ic_callback x" "ic_res (fail_pending e x) = ic_res x"
  "ic_callback x \<Longrightarrow> ic_calls (fail_pending e x) = ic_calls x @ [(Some e, ic_res x)]"
  "\<not> ic_callback x \<Longrightarrow> ic_errCh x = Some [] \<Longrightarrow> ic_errCh (fail_pending e x) = Some [Some e]"
  "\<not> ic_callback x \<Longrightarrow> ic_errCh x = Some [Some e] \<Longrightarrow> ic_errCh (fail_pending e x) = Some [Some e]"
  by (simp_all add: fail_pending_def split: option.split)

lemma fail_pending_pow:
  assumes "k \<noteq> 0"
  shows "(ic_callback x \<longrightarrow> (Some e, ic_res x) \<in> set (ic_calls ((fail_pending e ^^ k) x))) \<and>
   (\<not> ic_callback x \<and> ic_errCh x = Some [] \<longrightarrow> ic_errCh ((fail_pending e ^^ k) x) = Some [Some e])"
  using assms
proof (induction k)
  case (Suc k)
  have keep: "ic_callback ((fail_pending e ^^ k) x) = ic_callback x"
    "ic_res ((fail_pending e ^^ k) x) = ic_res x"
    by (induction k) (simp_all add: fail_pending_simps)
  show ?case using Suc keep by (cases "k = 0") (auto simp: fail_pending_simps)
qed simp

text \<open>The example: one call, answered by a response with a header.\<close>

definition bolt_start :: "unit conn_bolt" where
  "bolt_start = bolt_new (demo_env False) (conn_zero\<lparr>x_conn := Some (Async_conn (Raw_conn 5)),
     x_options := \<lparr>co_idleTimeout = 0, co_readTimeout = 0, co_writeTimeout = 0,
       co_flushInterval = 0, co_blockmode = False, co_dialer = False, co_statusChanger = False,
       co_dispatcher = True, co_maxPendingCommands = 64\<rparr>\<rparr>)"

definition bolt_ask_run :: "unit bolt_action list" where
  "bolt_ask_run = [Bolt_reader, Bolt_do (ask 0) blank False None, Bolt_run 0 0, Bolt_run 0 0,
     Bolt_run 0 0, Bolt_sent 0 None]"

definition bolt_answer :: command where
  "bolt_answer = (answer 1)\<lparr>c_headers := sm_New\<lparr>sm_kvs := [([1], [2])]\<rparr>\<rparr>"

lemma bolt_start_reach: "bolt_reach (demo_env False) 0 bolt_start"
proof (rule bolt_reach.new)
  show "NewClientConnBOLT (demo_env False) demo_conn_env [WithClientConnBOLTConn (Some (Raw_conn 5)),
      WithClientConnBOLTMaxPendingCommands 64] = Inr bolt_start"
    by (simp add: NewClientConnBOLT_def bolt_polyfill_def bolt_options_zero_def
        WithClientConnBOLTConn_def WithClientConnBOLTMaxPendingCommands_def polyfill_options_def NewClientConn_def conn_polyfill_def
        conn_eval WithClientConnTimeout_def WithClientConnConn_def bolt_start_def
        WithClientConnMaxPendingCommands_def WithClientConnDispatcher_def)
qed

lemma bolt_run_reach:
  "bolt_run env cenv as xb = Some xb' \<Longrightarrow> bolt_reach env n xb \<Longrightarrow> bolt_reach env (n + length as) xb'"
proof (induction as arbitrary: n xb)
  case (Cons a as)
  then obtain xb1 where a: "bolt_act env cenv a xb = Some xb1" and r: "bolt_run env cenv as xb1 = Some xb'"
    by (cases "bolt_act env cenv a xb") auto
  from Cons.IH [OF r bolt_reach.act [OF Cons.prems(2) a]] show ?case by simp
qed simp

lemmas bolt_eval = bolt_act_def bolt_DoTimeout_def bolt_invoke_step_def bolt_number_def bolt_send_def
  bolt_addRequestContext_def bolt_delRequestContext_def bolt_getAndDelRequestContext_def
  bolt_Encode_def IncrementID_def Send_def conn_Write_def bolt_decoded_def bolt_Dispatch_def
  dispatchResponse_def Invoke_step_def bolt_finish_def on_conn_def bolt_new_def bolt_start_def
  write_ask ictx_new_def

lemma bolt_ask:
  "\<exists>xb. bolt_run (demo_env False) demo_conn_env bolt_ask_run bolt_start = Some xb \<and>
     bolt_reach (demo_env False) 6 xb \<and> xb_ncalls xb = 1 \<and> bphase xb 0 = B_waiting \<and>
     xb_requests xb = [(1, 0)] \<and> xb_disp xb = Idle_disp \<and> x_reader (xb_x xb) = Decoding \<and>
     \<not> ic_callback (xb_ictxs xb 0) \<and> ic_errCh (xb_ictxs xb 0) = Some [] \<and>
     bc_rid (xb_calls xb 0) = 1 \<and> bc_ictx (xb_calls xb 0) = 0 \<and>
     x_rconn (xb_x xb) = Async_conn (Raw_conn 5)"
proof -
  obtain xb where run: "bolt_run (demo_env False) demo_conn_env bolt_ask_run bolt_start = Some xb"
    and s: "xb_ncalls xb = 1 \<and> bphase xb 0 = B_waiting \<and>
     xb_requests xb = [(1, 0)] \<and> xb_disp xb = Idle_disp \<and> x_reader (xb_x xb) = Decoding \<and>
     \<not> ic_callback (xb_ictxs xb 0) \<and> ic_errCh (xb_ictxs xb 0) = Some [] \<and>
     bc_rid (xb_calls xb 0) = 1 \<and> bc_ictx (xb_calls xb 0) = 0 \<and>
     x_rconn (xb_x xb) = Async_conn (Raw_conn 5)"
    by (simp add: bolt_ask_run_def bolt_eval conn_eval set_bictx_def set_bcall_def add_bcall_def)
  have "bolt_reach (demo_env False) (0 + length bolt_ask_run) xb"
    by (rule bolt_run_reach [OF run bolt_start_reach])
  then have "bolt_reach (demo_env False) 6 xb" by (simp add: bolt_ask_run_def numeral_eq_Suc)
  with run s show ?thesis by blast
qed

text \<open>
  C10. Ids of a BOLT client connection never clash. Within the first 2^64 actions two calls never
  have the same id, so a call that is about to register never finds its id in the table and takes
  no other call's place; and every entry of the table belongs to one call, the one that got this id.
\<close>

theorem bolt_ids_unique:
  assumes "bolt_reach env n xb" and "n < 2 ^ 64"
  shows "(\<forall>i < xb_ncalls xb. bphase xb i = B_adding \<longrightarrow>
      map_of (xb_requests xb) (bc_rid (xb_calls xb i)) = None) \<and>
    (\<forall>rid p. map_of (xb_requests xb) rid = Some p \<longrightarrow>
      (\<exists>!i. i < xb_ncalls xb \<and> bc_rid (xb_calls xb i) = rid) \<and>
      (\<forall>i < xb_ncalls xb. bc_rid (xb_calls xb i) = rid \<longrightarrow> bc_ictx (xb_calls xb i) = p))"
proof (intro conjI allI impI)
  fix i assume i: "i < xb_ncalls xb" and ph: "bphase xb i = B_adding"
  show "map_of (xb_requests xb) (bc_rid (xb_calls xb i)) = None"
  proof (rule ccontr)
    assume "map_of (xb_requests xb) (bc_rid (xb_calls xb i)) \<noteq> None"
    then obtain p where "map_of (xb_requests xb) (bc_rid (xb_calls xb i)) = Some p" by auto
    from bolt_reachD(3) [OF assms this] bolt_reachD(1) [OF assms] i ph show False by metis
  qed
next
  fix rid p assume "map_of (xb_requests xb) rid = Some p"
  from bolt_reachD(3) [OF assms this] bolt_reachD(1) [OF assms]
  show "\<exists>!i. i < xb_ncalls xb \<and> bc_rid (xb_calls xb i) = rid" by metis
next
  fix rid p i assume "map_of (xb_requests xb) rid = Some p" and i: "i < xb_ncalls xb"
    "bc_rid (xb_calls xb i) = rid"
  from bolt_reachD(3) [OF assms this(1)] bolt_reachD(1) [OF assms] i
  show "bc_ictx (xb_calls xb i) = p" by metis
qed

lemma bolt_ids_unique_witness:
  "\<exists>xb. bolt_run (demo_env False) demo_conn_env bolt_ask_run bolt_start = Some xb \<and>
     map_of (xb_requests xb) 1 = Some 0 \<and>
     (\<exists>!i. i < xb_ncalls xb \<and> bc_rid (xb_calls xb i) = 1)"
proof -
  obtain xb where run: "bolt_run (demo_env False) demo_conn_env bolt_ask_run bolt_start = Some xb"
    and r: "bolt_reach (demo_env False) 6 xb" and t: "map_of (xb_requests xb) 1 = Some 0"
    using bolt_ask by auto
  from bolt_ids_unique [OF r] t have "\<exists>!i. i < xb_ncalls xb \<and> bc_rid (xb_calls xb i) = 1" by simp
  with run t show ?thesis by blast
qed



text \<open>
  C12. A failed connection. When decoding fails with anything but a read deadline, no request stays
  in the table, every context that was in it has the error to receive, or its callback has been
  called with it, and no other context changes; the client connection itself is not closed by
  this, so that the next call is not refused with \<open>ErrClientWasClosed\<close>.
\<close>

theorem bolt_failure_wakes:
  assumes "bolt_reach env n xb" and "xb_disp xb = Idle_disp" and "x_reader (xb_x xb) = Decoding"
    and "\<not> IsDeadlineError (xe_view cenv) (Some e)"
  shows "\<exists>xb'. bolt_act env cenv (Bolt_decodes cmd (Some e)) xb = Some xb' \<and> xb_requests xb' = [] \<and>
    x_closed (xb_x xb') = x_closed (xb_x xb) \<and>
    (\<forall>rid p. (rid, p) \<in> set (xb_requests xb) \<longrightarrow>
      (ic_callback (xb_ictxs xb p) \<longrightarrow>
         (Some e, ic_res (xb_ictxs xb p)) \<in> set (ic_calls (xb_ictxs xb' p))) \<and>
      (\<not> ic_callback (xb_ictxs xb p) \<and> ic_errCh (xb_ictxs xb p) = Some [] \<longrightarrow>
         ic_errCh (xb_ictxs xb' p) = Some [Some e])) \<and>
    (\<forall>p. p \<notin> snd ` set (xb_requests xb) \<longrightarrow> xb_ictxs xb' p = xb_ictxs xb p)"
proof -
  have "co_blockmode (x_options (xb_x xb)) = False" by (rule bolt_reach_blockmode [OF assms(1)])
  then have d: "x_dispatched (decode_returns cenv cmd (Some e) (xb_x xb)) \<noteq> x_dispatched (xb_x xb)"
    and cl: "x_closed (decode_returns cenv cmd (Some e) (xb_x xb)) = x_closed (xb_x xb)"
    using assms(4) by (simp_all add: decode_returns_def DoDispatch_def conn_Dispatch_def Let_def)
  define xb' where "xb' = cleanupPendingRequests e (xb\<lparr>xb_x := decode_returns cenv cmd (Some e) (xb_x xb)\<rparr>)"
  have "bolt_act env cenv (Bolt_decodes cmd (Some e)) xb = Some xb'"
    using assms(2,3) d by (simp add: bolt_act_def bolt_decoded_def bolt_Dispatch_def Let_def xb'_def)
  moreover have "xb_requests xb' = []" "x_closed (xb_x xb') = x_closed (xb_x xb)"
    by (simp_all add: xb'_def cleanupPendingRequests_def cl)
  moreover have X: "xb_ictxs xb' p = (fail_pending e ^^ length (filter (\<lambda>(_, q). q = p) (xb_requests xb)))
      (xb_ictxs xb p)" for p
    by (simp add: xb'_def cleanupPendingRequests_def fold_bictxs)
  moreover have "xb_ictxs xb' p = xb_ictxs xb p" if "p \<notin> snd ` set (xb_requests xb)" for p
  proof -
    have "filter (\<lambda>(_, q). q = p) (xb_requests xb) = []"
      using that by (force simp: filter_empty_conv)
    then show ?thesis by (simp add: X)
  qed
  moreover have "length (filter (\<lambda>(_, q). q = p) (xb_requests xb)) \<noteq> 0"
    if "(rid, p) \<in> set (xb_requests xb)" for rid p
    using that by (force simp: filter_empty_conv)
  then have "(ic_callback (xb_ictxs xb p) \<longrightarrow>
         (Some e, ic_res (xb_ictxs xb p)) \<in> set (ic_calls (xb_ictxs xb' p))) \<and>
      (\<not> ic_callback (xb_ictxs xb p) \<and> ic_errCh (xb_ictxs xb p) = Some [] \<longrightarrow>
         ic_errCh (xb_ictxs xb' p) = Some [Some e])" if "(rid, p) \<in> set (xb_requests xb)" for rid p
    unfolding X using fail_pending_pow [of "length (filter (\<lambda>(_, q). q = p) (xb_requests xb))"
        "xb_ictxs xb p" e] that by blast
  ultimately show ?thesis by (intro exI [of _ xb']) blast
qed

lemma bolt_failure_wakes_witness:
  "\<exists>xb xb'. bolt_run (demo_env False) demo_conn_env bolt_ask_run bolt_start = Some xb \<and>
     bolt_act (demo_env False) demo_conn_env (Bolt_decodes (answer 0) (Some ErrEOF)) xb = Some xb' \<and>
     xb_requests xb' = [] \<and> ic_errCh (xb_ictxs xb' 0) = Some [Some ErrEOF]"
proof -
  obtain xb where run: "bolt_run (demo_env False) demo_conn_env bolt_ask_run bolt_start = Some xb"
    and r: "bolt_reach (demo_env False) 6 xb" and s: "xb_requests xb = [(1, 0)]"
      "xb_disp xb = Idle_disp" "x_reader (xb_x xb) = Decoding" "\<not> ic_callback (xb_ictxs xb 0)"
      "ic_errCh (xb_ictxs xb 0) = Some []"
    using bolt_ask by auto
  have "\<not> IsDeadlineError (xe_view demo_conn_env) (Some ErrEOF)"
    by (simp add: IsDeadlineError_def demo_conn_env_def)
  from bolt_failure_wakes [OF r s(2,3) this, of "answer 0"] s(1,4,5) run show ?thesis by auto
qed

end
