(* ===== verification/Wrapped_Conn.thy ===== *)
theory Wrapped_Conn
  imports Codec
begin

text \<open>
  The connections of src/sofabolt/conn that wrap another one: delayconn, which reads or writes byte
  by byte or after a pause, metricconn, which counts, asyncwriteconn, which writes through a
  background writer, and errorconn, which answers every call with one error.

  A \<open>net.Conn\<close> is the record of its methods over a state \<open>'s\<close>, that of the world: the record
  \<open>net_ops\<close>; \<open>None\<close> is a panic, as a method call on a nil connection makes it. \<open>time.Sleep\<close> is a
  parameter \<open>sleep\<close>, and so is the background writer, which is not part of the repository. The
  methods that ask the wrapped connection for operating system handles come last.
\<close>

subsection \<open>Connections\<close>

type_synonym 's conn_read = "nat \<Rightarrow> 's \<Rightarrow> (bytes \<times> go_error option \<times> 's) option"
type_synonym 's conn_write = "bytes \<Rightarrow> 's \<Rightarrow> (nat \<times> go_error option \<times> 's) option"
type_synonym 's conn_call = "'s \<Rightarrow> (go_error option \<times> 's) option"

text \<open>\<open>nc_Read conn n\<close> is \<open>Read\<close> into a slice of length \<open>n\<close>; it returns the bytes it stored.\<close>

record 's net_ops =
  nc_Read :: "'s conn_read"
  nc_Write :: "'s conn_write"
  nc_Close :: "'s conn_call"
  nc_LocalAddr :: "'s \<Rightarrow> nat option"
  nc_RemoteAddr :: "'s \<Rightarrow> nat option"
  nc_SetDeadline :: "int \<Rightarrow> 's conn_call"
  nc_SetReadDeadline :: "int \<Rightarrow> 's conn_call"
  nc_SetWriteDeadline :: "int \<Rightarrow> 's conn_call"

definition nil_conn :: "'s net_ops" where
  "nil_conn = \<lparr>nc_Read = (\<lambda>n s. None), nc_Write = (\<lambda>b s. None), nc_Close = (\<lambda>s. None),
     nc_LocalAddr = (\<lambda>s. None), nc_RemoteAddr = (\<lambda>s. None), nc_SetDeadline = (\<lambda>t s. None),
     nc_SetReadDeadline = (\<lambda>t s. None), nc_SetWriteDeadline = (\<lambda>t s. None)\<rparr>"

subsection \<open>Byte by byte (delayconn)\<close>

text \<open>\<open>OneByteWriter\<close>, and \<open>iotest.OneByteReader\<close> of the standard library.\<close>

definition oneByteWriter_Write :: "'s conn_write \<Rightarrow> 's conn_write" where
  "oneByteWriter_Write w p s = (if length p = 0 then Some (0, None, s) else w (take 1 p) s)"

definition OneByteReader :: "'s conn_read \<Rightarrow> 's conn_read" where
  "OneByteReader r n s = (if n = 0 then Some ([], None, s) else r 1 s)"

text \<open>Each struct with its methods, over the fields of the struct; then its constructor.\<close>

definition OneByteWriteConn :: "'s conn_write \<Rightarrow> 's net_ops \<Rightarrow> 's net_ops" where
  "OneByteWriteConn w conn = \<lparr>
     nc_Read = nc_Read conn,
     nc_Write = w,
     nc_Close = nc_Close conn,
     nc_LocalAddr = nc_LocalAddr conn,
     nc_RemoteAddr = nc_RemoteAddr conn,
     nc_SetDeadline = nc_SetDeadline conn,
     nc_SetReadDeadline = nc_SetReadDeadline conn,
     nc_SetWriteDeadline = nc_SetWriteDeadline conn\<rparr>"

definition NewOneByteWriteConn :: "'s net_ops \<Rightarrow> 's net_ops" where
  "NewOneByteWriteConn conn = OneByteWriteConn (oneByteWriter_Write (nc_Write conn)) conn"

definition OneByteReadConn :: "'s conn_read \<Rightarrow> 's net_ops \<Rightarrow> 's net_ops" where
  "OneByteReadConn reader conn = \<lparr>
     nc_Read = reader,
     nc_Write = nc_Write conn,
     nc_Close = nc_Close conn,
     nc_LocalAddr = nc_LocalAddr conn,
     nc_RemoteAddr = nc_RemoteAddr conn,
     nc_SetDeadline = nc_SetDeadline conn,
     nc_SetReadDeadline = nc_SetReadDeadline conn,
     nc_SetWriteDeadline = nc_SetWriteDeadline conn\<rparr>"

text \<open>The constructor leaves the field \<open>conn\<close> nil.\<close>

definition NewOneByteReadConn :: "'s net_ops \<Rightarrow> 's net_ops" where
  "NewOneByteReadConn conn = OneByteReadConn (OneByteReader (nc_Read conn)) nil_conn"

subsection \<open>After a pause (delayconn)\<close>

definition pause :: "(int \<Rightarrow> 's \<Rightarrow> 's) \<Rightarrow> int \<Rightarrow> 's \<Rightarrow> 's" where
  "pause sleep delay s = (if delay > 0 then sleep delay s else s)"

definition ReadDelayConn :: "(int \<Rightarrow> 's \<Rightarrow> 's) \<Rightarrow> int \<Rightarrow> 's net_ops \<Rightarrow> 's net_ops" where
  "ReadDelayConn sleep delay conn = \<lparr>
     nc_Read = (\<lambda>n s. nc_Read conn n (pause sleep delay s)),
     nc_Write = nc_Write conn,
     nc_Close = nc_Close conn,
     nc_LocalAddr = nc_LocalAddr conn,
     nc_RemoteAddr = nc_RemoteAddr conn,
     nc_SetDeadline = nc_SetDeadline conn,
     nc_SetReadDeadline = nc_SetReadDeadline conn,
     nc_SetWriteDeadline = nc_SetWriteDeadline conn\<rparr>"

definition WriteDelayConn :: "(int \<Rightarrow> 's \<Rightarrow> 's) \<Rightarrow> int \<Rightarrow> 's net_ops \<Rightarrow> 's net_ops" where
  "WriteDelayConn sleep delay conn = \<lparr>
     nc_Read = nc_Read conn,
     nc_Write = (\<lambda>b s. nc_Write conn b (pause sleep delay s)),
     nc_Close = nc_Close conn,
     nc_LocalAddr = nc_LocalAddr conn,
     nc_RemoteAddr = nc_RemoteAddr conn,
     nc_SetDeadline = nc_SetDeadline conn,
     nc_SetReadDeadline = nc_SetReadDeadline conn,
     nc_SetWriteDeadline = nc_SetWriteDeadline conn\<rparr>"

definition DelayConn :: "(int \<Rightarrow> 's \<Rightarrow> 's) \<Rightarrow> int \<Rightarrow> 's net_ops \<Rightarrow> 's net_ops" where
  "DelayConn sleep delay conn = \<lparr>
     nc_Read = (\<lambda>n s. nc_Read conn n (pause sleep delay s)),
     nc_Write = (\<lambda>b s. nc_Write conn b (pause sleep delay s)),
     nc_Close = nc_Close conn,
     nc_LocalAddr = nc_LocalAddr conn,
     nc_RemoteAddr = nc_RemoteAddr conn,
     nc_SetDeadline = nc_SetDeadline conn,
     nc_SetReadDeadline = nc_SetReadDeadline conn,
     nc_SetWriteDeadline = nc_SetWriteDeadline conn\<rparr>"

text \<open>The loop of \<open>PerWriteDelayConn.Write\<close>; \<open>n\<close> bytes are written. An error returns the count of
  the last \<open>Write\<close> only.\<close>

fun per_write :: "(int \<Rightarrow> 's \<Rightarrow> 's) \<Rightarrow> int \<Rightarrow> 's conn_write \<Rightarrow> nat \<Rightarrow> 's conn_write" where
  "per_write sleep delay w n [] s = Some (n, None, s)"
| "per_write sleep delay w n (b # bs) s =
     (case w [b] (sleep delay s) of
        None \<Rightarrow> None
      | Some (nw, Some err, s) \<Rightarrow> Some (nw, Some err, s)
      | Some (nw, None, s) \<Rightarrow> per_write sleep delay w (n + nw) bs s)"

definition PerWriteDelayConn :: "(int \<Rightarrow> 's \<Rightarrow> 's) \<Rightarrow> int \<Rightarrow> 's net_ops \<Rightarrow> 's net_ops" where
  "PerWriteDelayConn sleep delay conn = \<lparr>
     nc_Read = nc_Read conn,
     nc_Write = (\<lambda>b s. if delay > 0 then per_write sleep delay (nc_Write conn) 0 b s
                      else nc_Write conn b s),
     nc_Close = nc_Close conn,
     nc_LocalAddr = nc_LocalAddr conn,
     nc_RemoteAddr = nc_RemoteAddr conn,
     nc_SetDeadline = nc_SetDeadline conn,
     nc_SetReadDeadline = nc_SetReadDeadline conn,
     nc_SetWriteDeadline = nc_SetWriteDeadline conn\<rparr>"

subsection \<open>Errors (errorconn)\<close>

text \<open>The address is the zero \<open>net.TCPAddr\<close>.\<close>

definition errorconn_New :: "go_error \<Rightarrow> 's net_ops" where
  "errorconn_New err = \<lparr>
     nc_Read = (\<lambda>n s. Some ([], Some err, s)),
     nc_Write = (\<lambda>b s. Some (0, Some err, s)),
     nc_Close = (\<lambda>s. Some (Some err, s)),
     nc_LocalAddr = (\<lambda>s. Some 0),
     nc_RemoteAddr = (\<lambda>s. Some 0),
     nc_SetDeadline = (\<lambda>t s. Some (Some err, s)),
     nc_SetReadDeadline = (\<lambda>t s. Some (Some err, s)),
     nc_SetWriteDeadline = (\<lambda>t s. Some (Some err, s))\<rparr>"

subsection \<open>Through a background writer (asyncwriteconn)\<close>

record 's async_writer =
  aw_Write :: "'s conn_write"
  aw_Close :: "'s conn_call"

definition async_Conn :: "'s async_writer \<Rightarrow> 's net_ops \<Rightarrow> 's net_ops" where
  "async_Conn writer conn = \<lparr>
     nc_Read = nc_Read conn,
     nc_Write = aw_Write writer,
     nc_Close = (\<lambda>s. case aw_Close writer s of None \<Rightarrow> None | Some (_, s) \<Rightarrow> nc_Close conn s),
     nc_LocalAddr = nc_LocalAddr conn,
     nc_RemoteAddr = nc_RemoteAddr conn,
     nc_SetDeadline = nc_SetDeadline conn,
     nc_SetReadDeadline = nc_SetReadDeadline conn,
     nc_SetWriteDeadline = nc_SetWriteDeadline conn\<rparr>"

text \<open>\<open>New\<close>: the setters change \<open>option\<close> and \<open>metrics\<close>, nil ones are replaced by fresh ones.\<close>

record ('p, 'm) async_fields =
  ac_option :: "'p option"
  ac_metrics :: "'m option"

definition async_WithOption :: "'p option \<Rightarrow> ('p, 'm) async_fields \<Rightarrow> ('p, 'm) async_fields" where
  "async_WithOption p c = c\<lparr>ac_option := p\<rparr>"

definition async_WithMetrics :: "'m option \<Rightarrow> ('p, 'm) async_fields \<Rightarrow> ('p, 'm) async_fields" where
  "async_WithMetrics m c = c\<lparr>ac_metrics := m\<rparr>"

definition async_polyfill :: "'p \<Rightarrow> 'm \<Rightarrow> ('p, 'm) async_fields \<Rightarrow> ('p, 'm) async_fields" where
  "async_polyfill newOption newMetrics c =
     (let c = (if ac_option c = None then c\<lparr>ac_option := Some newOption\<rparr> else c)
      in if ac_metrics c = None then c\<lparr>ac_metrics := Some newMetrics\<rparr> else c)"

definition async_New ::
  "('s net_ops \<Rightarrow> 'p \<Rightarrow> 'm \<Rightarrow> go_error + 's async_writer) \<Rightarrow> 'p \<Rightarrow> 'm \<Rightarrow> 's net_ops \<Rightarrow>
   (('p, 'm) async_fields \<Rightarrow> ('p, 'm) async_fields) list \<Rightarrow> go_error + 's net_ops" where
  "async_New asyncwriter_New newOption newMetrics conn options =
     (let c = fold (\<lambda>set c. set c) options \<lparr>ac_option = None, ac_metrics = None\<rparr>;
          c = async_polyfill newOption newMetrics c
      in case asyncwriter_New conn (the (ac_option c)) (the (ac_metrics c)) of
           Inl err \<Rightarrow> Inl err
         | Inr aw \<Rightarrow> Inr (async_Conn aw conn))"

subsection \<open>Counting (metricconn)\<close>

record conn_counters =
  freeConnections :: "64 word"
  reusedConnections :: "64 word"

definition AddFreeConnections :: "64 word \<Rightarrow> conn_counters \<Rightarrow> 64 word \<times> conn_counters" where
  "AddFreeConnections n g = (let v = freeConnections g + n in (v, g\<lparr>freeConnections := v\<rparr>))"

definition AddReusedConnections :: "64 word \<Rightarrow> conn_counters \<Rightarrow> 64 word \<times> conn_counters" where
  "AddReusedConnections n g = (let v = reusedConnections g + n in (v, g\<lparr>reusedConnections := v\<rparr>))"

record metric_conn =
  mc_lasted :: int
  mc_created :: int
  mc_used :: "64 word"

definition metricconn_New :: "int \<Rightarrow> metric_conn" where
  "metricconn_New now = \<lparr>mc_lasted = now, mc_created = now, mc_used = 1\<rparr>"

definition IncrUsed :: "int \<Rightarrow> metric_conn \<times> conn_counters \<Rightarrow> metric_conn \<times> conn_counters" where
  "IncrUsed now sg =
     (let (s, g) = sg; g = snd (AddReusedConnections 1 g)
      in (s\<lparr>mc_used := mc_used s + 1, mc_lasted := now\<rparr>, g))"

text \<open>Its methods as a connection only forward.\<close>

definition metric_Conn :: "'s net_ops \<Rightarrow> 's net_ops" where
  "metric_Conn conn = \<lparr>
     nc_Read = nc_Read conn,
     nc_Write = nc_Write conn,
     nc_Close = nc_Close conn,
     nc_LocalAddr = nc_LocalAddr conn,
     nc_RemoteAddr = nc_RemoteAddr conn,
     nc_SetDeadline = nc_SetDeadline conn,
     nc_SetReadDeadline = nc_SetReadDeadline conn,
     nc_SetWriteDeadline = nc_SetWriteDeadline conn\<rparr>"

subsection \<open>Reading through a wrapper\<close>

text \<open>\<open>io.ReadFull\<close> of the standard library, into a slice of length \<open>n\<close>.\<close>

partial_function (option) ReadFull ::
  "'s conn_read \<Rightarrow> nat \<Rightarrow> 's \<Rightarrow> (bytes \<times> go_error option \<times> 's) option" where
  "ReadFull read n s =
     (if n = 0 then Some ([], None, s)
      else case read n s of
        None \<Rightarrow> None
      | Some (d, Some err, s) \<Rightarrow>
          if n \<le> length d then Some (d, None, s)
          else Some (d, Some (if d \<noteq> [] \<and> err = ErrEOF then ErrUnexpectedEOF else err), s)
      | Some (d, None, s) \<Rightarrow>
          Option.bind (ReadFull read (n - length d) s) (\<lambda>(d', err, s).
            Some (d @ d', if d \<noteq> [] \<and> err = Some ErrEOF then Some ErrUnexpectedEOF else err, s)))"

text \<open>
  The functions of the package readhelper over a connection; they are used where \<open>ReadFull\<close> returns.
\<close>

definition full_read :: "'s conn_read \<Rightarrow> 's \<Rightarrow> nat \<Rightarrow> bytes \<Rightarrow> bytes \<times> go_error option \<times> 's" where
  "full_read read s n b =
     (case ReadFull read n s of
        Some (d, err, s) \<Rightarrow> (d @ drop (length d) b, err, s)
      | None \<Rightarrow> (b, Some (ErrOther 0), s))"

definition conn_helper :: "'s conn_read \<Rightarrow> 's read_helper" where
  "conn_helper read = \<lparr>
     rh_AllocToAtLeast = (\<lambda>b n. take n b @ replicate (n - length b) 0),
     rh_ReadToBytes = full_read read,
     rh_ReadUint8WithBytes = (\<lambda>s b. case full_read read s 1 b of (b, e, s) \<Rightarrow> (b ! 0, b, e, s)),
     rh_ReadBigEndianUint32WithBytes =
       (\<lambda>s b. case full_read read s 4 b of (b, e, s) \<Rightarrow> (u32_at 0 b, b, e, s))\<rparr>"

text \<open>
  What the package net promises of \<open>Read\<close>, with \<open>avail\<close> the bytes that are still to come: some of
  them, in order, at least one as long as there are any, and an error behind the last.
\<close>

locale conn_stream =
  fixes read :: "'s conn_read" and avail :: "'s \<Rightarrow> bytes"
  assumes read_some: "0 < n \<Longrightarrow> avail s \<noteq> [] \<Longrightarrow>
      \<exists>d s'. read n s = Some (d, None, s') \<and> d \<noteq> [] \<and> length d \<le> n \<and> avail s = d @ avail s'"
    and read_end: "0 < n \<Longrightarrow> avail s = [] \<Longrightarrow> \<exists>e s'. read n s = Some ([], Some e, s') \<and> avail s' = []"
begin

lemma ReadFull_ok:
  "n \<le> length (avail s) \<Longrightarrow>
   \<exists>s'. ReadFull read n s = Some (take n (avail s), None, s') \<and> avail s' = drop n (avail s)"
proof (induction n arbitrary: s rule: less_induct)
  case (less n)
  show ?case
  proof (cases "n = 0")
    case True
    then show ?thesis by (subst ReadFull.simps) simp
  next
    case False
    then have "avail s \<noteq> []" using less.prems by auto
    then obtain d s' where r: "read n s = Some (d, None, s')" and d: "d \<noteq> []" "length d \<le> n"
      and a: "avail s = d @ avail s'"
      using read_some False by blast
    have "n - length d < n" using d False by simp
    moreover have "n - length d \<le> length (avail s')" using less.prems a by simp
    ultimately obtain s'' where "ReadFull read (n - length d) s' = Some (take (n - length d) (avail s'), None, s'')"
      and "avail s'' = drop (n - length d) (avail s')"
      using less.IH by blast
    with r d a False show ?thesis by (subst ReadFull.simps) simp
  qed
qed

lemma ReadFull_short:
  "length (avail s) < n \<Longrightarrow> \<exists>d e s'. ReadFull read n s = Some (d, Some e, s')"
proof (induction n arbitrary: s rule: less_induct)
  case (less n)
  show ?case
  proof (cases "avail s = []")
    case True
    then obtain e s' where "read n s = Some ([], Some e, s')" using read_end [of n s] less.prems by auto
    with less.prems show ?thesis by (subst ReadFull.simps) simp
  next
    case False
    then obtain d s' where r: "read n s = Some (d, None, s')" and d: "d \<noteq> []" "length d \<le> n"
      and a: "avail s = d @ avail s'"
      using read_some [of n s] less.prems by (metis not_less_zero gr_zeroI)
    have "n - length d < n" "length (avail s') < n - length d" using d a less.prems by auto
    then obtain d' e s'' where "ReadFull read (n - length d) s' = Some (d', Some e, s'')"
      using less.IH by blast
    with r less.prems show ?thesis by (subst ReadFull.simps) auto
  qed
qed

lemma full_read_ok:
  "n \<le> length (avail s) \<Longrightarrow> \<exists>s'. full_read read s n b = (take n (avail s) @ drop n b, None, s') \<and>
     avail s' = drop n (avail s)"
  using ReadFull_ok [of n s] by (auto simp: full_read_def)

lemma full_read_short: "length (avail s) < n \<Longrightarrow> \<exists>b' e s'. full_read read s n b = (b', Some e, s')"
  using ReadFull_short [of s n] by (auto simp: full_read_def)

lemma conn_reader_contract: "reader_contract (conn_helper read) avail"
proof (unfold_locales, goal_cases)
  case (4 b s x d)
  then show ?case using full_read_ok [of 1 s b] by (cases b) (auto simp: conn_helper_def)
next
  case (5 b s)
  then show ?case using full_read_short [of s 1 b] by (auto simp: conn_helper_def)
next
  case (6 b s)
  then show ?case using full_read_ok [of 4 s b] by (auto simp: conn_helper_def u32_at_def)
next
  case (7 b s)
  then show ?case using full_read_short [of s 4 b] by (auto simp: conn_helper_def)
qed (auto simp: conn_helper_def full_read_ok full_read_short)

text \<open>Reading one byte at a time, or after a pause, keeps the promise.\<close>

lemma one_byte_stream: "conn_stream (OneByteReader read) avail"
proof
  fix n s assume "0 < (n :: nat)" "avail s \<noteq> []"
  then show "\<exists>d s'. OneByteReader read n s = Some (d, None, s') \<and> d \<noteq> [] \<and> length d \<le> n \<and>
      avail s = d @ avail s'"
    using read_some [of 1 s] by (fastforce simp: OneByteReader_def)
next
  fix n s assume "0 < (n :: nat)" "avail s = []"
  then show "\<exists>e s'. OneByteReader read n s = Some ([], Some e, s') \<and> avail s' = []"
    using read_end [of 1 s] by (simp add: OneByteReader_def)
qed

lemma pause_stream:
  assumes "\<And>t s. avail (sleep t s) = avail s"
  shows "conn_stream (\<lambda>n s. read n (pause sleep delay s)) avail"
proof -
  have p: "avail (pause sleep delay s) = avail s" for s by (simp add: pause_def assms)
  show ?thesis
  proof
    fix n s assume "0 < (n :: nat)" "avail s \<noteq> []"
    then show "\<exists>d s'. read n (pause sleep delay s) = Some (d, None, s') \<and> d \<noteq> [] \<and> length d \<le> n \<and>
        avail s = d @ avail s'"
      using read_some [of n "pause sleep delay s"] by (simp add: p)
  next
    fix n s assume "0 < (n :: nat)" "avail s = []"
    then show "\<exists>e s'. read n (pause sleep delay s) = Some ([], Some e, s') \<and> avail s' = []"
      using read_end [of n "pause sleep delay s"] by (simp add: p)
  qed
qed

end

subsection \<open>A connection\<close>

text \<open>
  A TCP connection: the pieces that are still to arrive, the bytes its peer has received, and how
  many more it takes before it fails. \<open>Read\<close> returns of the first piece what fits.
\<close>

record tcp =
  tcp_in :: "bytes list"
  tcp_out :: bytes
  tcp_room :: nat
  tcp_slept :: int

fun tcp_Read :: "tcp conn_read" where
  "tcp_Read n s =
     (case filter (\<lambda>p. p \<noteq> []) (tcp_in s) of
        [] \<Rightarrow> Some ([], Some ErrEOF, s\<lparr>tcp_in := []\<rparr>)
      | p # ps \<Rightarrow> Some (take n p, None, s\<lparr>tcp_in := drop n p # ps\<rparr>))"

definition tcp_Write :: "tcp conn_write" where
  "tcp_Write b s =
     (if length b \<le> tcp_room s
      then Some (length b, None, s\<lparr>tcp_out := tcp_out s @ b, tcp_room := tcp_room s - length b\<rparr>)
      else Some (tcp_room s, Some (ErrOther 7),
             s\<lparr>tcp_out := tcp_out s @ take (tcp_room s) b, tcp_room := 0\<rparr>))"

definition tcp_sleep :: "int \<Rightarrow> tcp \<Rightarrow> tcp" where
  "tcp_sleep t s = s\<lparr>tcp_slept := tcp_slept s + t\<rparr>"

definition tcp_Conn :: "tcp net_ops" where
  "tcp_Conn = nil_conn\<lparr>nc_Read := tcp_Read, nc_Write := tcp_Write, nc_Close := (\<lambda>s. Some (None, s))\<rparr>"

lemma concat_nonempty: "concat (filter (\<lambda>p. p \<noteq> []) ps) = concat ps"
  by (induction ps) auto

interpretation tcp: conn_stream tcp_Read "\<lambda>s. concat (tcp_in s)"
proof
  fix n :: nat and s :: tcp assume n: "0 < n" and a: "concat (tcp_in s) \<noteq> []"
  obtain p ps where f: "filter (\<lambda>p. p \<noteq> []) (tcp_in s) = p # ps"
    using a by (cases "filter (\<lambda>p. p \<noteq> []) (tcp_in s)") (auto simp: filter_empty_conv)
  have "p \<in> set (filter (\<lambda>p. p \<noteq> []) (tcp_in s))" by (simp add: f)
  then have "p \<noteq> []" by simp
  moreover have "concat (tcp_in s) = p @ concat ps" using f concat_nonempty [of "tcp_in s"] by simp
  ultimately show "\<exists>d s'. tcp_Read n s = Some (d, None, s') \<and> d \<noteq> [] \<and> length d \<le> n \<and>
      concat (tcp_in s) = d @ concat (tcp_in s')"
    using n by (auto simp: f)
next
  fix n :: nat and s :: tcp assume "0 < n" and a: "concat (tcp_in s) = []"
  have "filter (\<lambda>p. p \<noteq> []) (tcp_in s) = []" using a by (auto simp: filter_empty_conv)
  then show "\<exists>e s'. tcp_Read n s = Some ([], Some e, s') \<and> concat (tcp_in s') = []" by auto
qed

interpretation tcp_one_byte: conn_stream "OneByteReader tcp_Read" "\<lambda>s. concat (tcp_in s)"
  by (rule tcp.one_byte_stream)

subsection \<open>Writing through a wrapper\<close>

text \<open>
  \<open>OneByteWriteConn\<close> writes the first byte and reports no error, against the rule of \<open>io.Writer\<close>
  that a short write has one: what its caller sends in one call is cut off.
\<close>

lemma one_byte_write_truncates:
  "0 < tcp_room s \<Longrightarrow> nc_Write (NewOneByteWriteConn tcp_Conn) (b # bs) s =
     Some (1, None, s\<lparr>tcp_out := tcp_out s @ [b], tcp_room := tcp_room s - 1\<rparr>)"
  by (simp add: NewOneByteWriteConn_def OneByteWriteConn_def oneByteWriter_Write_def tcp_Conn_def
      tcp_Write_def)

text \<open>
  \<open>PerWriteDelayConn\<close> writes all bytes, one per call; when the connection fails in the middle, the
  count it returns is that of the last call, 0, not that of the bytes its peer received.
\<close>

lemma per_write_tcp:
  "\<exists>t. per_write tcp_sleep delay tcp_Write n bs s =
     (if length bs \<le> tcp_room s
      then Some (n + length bs, None, s\<lparr>tcp_out := tcp_out s @ bs,
             tcp_room := tcp_room s - length bs, tcp_slept := t\<rparr>)
      else Some (0, Some (ErrOther 7), s\<lparr>tcp_out := tcp_out s @ take (tcp_room s) bs,
             tcp_room := 0, tcp_slept := t\<rparr>))"
proof (induction bs arbitrary: n s)
  case Nil
  show ?case by (rule exI [of _ "tcp_slept s"]) simp
next
  case (Cons b bs)
  show ?case
  proof (cases "tcp_room s = 0")
    case True
    then show ?thesis
      by (intro exI [of _ "tcp_slept s + delay"]) (simp add: tcp_Write_def tcp_sleep_def)
  next
    case False
    let ?s = "s\<lparr>tcp_slept := tcp_slept s + delay, tcp_out := tcp_out s @ [b], tcp_room := tcp_room s - 1\<rparr>"
    have "per_write tcp_sleep delay tcp_Write n (b # bs) s =
        per_write tcp_sleep delay tcp_Write (n + 1) bs ?s"
      using False by (simp add: tcp_Write_def tcp_sleep_def)
    moreover obtain t where "per_write tcp_sleep delay tcp_Write (n + 1) bs ?s =
      (if length bs \<le> tcp_room ?s
       then Some (n + 1 + length bs, None, ?s\<lparr>tcp_out := tcp_out ?s @ bs,
              tcp_room := tcp_room ?s - length bs, tcp_slept := t\<rparr>)
       else Some (0, Some (ErrOther 7), ?s\<lparr>tcp_out := tcp_out ?s @ take (tcp_room ?s) bs,
              tcp_room := 0, tcp_slept := t\<rparr>))"
      using Cons.IH [of "n + 1" ?s] by blast
    ultimately show ?thesis using False by (intro exI [of _ t]) (cases "tcp_room s", auto)
  qed
qed

lemma per_write_miscounts:
  assumes "0 < delay" and "tcp_room s < length bs"
  shows "\<exists>s'. nc_Write (PerWriteDelayConn tcp_sleep delay tcp_Conn) bs s = Some (0, Some (ErrOther 7), s') \<and>
    tcp_out s' = tcp_out s @ take (tcp_room s) bs"
  using per_write_tcp [of delay 0 bs s] assms by (auto simp: PerWriteDelayConn_def tcp_Conn_def)

subsection \<open>Properties\<close>

text \<open>Any stack of the wrappers around a connection.\<close>

inductive wrapping :: "(int \<Rightarrow> 's \<Rightarrow> 's) \<Rightarrow> 's net_ops \<Rightarrow> 's net_ops \<Rightarrow> bool" for sleep conn where
  plain: "wrapping sleep conn conn"
| one_byte_write: "wrapping sleep conn w \<Longrightarrow> wrapping sleep conn (NewOneByteWriteConn w)"
| one_byte_read: "wrapping sleep conn w \<Longrightarrow> wrapping sleep conn (NewOneByteReadConn w)"
| read_delay: "wrapping sleep conn w \<Longrightarrow> wrapping sleep conn (ReadDelayConn sleep delay w)"
| write_delay: "wrapping sleep conn w \<Longrightarrow> wrapping sleep conn (WriteDelayConn sleep delay w)"
| delay: "wrapping sleep conn w \<Longrightarrow> wrapping sleep conn (DelayConn sleep delay w)"
| per_write: "wrapping sleep conn w \<Longrightarrow> wrapping sleep conn (PerWriteDelayConn sleep delay w)"
| async: "wrapping sleep conn w \<Longrightarrow> wrapping sleep conn (async_Conn writer w)"
| metric: "wrapping sleep conn w \<Longrightarrow> wrapping sleep conn (metric_Conn w)"

lemma wrapping_stream:
  assumes "wrapping sleep conn w" and "conn_stream (nc_Read conn) avail"
    and "\<And>t s. avail (sleep t s) = avail s"
  shows "conn_stream (nc_Read w) avail"
  using assms
proof (induction rule: wrapping.induct)
  case (one_byte_read w)
  then show ?case
    by (simp add: NewOneByteReadConn_def OneByteReadConn_def conn_stream.one_byte_stream)
qed (simp_all add: NewOneByteWriteConn_def OneByteWriteConn_def ReadDelayConn_def WriteDelayConn_def
      DelayConn_def PerWriteDelayConn_def async_Conn_def metric_Conn_def conn_stream.pause_stream)

lemma agrees_frame:
  "agrees avail r out \<Longrightarrow>
   (\<exists>s. r = Some (n, None, cmd, s) \<and> avail s = d) \<longleftrightarrow> out = Frame n cmd d"
  by (cases out) (auto simp: agrees_def)

lemma agrees_some: "agrees avail r out \<Longrightarrow> r \<noteq> None"
  by (cases out) (auto simp: agrees_def)

text \<open>
  C16. The wrappers do not change what is decoded. Through any stack of them, \<open>ReadCommand\<close> gives the
  command, the count and the rest of the stream it gives on the connection itself, and fails
  where it fails there; it does not panic, although \<open>NewOneByteReadConn\<close> leaves its connection nil.
\<close>

theorem wrapped_reads_equal:
  assumes "wrapping sleep conn w" and "conn_stream (nc_Read conn) avail"
    and "\<And>t s. avail (sleep t s) = avail s" and "length b32 = 32"
  shows "ReadCommand (conn_helper (nc_Read w)) b32 s c \<noteq> None \<and>
    ((\<exists>s'. ReadCommand (conn_helper (nc_Read w)) b32 s c = Some (n, None, cmd, s') \<and> avail s' = d) \<longleftrightarrow>
     (\<exists>s'. ReadCommand (conn_helper (nc_Read conn)) b32 s c = Some (n, None, cmd, s') \<and> avail s' = d))"
proof -
  have "conn_stream (nc_Read w) avail" by (rule wrapping_stream) (fact assms(1) assms(2) assms(3))+
  then have w: "agrees avail (ReadCommand (conn_helper (nc_Read w)) b32 s c) (parse_command c (avail s))"
    by (rule reader_contract.ReadCommand_agrees [OF conn_stream.conn_reader_contract assms(4)])
  have p: "agrees avail (ReadCommand (conn_helper (nc_Read conn)) b32 s c) (parse_command c (avail s))"
    by (rule reader_contract.ReadCommand_agrees [OF conn_stream.conn_reader_contract [OF assms(2)] assms(4)])
  show ?thesis unfolding agrees_frame [OF w] agrees_frame [OF p] using agrees_some [OF w] by simp
qed

definition demo_tcp :: tcp where
  "demo_tcp = \<lparr>tcp_in = [take 3 (frame_v1 (sample 1 1)), drop 3 (frame_v1 (sample 1 1))],
     tcp_out = [], tcp_room = 0, tcp_slept = 0\<rparr>"

lemma wrapped_reads_equal_witness:
  "\<exists>n s'. ReadCommand (conn_helper (nc_Read (ReadDelayConn tcp_sleep 5 (NewOneByteReadConn tcp_Conn))))
       (replicate 32 9) demo_tcp Command_zero =
     Some (n, None, recv_v1 (sample 1 1) Command_zero, s') \<and> concat (tcp_in s') = []"
proof -
  let ?avail = "\<lambda>s. concat (tcp_in s)" and ?c = "recv_v1 (sample 1 1) Command_zero"
  let ?w = "ReadDelayConn tcp_sleep 5 (NewOneByteReadConn tcp_Conn)"
  have w: "wrapping tcp_sleep tcp_Conn ?w" by (intro wrapping.intros)
  have r: "nc_Read tcp_Conn = tcp_Read" by (simp add: tcp_Conn_def)
  have st: "conn_stream (nc_Read tcp_Conn) ?avail" unfolding r by (rule tcp.conn_stream_axioms)
  have sl: "?avail (tcp_sleep t s) = ?avail s" for t s by (simp add: tcp_sleep_def)
  have h: "c_headers Command_zero = sm_Reset sm_New" by (simp add: Command_zero_def sm_New_Reset [symmetric])
  obtain n where "parse_command Command_zero (frame_v1 (sample 1 1) @ []) = Frame n ?c []"
    using parse_frame_v1 [OF sample_ok(1) h, of 1 1 "[]"] by simp
  then have "\<exists>s'. ReadCommand (conn_helper (nc_Read tcp_Conn)) (replicate 32 9) demo_tcp Command_zero =
      Some (n, None, ?c, s') \<and> ?avail s' = []"
    using reader_contract.read_frame [OF conn_stream.conn_reader_contract [OF st],
        of "replicate 32 9" demo_tcp "frame_v1 (sample 1 1)" "[]" Command_zero n ?c]
    by (simp add: demo_tcp_def)
  with wrapped_reads_equal [where sleep = tcp_sleep and conn = tcp_Conn and w = ?w and avail = ?avail
      and ?b32.0 = "replicate 32 9" and s = demo_tcp and c = Command_zero and n = n and cmd = ?c
      and d = "[]", OF w st sl]
  have "\<exists>s'. ReadCommand (conn_helper (nc_Read ?w)) (replicate 32 9) demo_tcp Command_zero =
      Some (n, None, ?c, s') \<and> ?avail s' = []" by simp
  then show ?thesis by blast
qed

subsection \<open>Handles of the operating system (metricconn, stateconn)\<close>

text \<open>
  A connection may have the methods \<open>File\<close>, \<open>SyscallConn\<close> and \<open>ConnectionState\<close> beside those of
  \<open>net.Conn\<close>; the record says which it has and what they return. The wrappers find them by a type
  assertion. \<open>metricconn.Conn\<close> has all three; \<open>stateconn.StateConn\<close> has two, and as it embeds the
  interface \<open>net.Conn\<close> it does not inherit the third.
\<close>

record ('f, 'h, 't) conn_handles =
  ch_File :: "(go_error + 'f) option"
  ch_SyscallConn :: "(go_error + 'h) option"
  ch_ConnectionState :: "'t option"

text \<open>The errors "not implement filer interface" and "not implement syscall.Conn interface".\<close>

definition ErrNoFiler :: go_error where "ErrNoFiler = ErrOther 2"

definition ErrNoSyscallConn :: go_error where "ErrNoSyscallConn = ErrOther 3"

definition metric_File :: "('f, 'h, 't) conn_handles \<Rightarrow> go_error + 'f" where
  "metric_File conn = (case ch_File conn of Some sf \<Rightarrow> sf | None \<Rightarrow> Inl ErrNoFiler)"

definition metric_SyscallConn :: "('f, 'h, 't) conn_handles \<Rightarrow> go_error + 'h" where
  "metric_SyscallConn conn = (case ch_SyscallConn conn of Some sf \<Rightarrow> sf | None \<Rightarrow> Inl ErrNoSyscallConn)"

definition metric_ConnectionState :: "'t \<Rightarrow> ('f, 'h, 't) conn_handles \<Rightarrow> 't" where
  "metric_ConnectionState dummy conn = (case ch_ConnectionState conn of Some ts \<Rightarrow> ts | None \<Rightarrow> dummy)"

definition metric_handles :: "'t \<Rightarrow> ('f, 'h, 't) conn_handles \<Rightarrow> ('f, 'h, 't) conn_handles" where
  "metric_handles dummy conn = \<lparr>ch_File = Some (metric_File conn),
     ch_SyscallConn = Some (metric_SyscallConn conn),
     ch_ConnectionState = Some (metric_ConnectionState dummy conn)\<rparr>"

definition state_File :: "('f, 'h, 't) conn_handles \<Rightarrow> go_error + 'f" where
  "state_File conn = (case ch_File conn of Some sf \<Rightarrow> sf | None \<Rightarrow> Inl ErrNoFiler)"

definition state_SyscallConn :: "('f, 'h, 't) conn_handles \<Rightarrow> go_error + 'h" where
  "state_SyscallConn conn = (case ch_SyscallConn conn of Some sf \<Rightarrow> sf | None \<Rightarrow> Inl ErrNoSyscallConn)"

definition state_handles :: "('f, 'h, 't) conn_handles \<Rightarrow> ('f, 'h, 't) conn_handles" where
  "state_handles conn = \<lparr>ch_File = Some (state_File conn), ch_SyscallConn = Some (state_SyscallConn conn),
     ch_ConnectionState = None\<rparr>"

text \<open>
  Through any stack of the two wrappers one gets the file and the raw connection of the innermost
  one, or the error of the wrapper next to it. The state of a TLS connection gets through
  \<open>metricconn\<close>, and is lost in a \<open>stateconn\<close>: above that one sees the zero value.
\<close>

lemma stacked_handles:
  fixes conn :: "('f, 'h, 't) conn_handles"
  shows "set wraps \<subseteq> {metric_handles dummy, state_handles} \<Longrightarrow> wraps \<noteq> [] \<Longrightarrow>
   ch_File (foldr (\<lambda>wrap. wrap) wraps conn) = Some (metric_File conn) \<and>
   ch_SyscallConn (foldr (\<lambda>wrap. wrap) wraps conn) = Some (metric_SyscallConn conn)"
proof (induction wraps)
  case (Cons wrap wraps)
  have "state_handles c = \<lparr>ch_File = Some (metric_File c), ch_SyscallConn = Some (metric_SyscallConn c),
      ch_ConnectionState = None\<rparr>" for c :: "('f, 'h, 't) conn_handles"
    by (simp add: state_handles_def state_File_def metric_File_def state_SyscallConn_def metric_SyscallConn_def)
  with Cons show ?case
    by (cases "wraps = []") (auto simp: metric_handles_def metric_File_def metric_SyscallConn_def)
qed simp

lemma stacked_tls:
  "metric_ConnectionState dummy (metric_handles dummy conn) = metric_ConnectionState dummy conn"
  "metric_ConnectionState dummy (state_handles conn) = dummy"
  by (simp_all add: metric_handles_def state_handles_def metric_ConnectionState_def)

end
