(* ===== verification/Conn_Frames.thy ===== *)
theory Conn_Frames
  imports Client_Bolt Wrapped_Conn
begin

text \<open>
  The read loop of a client connection (src/sofabolt/clinetconn.go) with the BOLT decoder
  (src/sofabolt/protocol/bolt): what reaches the dispatcher of the bytes that arrive.
\<close>

subsection \<open>The loop\<close>

text \<open>
  \<open>READLOOP\<close> of \<open>doread\<close> until it breaks, over a reader of the connection; each round is the action
  \<open>Decode_returns\<close> of the client connection with what the decoder returns.
\<close>

partial_function (option) conn_readloop ::
  "conn_env \<Rightarrow> 'r read_helper \<Rightarrow> bytes \<Rightarrow> 'r \<Rightarrow> command client_conn \<Rightarrow> ('r \<times> command client_conn) option"
  where
  "conn_readloop env rh b32 r x =
     (case bolt_Decode rh b32 r of
        None \<Rightarrow> None
      | Some (cmd, err, r) \<Rightarrow>
          let x = decode_returns env cmd err x
          in if x_reader x = Decoding then conn_readloop env rh b32 r x else Some (r, x))"

lemma decode_frame:
  assumes "reader_contract rh avail" and "length b32 = 32"
    and "wire_ok q" and "c_proto q \<in> {0, 1, 2}" and "c_typ q \<in> {0, 1, 2}"
    and "avail r = bolt_frame q @ rest"
  shows "\<exists>r'. bolt_Decode rh b32 r = Some (received q, None, r') \<and> avail r' = rest"
proof -
  have h: "c_headers Command_zero = sm_Reset sm_New" by (simp add: Command_zero_def sm_New_Reset [symmetric])
  show ?thesis
  proof (cases "c_proto q = ProtoBOLTV2")
    case True
    with reader_contract.read_frame [OF assms(1,2), of r "frame_v2 q" rest Command_zero]
      parse_frame_v2 [OF assms(3) h True assms(5), of rest] assms(6)
    show ?thesis by (auto simp: bolt_Decode_def bolt_frame_def received_def)
  next
    case False
    then have p: "c_proto q \<in> {0, 1}" using assms(4) by auto
    with False reader_contract.read_frame [OF assms(1,2), of r "frame_v1 q" rest Command_zero]
      parse_frame_v1 [OF assms(3) h p assms(5), of rest] assms(6)
    show ?thesis by (auto simp: bolt_Decode_def bolt_frame_def received_def)
  qed
qed

lemma decode_end:
  assumes "reader_contract rh avail" and "length b32 = 32" and "avail r = []"
  shows "\<exists>e c r'. bolt_Decode rh b32 r = Some (c, Some e, r')"
  using reader_contract.read_short_frame [OF assms(1,2), of Command_zero r] assms(3)
  by (fastforce simp: bolt_Decode_def parse_command_def)

text \<open>Each round is an action of the client connection.\<close>

lemma readloop_round:
  assumes "bolt_Decode rh b32 r = Some (cmd, err, r')" and "x_reader x = Decoding"
  shows "\<exists>x'. conn_act env (Decode_returns cmd err) x = Some x' \<and>
    conn_readloop env rh b32 r x =
      (if x_reader x' = Decoding then conn_readloop env rh b32 r' x' else Some (r', x'))"
  using assms by (subst conn_readloop.simps) (simp add: conn_act_def Let_def)

text \<open>The loop over a stream of frames.\<close>

lemma readloop_frames:
  assumes "reader_contract rh avail" and "length b32 = 32" and "x_reader x = Decoding"
    and "\<not> co_blockmode (x_options x)" and "\<And>e. \<not> IsDeadlineError (xe_view env) (Some e)"
    and "list_all (\<lambda>q. wire_ok q \<and> c_proto q \<in> {0, 1, 2} \<and> c_typ q \<in> {0, 1, 2}) qs"
    and "avail r = concat (map bolt_frame qs)"
  shows "\<exists>r' x' as e c. conn_readloop env rh b32 r x = Some (r', x') \<and> conn_run env as x = Some x' \<and>
    x_reader x' = Failed \<and>
    x_dispatched x' = x_dispatched x @ map (\<lambda>q. (None, received q)) qs @ [(Some e, c)]"
  using assms(3,4,6,7)
proof (induction qs arbitrary: r x)
  case Nil
  then obtain e c r' where d: "bolt_Decode rh b32 r = Some (c, Some e, r')"
    using decode_end [OF assms(1,2), of r] by auto
  from readloop_round [OF d Nil.prems(1), of env] obtain x' where
    a: "conn_act env (Decode_returns c (Some e)) x = Some x'"
    and l: "conn_readloop env rh b32 r x =
      (if x_reader x' = Decoding then conn_readloop env rh b32 r' x' else Some (r', x'))" by blast
  have x': "x_reader x' = Failed" "x_dispatched x' = x_dispatched x @ [(Some e, c)]"
    using a Nil.prems(1,2) assms(5) [of e]
    by (auto simp: conn_act_def decode_returns_def DoDispatch_def conn_Dispatch_def set_xreader_def Let_def)
  have "conn_run env [Decode_returns c (Some e)] x = Some x'" using a by simp
  with l x' show ?case by fastforce
next
  case (Cons q qs)
  have q: "wire_ok q" "c_proto q \<in> {0, 1, 2}" "c_typ q \<in> {0, 1, 2}" using Cons.prems(3) by simp_all
  from Cons.prems(4) have "avail r = bolt_frame q @ concat (map bolt_frame qs)" by simp
  then obtain r1 where d: "bolt_Decode rh b32 r = Some (received q, None, r1)"
    and av: "avail r1 = concat (map bolt_frame qs)"
    using decode_frame [OF assms(1,2) q] by blast
  from readloop_round [OF d Cons.prems(1), of env] obtain x1 where
    a: "conn_act env (Decode_returns (received q) None) x = Some x1"
    and l: "conn_readloop env rh b32 r x =
      (if x_reader x1 = Decoding then conn_readloop env rh b32 r1 x1 else Some (r1, x1))" by blast
  have x1: "x_reader x1 = Decoding" "\<not> co_blockmode (x_options x1)"
    "x_dispatched x1 = x_dispatched x @ [(None, received q)]"
    using a Cons.prems(1,2)
    by (auto simp: conn_act_def decode_returns_def DoDispatch_def conn_Dispatch_def Let_def)
  obtain r' x' as e c where IH: "conn_readloop env rh b32 r1 x1 = Some (r', x')"
    "conn_run env as x1 = Some x'" "x_reader x' = Failed"
    "x_dispatched x' = x_dispatched x1 @ map (\<lambda>q. (None, received q)) qs @ [(Some e, c)]"
    using Cons.IH [OF x1(1,2) _ av] Cons.prems(3) by auto
  have "conn_run env (Decode_returns (received q) None # as) x = Some x'" using a IH(2) by simp
  with l x1 IH show ?case
    by (intro exI [of _ r'] exI [of _ x'] exI [of _ "Decode_returns (received q) None # as"]
        exI [of _ e] exI [of _ c]) simp
qed

subsection \<open>Properties\<close>

text \<open>
  C14. From the stream to the dispatcher. On any conforming reader that delivers the frames of some
  requests and responses and then ends, and as long as no error is a read deadline, the read loop
  ends; it has handed to the dispatcher exactly the commands of these frames, in order and each
  once, and then one error; and it did so by actions of the client connection.
\<close>

theorem frames_dispatched:
  assumes "reader_contract rh avail" and "length b32 = 32" and "x_reader x = Decoding"
    and "\<not> co_blockmode (x_options x)" and "\<And>e. \<not> IsDeadlineError (xe_view env) (Some e)"
    and "list_all (\<lambda>q. wire_ok q \<and> c_proto q \<in> {0, 1, 2} \<and> c_typ q \<in> {0, 1, 2}) qs"
    and "avail r = concat (map bolt_frame qs)"
  shows "\<exists>r' x' as e c. conn_readloop env rh b32 r x = Some (r', x') \<and> conn_run env as x = Some x' \<and>
    x_reader x' = Failed \<and>
    x_dispatched x' = x_dispatched x @ map (\<lambda>q. (None, received q)) qs @ [(Some e, c)]"
  using assms by (rule readloop_frames)

definition reading_conn :: "command client_conn" where
  "reading_conn = xb_x bolt_start\<lparr>x_reader := Decoding\<rparr>"

definition plain_env :: conn_env where
  "plain_env = demo_conn_env\<lparr>xe_view := (\<lambda>_. \<lparr>ev_netError = False, ev_Timeout = False,
     ev_OpError = False, ev_Errno = False\<rparr>)\<rparr>"

lemma frames_dispatched_witness:
  "\<exists>r' x' e c. conn_readloop plain_env stream_helper (replicate 32 0)
       [bolt_frame (sample 1 1) @ bolt_frame (sample 2 0)] reading_conn = Some (r', x') \<and>
     x_dispatched x' = [(None, received (sample 1 1)), (None, received (sample 2 0)), (Some e, c)]"
  using frames_dispatched [OF stream.reader_contract_axioms, of "replicate 32 0" reading_conn plain_env
      "[sample 1 1, sample 2 0]" "[bolt_frame (sample 1 1) @ bolt_frame (sample 2 0)]"]
  by (auto simp: reading_conn_def bolt_start_def bolt_new_def conn_zero_def plain_env_def
      IsDeadlineError_def sample_ok)

subsection \<open>A read deadline inside a frame\<close>

text \<open>
  A connection whose pieces may be late: \<open>None\<close> is a \<open>Read\<close> that ran into its deadline.
\<close>

fun late_Read :: "bytes option list conn_read" where
  "late_Read n [] = Some ([], Some ErrEOF, [])"
| "late_Read n (None # ps) = Some ([], Some (ErrOther 9), ps)"
| "late_Read n (Some p # ps) =
     (if p = [] then late_Read n ps
      else Some (take n p, None, if length p \<le> n then ps else Some (drop n p) # ps))"

definition late_request :: command where
  "late_request = Command_zero\<lparr>c_proto := ProtoBOLTV1, c_typ := TypeBOLTRequest,
     c_cmdcode := CMDCodeBOLTRequest, c_rid := 5, c_codec := 1, c_content := [9]\<rparr>"

definition late_rest :: bytes where
  "late_rest = [1, 0, 1, 0, 0, 0, 0, 5, 1, 0, 0, 0, 0, 0, 0, 0, 0, 0, 0, 0, 1, 9]"

lemma late_frame: "frame_v1 late_request = 1 # late_rest"
  by (simp add: late_rest_def late_request_def frame_v1_def frame_lens_def frame_body_def be16_def
      be32_def is_req_typ_def Command_zero_def)

lemma late_full_read:
  "full_read late_Read s 0 b = (b, None, s)"
  "0 < n \<Longrightarrow> n \<le> length p \<Longrightarrow> full_read late_Read (Some p # ps) n b =
     (take n p @ drop n b, None, if length p \<le> n then ps else Some (drop n p) # ps)"
  "0 < n \<Longrightarrow> full_read late_Read (None # ps) n b = (b, Some (ErrOther 9), ps)"
proof -
  have z: "ReadFull late_Read 0 t = Some ([], None, t)" for t by (subst ReadFull.simps) simp
  show "full_read late_Read s 0 b = (b, None, s)" by (simp add: full_read_def z)
  show "full_read late_Read (None # ps) n b = (b, Some (ErrOther 9), ps)" if "0 < n"
    using that by (subst full_read_def, subst ReadFull.simps) simp
  assume n: "0 < n" "n \<le> length p"
  then have "p \<noteq> []" by auto
  with n have "ReadFull late_Read n (Some p # ps) =
      Some (take n p, None, if length p \<le> n then ps else Some (drop n p) # ps)"
    by (subst ReadFull.simps) (auto simp: z min_def)
  with n show "full_read late_Read (Some p # ps) n b =
      (take n p @ drop n b, None, if length p \<le> n then ps else Some (drop n p) # ps)"
    by (simp add: full_read_def min_def)
qed

lemmas late_eval = bolt_Decode_def ReadCommand_def readCommandBOLTV1_def
  readResponseCommandBOLTV1_def read_body_def read_part_def conn_helper_def late_full_read
  u16_at_def u32_at_def dec16_def dec32_def Command_zero_def Let_def

lemma late_decode_1: "\<exists>c. bolt_Decode (conn_helper late_Read) (replicate 32 0) [Some [1], None, Some p] =
    Some (c, Some (ErrOther 9), [Some p])"
  by (simp add: late_eval)

lemma late_decode_2: "\<exists>c. bolt_Decode (conn_helper late_Read) (replicate 32 0) [Some (late_rest)] =
    Some (c, None, [Some [1, 9]]) \<and> c_typ c = TypeBOLTResponse \<and> c_rid c = 1281"
  by (simp add: late_eval late_rest_def sm_Decode_def sm_decode_loop.simps)

lemma late_decode_3: "\<exists>c. bolt_Decode (conn_helper late_Read) (replicate 32 0) [Some [1, 9]] =
    Some (c, Some ErrMalformedType, [])"
  by (simp add: late_eval)


end
