(* ===== verification/State_Conn.thy ===== *)
theory State_Conn
  imports Bolt_Prelude
begin

text \<open>
  src/sofabolt/conn/stateconn: a connection that remembers when it was last used and in which
  state it is, both packed into one 64-bit integer that is loaded and stored atomically, and
  closes the connection it wraps once.

  The wrapped connection is represented by the number of times it was closed; what its operations
  return is passed through. The time \<open>now\<close> is an argument of every operation that reads the clock
  (seconds since the epoch).
\<close>

abbreviation StateNew :: byte where "StateNew \<equiv> 0"
abbreviation StateActive :: byte where "StateActive \<equiv> 1"
abbreviation StateIdle :: byte where "StateIdle \<equiv> 2"
abbreviation StateHijacked :: byte where "StateHijacked \<equiv> 3"
abbreviation StateClosed :: byte where "StateClosed \<equiv> 4"

definition packState :: "int \<Rightarrow> byte \<Rightarrow> 64 word" where
  "packState now st = push_bit 8 (word_of_int now) OR ucast st"

definition unpackState :: "64 word \<Rightarrow> int \<times> byte" where
  "unpackState i64 = (sint (signed_drop_bit 8 i64), ucast (i64 AND 0xFF))"

definition State_String :: "byte \<Rightarrow> string" where
  "State_String s =
     (if s = StateNew then ''new'' else if s = StateActive then ''active''
      else if s = StateIdle then ''idle'' else if s = StateClosed then ''closed''
      else if s = StateHijacked then ''hijacked'' else ''unknown state'')"

record state_conn =
  sc_state :: "64 word"
  sc_conn :: nat
  sc_closes :: nat

definition SetState :: "int \<Rightarrow> byte \<Rightarrow> state_conn \<Rightarrow> state_conn" where
  "SetState now st s = s\<lparr>sc_state := packState now st\<rparr>"

definition GetState :: "state_conn \<Rightarrow> int \<times> byte" where
  "GetState s = unpackState (sc_state s)"

definition AcquireConn :: "int \<Rightarrow> nat \<Rightarrow> state_conn" where
  "AcquireConn now conn = \<lparr>sc_state = packState now StateNew, sc_conn = conn, sc_closes = 0\<rparr>"

text \<open>\<open>Read\<close> and \<open>Write\<close> mark the connection active before they use the wrapped one.\<close>

definition sc_Read :: "int \<Rightarrow> state_conn \<Rightarrow> state_conn" where
  "sc_Read now s = SetState now StateActive s"

definition sc_Write :: "int \<Rightarrow> state_conn \<Rightarrow> state_conn" where
  "sc_Write now s = SetState now StateActive s"

definition sc_Close :: "int \<Rightarrow> state_conn \<Rightarrow> state_conn" where
  "sc_Close now s =
     (if snd (GetState s) \<noteq> StateClosed
      then (SetState now StateClosed s)\<lparr>sc_closes := sc_closes s + 1\<rparr> else s)"

lemma sint_pack:
  fixes st :: byte
  assumes "- (2 ^ 55) \<le> now" and "now < 2 ^ 55"
  shows "sint (packState now st) = now * 256 + uint st"
proof -
  have lt: "uint st < 256" using uint_lt2p [of st] by simp
  have "packState now st = word_of_int (push_bit 8 now OR uint st)"
    unfolding packState_def by (rule bit_word_eqI) (auto simp: bit_simps)
  also have "push_bit 8 now OR uint st = push_bit 8 now + uint st"
    by (rule disjunctive_add [symmetric]) (auto simp: bit_simps dest: bit_imp_le_length)
  finally have p: "packState now st = word_of_int (now * 256 + uint st)"
    by (simp add: push_bit_eq_mult)
  have "signed_take_bit 63 (now * 256 + uint st) = now * 256 + uint st"
  proof (rule signed_take_bit_int_eq_self)
    have ge: "0 \<le> uint st" by simp
    have "- 36028797018963968 \<le> now" and "now < 36028797018963968" using assms by simp_all
    then have "- 9223372036854775808 \<le> now * 256 + uint st"
      and "now * 256 + uint st < 9223372036854775808" using ge lt by linarith+
    then show "- (2 ^ 63) \<le> now * 256 + uint st" and "now * 256 + uint st < 2 ^ 63"
      by simp_all
  qed
  then show ?thesis unfolding p sint_sbintrunc' by simp
qed

text \<open>Unpacking gives back what was packed, for every time within the range of 56 bits.\<close>

lemma unpack_pack:
  assumes "- (2 ^ 55) \<le> now" and "now < 2 ^ 55"
  shows "unpackState (packState now st) = (now, st)"
proof -
  have lt: "uint st < 256" using uint_lt2p [of st] by simp
  have "sint (signed_drop_bit 8 (packState now st)) = (now * 256 + uint st) div 256"
    using sint_pack [OF assms] by (simp add: sint_signed_drop_bit_eq drop_bit_eq_div)
  also have "\<dots> = now" using lt by simp
  finally have t: "sint (signed_drop_bit 8 (packState now st)) = now" .
  have "ucast (packState now st AND 0xFF) = st"
  proof (rule bit_word_eqI)
    fix n assume n: "n < LENGTH(8)"
    have "bit (0xFF :: 64 word) n"
      using n by (auto simp: less_Suc_eq numeral_eq_Suc bit_Suc)
    with n show "bit (ucast (packState now st AND 0xFF) :: byte) n = bit st n"
      by (simp add: packState_def bit_simps)
  qed
  with t show ?thesis by (simp add: unpackState_def)
qed

lemma GetState_SetState:
  "- (2 ^ 55) \<le> now \<Longrightarrow> now < 2 ^ 55 \<Longrightarrow> GetState (SetState now st s) = (now, st)"
  by (simp add: GetState_def SetState_def unpack_pack)

subsection \<open>Properties\<close>

definition epoch_time :: "int \<Rightarrow> bool" where
  "epoch_time t \<longleftrightarrow> 0 \<le> t \<and> t < 2 ^ 55"

text \<open>
  The packed state: after \<open>SetState\<close> at any time within 56 bits, \<open>GetState\<close> returns exactly that
  time and state, also for times before the epoch.
\<close>

theorem state_roundtrip:
  assumes "- (2 ^ 55) \<le> now" and "now < 2 ^ 55"
  shows "GetState (SetState now st s) = (now, st)"
  by (rule GetState_SetState [OF assms])

lemma state_roundtrip_witness:
  "GetState (SetState (- 5) StateIdle (AcquireConn 7 0)) = (- 5, StateIdle)"
  by (rule state_roundtrip) simp_all

text \<open>
  Closing once: any number of calls of \<open>Close\<close> in a row close the wrapped connection once;
  but a \<open>Read\<close> or \<open>Write\<close> after \<open>Close\<close>, which fails on the closed connection, marks it active
  again, and the next \<open>Close\<close> closes the wrapped connection a second time.
\<close>

theorem close_once:
  assumes "list_all epoch_time (t # u # r # ts)"
  shows "sc_closes (fold sc_Close (t # ts) (AcquireConn t c)) = 1 \<and>
    sc_closes (sc_Close r (sc_Read u (sc_Close t (AcquireConn t c)))) = 2"
proof -
  have new: "snd (GetState (AcquireConn t c)) = StateNew"
    using assms by (simp add: GetState_def AcquireConn_def unpack_pack epoch_time_def)
  let ?s = "sc_Close t (AcquireConn t c)"
  have s: "?s = (SetState t StateClosed (AcquireConn t c))\<lparr>sc_closes := 1\<rparr>"
    using new by (simp add: sc_Close_def AcquireConn_def)
  then have cl: "snd (GetState ?s) = StateClosed" and n: "sc_closes ?s = 1"
    using assms by (simp_all add: GetState_def SetState_def unpack_pack epoch_time_def)
  have "fold sc_Close ts ?s = ?s" using cl by (induction ts) (simp_all add: sc_Close_def)
  moreover have "snd (GetState (sc_Read u ?s)) = StateActive"
    using assms by (simp add: sc_Read_def GetState_SetState epoch_time_def)
  ultimately show ?thesis using n by (simp add: sc_Close_def sc_Read_def SetState_def)
qed

lemma close_once_witness:
  "sc_closes (fold sc_Close [3, 4] (AcquireConn 3 0)) = 1 \<and>
   sc_closes (sc_Close 5 (sc_Read 4 (sc_Close 3 (AcquireConn 3 0)))) = 2"
  using close_once [of 3 4 5 "[4]" 0] by (simp add: epoch_time_def)

end
