(* ===== verification/Server_Life.thy ===== *)
theory Server_Life
  imports Server State_Conn
begin

text \<open>
  The life of the server's listeners and connections in src/sofabolt/server.go: the accept loop
  with its back-off, the bracket around the serving of a connection, and \<open>Shutdown\<close>.

  The server's tables are Go maps: here lists, in the order in which \<open>range\<close> happens to visit
  them. Times are seconds for the connection states, nanoseconds for the back-off.
\<close>

subsection \<open>Accepting\<close>

text \<open>What \<open>ln.Accept\<close> returns: a connection, a temporary network error, or another error.\<close>

datatype accepted = Conn nat | Temporary go_error | Fatal go_error

text \<open>What the loop does, besides accepting: events, sleeps and connections handed to a worker.\<close>

datatype accept_action =
    TemporaryAcceptEvent go_error
  | Sleep int
  | Served nat
  | WorkerPoolOverflowEvent nat

definition next_delay :: "int \<Rightarrow> int" where
  "next_delay delay =
     (let delay = (if delay = 0 then 5000000 else delay * 2)
      in if delay > 1000000000 then 1000000000 else delay)"

text \<open>
  \<open>Serve\<close> over the results \<open>Accept\<close> will return: the actions, and the error that ended the loop if
  one did. \<open>pool n\<close> is the answer of the worker pool.
\<close>

fun Serve :: "(nat \<Rightarrow> bool) \<Rightarrow> int \<Rightarrow> accepted list \<Rightarrow> accept_action list \<times> go_error option" where
  "Serve pool delay [] = ([], None)"
| "Serve pool delay (Temporary e # as) =
     (let delay = next_delay delay; (acts, err) = Serve pool delay as
      in (TemporaryAcceptEvent e # Sleep delay # acts, err))"
| "Serve pool delay (Fatal e # as) = ([], Some e)"
| "Serve pool delay (Conn c # as) =
     (let (acts, err) = Serve pool delay as
      in ((if pool c then [Served c] else [WorkerPoolOverflowEvent c]) @ acts, err))"

subsection \<open>Serving a connection\<close>

datatype conn_event = ServerConnHijackedEvent | ServerConnErrorEvent go_error

record server_tables =
  srv_conns :: "state_conn list"
  srv_listeners :: "nat list"
  srv_metrics :: server_metrics

definition addConn :: "state_conn \<Rightarrow> server_tables \<Rightarrow> server_tables" where
  "addConn c srv = srv\<lparr>srv_conns := srv_conns srv @ [c]\<rparr>"

definition delConn :: "nat \<Rightarrow> server_tables \<Rightarrow> server_tables" where
  "delConn i srv = srv\<lparr>srv_conns := filter (\<lambda>c. sc_conn c \<noteq> i) (srv_conns srv)\<rparr>"

definition addListener :: "nat \<Rightarrow> server_tables \<Rightarrow> server_tables" where
  "addListener ln srv = srv\<lparr>srv_listeners := List.insert ln (srv_listeners srv)\<rparr>"

definition delListener :: "nat \<Rightarrow> server_tables \<Rightarrow> server_tables" where
  "delListener ln srv = srv\<lparr>srv_listeners := removeAll ln (srv_listeners srv)\<rparr>"

text \<open>
  \<open>Serve\<close> with its bracket: the listener is in the table while the loop runs; \<open>during\<close> is what
  happens to the tables meanwhile.
\<close>

definition Serve_on ::
  "nat \<Rightarrow> (nat \<Rightarrow> bool) \<Rightarrow> (server_tables \<Rightarrow> server_tables) \<Rightarrow> accepted list \<Rightarrow> server_tables \<Rightarrow>
   accept_action list \<times> go_error option \<times> server_tables" where
  "Serve_on ln pool during as srv =
     (let srv = during (addListener ln srv); (acts, err) = Serve pool 0 as
      in (acts, err, delListener ln srv))"

lemma Serve_on_listeners:
  assumes "\<And>srv. set (srv_listeners (during srv)) - {ln} = set (srv_listeners srv) - {ln}"
  shows "set (srv_listeners (snd (snd (Serve_on ln pool during as srv)))) = set (srv_listeners srv) - {ln}"
  using assms [of "addListener ln srv"]
  by (auto simp: Serve_on_def addListener_def delListener_def Let_def split: prod.split)

text \<open>
  \<open>ServeConn\<close>: \<open>during\<close> is what happens to the tables while the connection is served, \<open>hijacked\<close> and
  \<open>err\<close> what \<open>serveConn\<close> returned. The result says what was reported and whether the connection was
  closed here.
\<close>

definition ServeConn ::
  "int \<Rightarrow> nat \<Rightarrow> (server_tables \<Rightarrow> server_tables) \<Rightarrow> bool \<Rightarrow> go_error option \<Rightarrow> server_tables \<Rightarrow>
   conn_event list \<times> bool \<times> server_tables" where
  "ServeConn now conn during hijacked err srv =
     (let srv = srv\<lparr>srv_metrics := addPendingConnections 1 (addConnections 1 (srv_metrics srv))\<rparr>;
          srv = during (addConn (AcquireConn now conn) srv);
          events = (if hijacked then [ServerConnHijackedEvent]
                    else case err of
                           None \<Rightarrow> []
                         | Some e \<Rightarrow> if e \<noteq> ErrEOF then [ServerConnErrorEvent e] else []);
          srv = delConn conn srv;
          m = srv_metrics srv
      in (events, \<not> hijacked,
          srv\<lparr>srv_metrics := m\<lparr>met_pendingconnections := met_pendingconnections m - 1\<rparr>\<rparr>))"

subsection \<open>Shutdown\<close>

definition defaultConnIdleThreshold :: int where
  "defaultConnIdleThreshold = 5"

text \<open>
  The decision for one connection when not forced: kept, or closed. A new connection that is
  older than the threshold counts as idle.
\<close>

definition conn_kept :: "int \<Rightarrow> state_conn \<Rightarrow> bool" where
  "conn_kept now c =
     (let (lasted, st) = GetState c;
          st = (if st = StateNew \<and> lasted < now - defaultConnIdleThreshold then StateIdle else st)
      in st \<noteq> StateIdle \<and> lasted < now - defaultConnIdleThreshold)"

text \<open>
  \<open>closeConns\<close>: whether some connection lived, the table afterwards, and the connections closed.
\<close>

fun closeConns ::
  "bool \<Rightarrow> int \<Rightarrow> state_conn list \<Rightarrow> bool \<times> state_conn list \<times> state_conn list" where
  "closeConns force now [] = (False, [], [])"
| "closeConns force now (c # cs) =
     (let (lived, kept, closed) = closeConns force now cs
      in if \<not> force \<and> conn_kept now c then (True, c # kept, closed)
         else (lived, kept, c # closed))"

text \<open>\<open>closeListeners\<close>, with the error that closing each listener returns.\<close>

fun closeListeners ::
  "go_error option \<Rightarrow> (nat \<times> go_error option) list \<Rightarrow> go_error option \<times> nat list" where
  "closeListeners err [] = (err, [])"
| "closeListeners err ((ln, cerr) # lns) =
     (if cerr \<noteq> None \<and> err = None
      then let (err', kept) = closeListeners cerr lns in (err', ln # kept)
      else closeListeners err lns)"

text \<open>
  \<open>Shutdown\<close>: the polls before the context is done, each with its time and the table it finds, and
  the poll after.
\<close>

fun shutdown_polls ::
  "(int \<times> state_conn list) list \<Rightarrow> int \<times> state_conn list \<Rightarrow> go_error \<Rightarrow> go_error option" where
  "shutdown_polls [] (now, cs) ctxerr = (if fst (closeConns True now cs) then None else Some ctxerr)"
| "shutdown_polls ((now, cs) # ps) fin ctxerr =
     (if fst (closeConns False now cs) then None else shutdown_polls ps fin ctxerr)"

definition Shutdown ::
  "(nat \<times> go_error option) list \<Rightarrow> (int \<times> state_conn list) list \<Rightarrow> int \<times> state_conn list \<Rightarrow>
   go_error \<Rightarrow> go_error option" where
  "Shutdown lns ps fin ctxerr =
     (case fst (closeListeners None lns) of
        Some e \<Rightarrow> Some e
      | None \<Rightarrow> shutdown_polls ps fin ctxerr)"

subsection \<open>Properties\<close>

lemma next_delay_pow:
  "next_delay (if k = 0 then 0 else min (5000000 * 2 ^ (k - 1)) 1000000000) =
     min (5000000 * 2 ^ k) 1000000000"
  by (cases k) (auto simp: next_delay_def Let_def min_def)

fun slept :: "accept_action list \<Rightarrow> int list" where
  "slept [] = []"
| "slept (Sleep d # as) = d # slept as"
| "slept (a # as) = slept as"

fun temporaries :: "accepted list \<Rightarrow> nat" where
  "temporaries [] = 0"
| "temporaries (Temporary e # as) = temporaries as + 1"
| "temporaries (Fatal e # as) = 0"
| "temporaries (Conn c # as) = temporaries as"

lemma Serve_slept:
  "slept (fst (Serve pool (if k = 0 then 0 else min (5000000 * 2 ^ (k - 1)) 1000000000) as)) =
     map (\<lambda>i. min (5000000 * 2 ^ (k + i)) 1000000000) [0..<temporaries as]"
proof (induction "as" arbitrary: k)
  case (Cons a as)
  show ?case
  proof (cases a)
    case (Temporary e)
    have upt: "[0..<Suc n] = 0 # map Suc [0..<n]" for n by (simp add: upt_conv_Cons map_Suc_upt)
    from Cons.IH [of "Suc k"] Temporary show ?thesis
      unfolding Temporary temporaries.simps Serve.simps Let_def next_delay_pow
      by (auto simp: upt o_def split: prod.split simp del: upt_Suc)
  next
    case (Conn c)
    with Cons.IH [of k] show ?thesis by (auto simp: Let_def split: prod.split)
  qed simp
qed simp

text \<open>
  Back-off of the accept loop: the sleeps are 5 ms, doubled at each temporary error up to one
  second, whatever the mixture of errors and connections accepted in between; a successful
  \<open>Accept\<close> never resets the delay.
\<close>

theorem accept_backoff:
  "slept (fst (Serve pool 0 as)) =
     map (\<lambda>i. min (5000000 * 2 ^ i) 1000000000) [0..<temporaries as]"
  using Serve_slept [of pool 0 "as"] by simp



lemma closeConns_eq:
  "closeConns force now cs =
     (\<not> force \<and> list_ex (conn_kept now) cs,
      if force then [] else filter (conn_kept now) cs,
      if force then cs else filter (\<lambda>c. \<not> conn_kept now c) cs)"
  by (induction cs) auto

text \<open>
  C34. \<open>Shutdown\<close> decides the wrong way round. A poll closes every connection used within the last
  five seconds, also in the middle of a request, and keeps exactly those that were not and are
  neither new nor idle; \<open>Shutdown\<close> returns success as soon as a poll keeps one, leaving it open,
  and with nothing to keep it never succeeds: it polls until the context ends and returns the
  context's error.
\<close>

theorem shutdown_inverted:
  "conn_kept now c = (snd (GetState c) \<notin> {StateNew, StateIdle} \<and> fst (GetState c) < now - 5) \<and>
   closeConns False now cs = (list_ex (conn_kept now) cs, filter (conn_kept now) cs,
      filter (\<lambda>c. \<not> conn_kept now c) cs) \<and>
   Shutdown lns ps fin ctxerr =
     (case fst (closeListeners None lns) of
        Some e \<Rightarrow> Some e
      | None \<Rightarrow> if list_ex (\<lambda>(now, cs). list_ex (conn_kept now) cs) ps then None else Some ctxerr)"
proof (intro conjI)
  show "conn_kept now c = (snd (GetState c) \<notin> {StateNew, StateIdle} \<and> fst (GetState c) < now - 5)"
    by (auto simp: conn_kept_def defaultConnIdleThreshold_def Let_def split: prod.split)
  show "closeConns False now cs = (list_ex (conn_kept now) cs, filter (conn_kept now) cs,
      filter (\<lambda>c. \<not> conn_kept now c) cs)"
    by (simp add: closeConns_eq)
  have "shutdown_polls ps fin ctxerr =
      (if list_ex (\<lambda>(now, cs). list_ex (conn_kept now) cs) ps then None else Some ctxerr)"
    by (induction ps fin ctxerr rule: shutdown_polls.induct) (auto simp: closeConns_eq)
  then show "Shutdown lns ps fin ctxerr =
     (case fst (closeListeners None lns) of
        Some e \<Rightarrow> Some e
      | None \<Rightarrow> if list_ex (\<lambda>(now, cs). list_ex (conn_kept now) cs) ps then None else Some ctxerr)"
    by (simp add: Shutdown_def split: option.split)
qed

end
