(* ===== verification/Options.thy ===== *)
theory Options
  imports Client_Conn Server_Life Wrapped_Conn "HOL-Library.Sublist"
begin

text \<open>
  How clients and servers are put together: the option setters of src/sofabolt/client_option.go and
  server_option.go, \<open>NewClient\<close> and \<open>NewServer\<close> with their defaults, the heartbeats of a client
  (client.go), the counters (client_metrics.go, server_metrics.go) and the server's events
  (server_event.go, serverevent_string.go). Of handlers, dialers and callbacks the options say
  whether they are set.
\<close>

subsection \<open>The client's options\<close>

text \<open>\<open>clo_metrics\<close> is the time of creation of the metrics.\<close>

record client_config =
  clo_disableAutoIncrementRequestID :: bool
  clo_idleTimeout :: int
  clo_readTimeout :: int
  clo_writeTimeout :: int
  clo_flushInterval :: int
  clo_maxPendingCommands :: int
  clo_onHeartbeat :: bool
  clo_heartbeatInterval :: int
  clo_heartbeatTimeout :: int
  clo_heartbeatProbes :: int
  clo_handler :: bool
  clo_dialer :: bool
  clo_conn :: "net_conn option"
  clo_metrics :: "int option"

definition client_config_zero :: client_config where
  "client_config_zero = \<lparr>clo_disableAutoIncrementRequestID = False, clo_idleTimeout = 0,
     clo_readTimeout = 0, clo_writeTimeout = 0, clo_flushInterval = 0, clo_maxPendingCommands = 0,
     clo_onHeartbeat = False, clo_heartbeatInterval = 0, clo_heartbeatTimeout = 0,
     clo_heartbeatProbes = 0, clo_handler = False, clo_dialer = False, clo_conn = None,
     clo_metrics = None\<rparr>"

definition WithClientMetrics :: "int option \<Rightarrow> client_config \<Rightarrow> client_config" where
  "WithClientMetrics cm c = c\<lparr>clo_metrics := cm\<rparr>"

definition WithClientDisableAutoIncrementRequestID :: "bool \<Rightarrow> client_config \<Rightarrow> client_config" where
  "WithClientDisableAutoIncrementRequestID b c = c\<lparr>clo_disableAutoIncrementRequestID := b\<rparr>"

definition WithClientTimeout :: "int \<Rightarrow> int \<Rightarrow> int \<Rightarrow> int \<Rightarrow> client_config \<Rightarrow> client_config" where
  "WithClientTimeout readtimeout writetimeout idletimeout flushInterval c =
     c\<lparr>clo_readTimeout := readtimeout, clo_writeTimeout := writetimeout, clo_idleTimeout := idletimeout\<rparr>"

definition WithClientConn :: "net_conn option \<Rightarrow> client_config \<Rightarrow> client_config" where
  "WithClientConn conn c = c\<lparr>clo_conn := conn\<rparr>"

definition WithClientHeartbeat :: "int \<Rightarrow> int \<Rightarrow> int \<Rightarrow> bool \<Rightarrow> client_config \<Rightarrow> client_config" where
  "WithClientHeartbeat heartbeatinterval heartbeattimeout heartbeatprobes onheartbeat c =
     c\<lparr>clo_heartbeatTimeout := heartbeattimeout, clo_heartbeatInterval := heartbeatinterval,
       clo_heartbeatProbes := heartbeatprobes, clo_onHeartbeat := onheartbeat\<rparr>"

definition WithClientMaxPendingCommands :: "int \<Rightarrow> client_config \<Rightarrow> client_config" where
  "WithClientMaxPendingCommands m c = c\<lparr>clo_maxPendingCommands := m\<rparr>"

definition WithClientRedial :: "bool \<Rightarrow> client_config \<Rightarrow> client_config" where
  "WithClientRedial dialer c = c\<lparr>clo_dialer := dialer\<rparr>"

definition WithClientHandler :: "bool \<Rightarrow> client_config \<Rightarrow> client_config" where
  "WithClientHandler handler c = c\<lparr>clo_handler := handler\<rparr>"

definition client_polyfill ::
  "conn_env \<Rightarrow> int \<Rightarrow> client_config \<Rightarrow> go_error option \<times> client_config" where
  "client_polyfill env now c =
     (let c = (if clo_maxPendingCommands c = 0
               then c\<lparr>clo_maxPendingCommands := xe_NumCPU env * 16\<rparr> else c);
          c = (if clo_metrics c = None then c\<lparr>clo_metrics := Some now\<rparr> else c)
      in case clo_conn c of
           None \<Rightarrow>
             if \<not> clo_dialer c then (Some ErrNilDialer, c)
             else (None, c\<lparr>clo_conn := Some (case xe_Dial env of Inl err \<Rightarrow> Error_conn err
                                                       | Inr conn \<Rightarrow> conn)\<rparr>)
         | Some conn \<Rightarrow>
             (case buildAsyncWriteConn env conn of
                Inl err \<Rightarrow> (Some err, c)
              | Inr conn \<Rightarrow> (None, c\<lparr>clo_conn := Some conn\<rparr>)))"

text \<open>\<open>NewClient\<close>: the client's options and whether its heartbeat goroutine is started.\<close>

definition NewClient_config ::
  "conn_env \<Rightarrow> int \<Rightarrow> (client_config \<Rightarrow> client_config) list \<Rightarrow> go_error + (client_config \<times> bool)" where
  "NewClient_config env now options =
     (let c = fold (\<lambda>option c. option c) options client_config_zero
      in case client_polyfill env now c of
           (Some err, c) \<Rightarrow> Inl err
         | (None, c) \<Rightarrow> Inr (c, clo_heartbeatTimeout c > 0 \<or> clo_heartbeatInterval c > 0 \<or>
                                clo_heartbeatProbes c > 0 \<or> clo_onHeartbeat c))"

text \<open>
  The read deadlines of \<open>doread\<close>, as the argument of the call of \<open>SetReadDeadline\<close> if there is one;
  \<open>Some None\<close> is the zero time, which takes the deadline away.
\<close>

definition client_setConnReadTimeout :: "client_config \<Rightarrow> int \<Rightarrow> int option option" where
  "client_setConnReadTimeout c now =
     (if clo_readTimeout c > 0 then Some (Some (now + clo_readTimeout c)) else None)"

definition client_setConnIdleTimeout :: "client_config \<Rightarrow> int \<Rightarrow> int option option" where
  "client_setConnIdleTimeout c now =
     (if clo_idleTimeout c > 0 then Some (Some (now + clo_idleTimeout c)) else Some None)"

definition client_beforeread :: "client_config \<Rightarrow> command \<Rightarrow> int \<Rightarrow> int option option" where
  "client_beforeread c cmd now =
     (if c_proto cmd > 0 then client_setConnReadTimeout c now else client_setConnIdleTimeout c now)"

subsection \<open>Heartbeats\<close>

text \<open>
  The request that every round sends again, and the loop of \<open>doheartbeat\<close>, over the errors its calls of \<open>DoTimeout\<close> return: the calls of
  \<open>onHeartbeat\<close>, and the number of failed probes in a row, or \<open>None\<close> when the loop has ended.
\<close>

definition heartbeat_request :: "'x request \<Rightarrow> 'x request" where
  "heartbeat_request pooled =
     set_command (\<lambda>c. c\<lparr>c_cmdcode := CMDCodeBOLTHeartbeat\<rparr>) (AcquireRequest pooled)"

fun doheartbeat :: "client_config \<Rightarrow> int \<Rightarrow> go_error option list \<Rightarrow> bool list \<times> int option" where
  "doheartbeat c probes [] = ([], Some probes)"
| "doheartbeat c probes (err # errs) =
     (if err \<noteq> None
      then let probes = probes + 1
           in if probes > clo_heartbeatProbes c
              then let calls = (if clo_onHeartbeat c then [False] else [])
                   in if clo_heartbeatProbes c > 0 then (calls, None)
                      else let (rest, n) = doheartbeat c probes errs in (calls @ rest, n)
              else doheartbeat c probes errs
      else let calls = (if clo_onHeartbeat c then [True] else []);
               (rest, n) = doheartbeat c 0 errs
           in (calls @ rest, n))"

subsection \<open>The client's counters\<close>

record client_metrics =
  cm_nread :: "64 word"
  cm_nwrite :: "64 word"
  cm_commands :: "64 word"
  cm_pendingCommands :: "64 word"
  cm_references :: "64 word"
  cm_used :: "64 word"
  cm_lasted :: int
  cm_created :: int

definition ResetPendingCommands :: "client_metrics \<Rightarrow> client_metrics" where
  "ResetPendingCommands cm = cm\<lparr>cm_pendingCommands := 0\<rparr>"

definition AddReferences :: "64 word \<Rightarrow> client_metrics \<Rightarrow> 64 word \<times> client_metrics" where
  "AddReferences n cm = (let v = cm_references cm + n in (v, cm\<lparr>cm_references := v\<rparr>))"

definition AddUsed :: "64 word \<Rightarrow> client_metrics \<Rightarrow> 64 word \<times> client_metrics" where
  "AddUsed n cm = (let v = cm_used cm + n in (v, cm\<lparr>cm_used := v\<rparr>))"

definition SetLasted :: "int \<Rightarrow> client_metrics \<Rightarrow> client_metrics" where
  "SetLasted now cm = cm\<lparr>cm_lasted := now\<rparr>"

subsection \<open>The background writer of a client\<close>

text \<open>
  \<open>buildAsyncWriteConn\<close> of client.go: the option and the metrics for the package asyncwriter, as far as
  its setters are used here; a counter that is given to the writer is the pointer to a field of
  the client's metrics.
\<close>

datatype client_counter = Counter_commands | Counter_pendingCommands | Counter_nwrite

record async_option =
  ap_timeout :: int
  ap_flushInterval :: int
  ap_batch :: int

record async_metrics =
  am_commands :: "client_counter option"
  am_pendingCommands :: "client_counter option"
  am_bytes :: "client_counter option"

definition client_buildAsyncWriteConn ::
  "('s net_ops \<Rightarrow> async_option \<Rightarrow> async_metrics \<Rightarrow> go_error + 's async_writer) \<Rightarrow> async_option \<Rightarrow>
   async_metrics \<Rightarrow> client_config \<Rightarrow> 's net_ops \<Rightarrow> client_metrics \<Rightarrow>
   (go_error + 's net_ops) \<times> client_metrics" where
  "client_buildAsyncWriteConn asyncwriter_New newOption newMetrics c conn cm =
     (let option = newOption\<lparr>ap_timeout := clo_writeTimeout c, ap_flushInterval := clo_flushInterval c,
            ap_batch := clo_maxPendingCommands c\<rparr>;
          metrics = newMetrics\<lparr>am_commands := Some Counter_commands\<rparr>;
          cm = ResetPendingCommands cm;
          metrics = metrics\<lparr>am_pendingCommands := Some Counter_pendingCommands, am_bytes := Some Counter_nwrite\<rparr>
      in (async_New asyncwriter_New newOption newMetrics conn
            [async_WithOption (Some option), async_WithMetrics (Some metrics)], cm))"

text \<open>
  No option of a client sets the flush interval that the writer gets: whatever options it was
  made with, also a fourth argument of \<open>WithClientTimeout\<close>, its writer has the interval zero.
\<close>

definition client_setter :: "(client_config \<Rightarrow> client_config) \<Rightarrow> bool" where
  "client_setter op \<longleftrightarrow>
     (\<exists>cm. op = WithClientMetrics cm) \<or> (\<exists>b. op = WithClientDisableAutoIncrementRequestID b) \<or>
     (\<exists>r w i f. op = WithClientTimeout r w i f) \<or> (\<exists>conn. op = WithClientConn conn) \<or>
     (\<exists>i t p h. op = WithClientHeartbeat i t p h) \<or> (\<exists>m. op = WithClientMaxPendingCommands m) \<or>
     (\<exists>d. op = WithClientRedial d) \<or> (\<exists>h. op = WithClientHandler h)"

lemma setter_flushInterval: "client_setter op \<Longrightarrow> clo_flushInterval (op c) = clo_flushInterval c"
  by (auto simp: client_setter_def WithClientMetrics_def WithClientDisableAutoIncrementRequestID_def
      WithClientTimeout_def WithClientConn_def WithClientHeartbeat_def
      WithClientMaxPendingCommands_def WithClientRedial_def WithClientHandler_def)

lemma setters_flushInterval:
  "list_all client_setter options \<Longrightarrow>
   clo_flushInterval (fold (\<lambda>option c. option c) options c) = clo_flushInterval c"
  by (induction options arbitrary: c) (simp_all add: setter_flushInterval)

lemma polyfill_flushInterval:
  "client_polyfill env now c = (e, c') \<Longrightarrow> clo_flushInterval c' = clo_flushInterval c"
  by (auto simp: client_polyfill_def Let_def split: option.splits sum.splits if_splits)

lemma client_writer_never_waits:
  assumes "list_all client_setter options" and "NewClient_config env now options = Inr (c, hb)"
  shows "client_buildAsyncWriteConn asyncwriter_New newOption newMetrics c conn cm =
    (case asyncwriter_New conn
        (newOption\<lparr>ap_timeout := clo_writeTimeout c, ap_flushInterval := 0, ap_batch := clo_maxPendingCommands c\<rparr>)
        \<lparr>am_commands = Some Counter_commands, am_pendingCommands = Some Counter_pendingCommands,
         am_bytes = Some Counter_nwrite\<rparr> of
       Inl err \<Rightarrow> Inl err | Inr aw \<Rightarrow> Inr (async_Conn aw conn), cm\<lparr>cm_pendingCommands := 0\<rparr>)"
proof -
  have "clo_flushInterval c = 0"
    using assms(2) setters_flushInterval [OF assms(1), of client_config_zero]
    by (auto simp: NewClient_config_def Let_def client_config_zero_def
        dest!: polyfill_flushInterval split: prod.splits option.splits)
  then show ?thesis
    by (cases newMetrics) (simp add: client_buildAsyncWriteConn_def Let_def async_New_def async_polyfill_def
        async_WithOption_def async_WithMetrics_def ResetPendingCommands_def)
qed

subsection \<open>The server's options\<close>

record server_config =
  svo_async :: bool
  svo_readTimeout :: int
  svo_writeTimeout :: int
  svo_idleTimeout :: int
  svo_flushInterval :: int
  svo_maxPendingCommand :: int
  svo_maxConnections :: int
  svo_handler :: bool
  svo_onhandler :: bool
  svo_metrics :: bool

definition server_config_zero :: server_config where
  "server_config_zero = \<lparr>svo_async = False, svo_readTimeout = 0, svo_writeTimeout = 0,
     svo_idleTimeout = 0, svo_flushInterval = 0, svo_maxPendingCommand = 0, svo_maxConnections = 0,
     svo_handler = False, svo_onhandler = False, svo_metrics = False\<rparr>"

definition WithServerMetrics :: "bool \<Rightarrow> server_config \<Rightarrow> server_config" where
  "WithServerMetrics sm srv = srv\<lparr>svo_metrics := sm\<rparr>"

definition WithServerHandler :: "bool \<Rightarrow> server_config \<Rightarrow> server_config" where
  "WithServerHandler fn srv = srv\<lparr>svo_handler := fn\<rparr>"

definition WithServerAsync :: "bool \<Rightarrow> server_config \<Rightarrow> server_config" where
  "WithServerAsync t srv = srv\<lparr>svo_async := t\<rparr>"

definition WithServerTimeout :: "int \<Rightarrow> int \<Rightarrow> int \<Rightarrow> int \<Rightarrow> server_config \<Rightarrow> server_config" where
  "WithServerTimeout readTimeout writeTimeout idleTimeout flushInterval srv =
     srv\<lparr>svo_readTimeout := readTimeout, svo_writeTimeout := writeTimeout,
         svo_idleTimeout := idleTimeout, svo_flushInterval := flushInterval\<rparr>"

definition WithServerMaxConnctions :: "int \<Rightarrow> server_config \<Rightarrow> server_config" where
  "WithServerMaxConnctions m srv = srv\<lparr>svo_maxConnections := m\<rparr>"

definition WithServerMaxPendingCommands :: "int \<Rightarrow> server_config \<Rightarrow> server_config" where
  "WithServerMaxPendingCommands m srv = srv\<lparr>svo_maxPendingCommand := m\<rparr>"

definition WithServerOnEventHandler :: "bool \<Rightarrow> server_config \<Rightarrow> server_config" where
  "WithServerOnEventHandler e srv = srv\<lparr>svo_onhandler := e\<rparr>"

text \<open>\<open>workerpool\<close> is the outcome of \<open>workerpool.New\<close> for a number of workers.\<close>

definition server_polyfill ::
  "(int \<Rightarrow> go_error option) \<Rightarrow> server_config \<Rightarrow> go_error option \<times> server_config" where
  "server_polyfill workerpool srv =
     (if \<not> svo_handler srv then (Some ErrServerHandler, srv)
      else
        let srv = (if \<not> svo_onhandler srv then srv\<lparr>svo_onhandler := True\<rparr> else srv);
            srv = (if svo_maxConnections srv = 0 then srv\<lparr>svo_maxConnections := 10240\<rparr> else srv);
            srv = (if \<not> svo_metrics srv then srv\<lparr>svo_metrics := True\<rparr> else srv)
        in (workerpool (svo_maxConnections srv), srv))"

definition NewServer ::
  "(int \<Rightarrow> go_error option) \<Rightarrow> (server_config \<Rightarrow> server_config) list \<Rightarrow> go_error + server_config" where
  "NewServer workerpool options =
     (let srv = fold (\<lambda>op srv. op srv) options server_config_zero
      in case server_polyfill workerpool srv of
           (Some err, srv) \<Rightarrow> Inl err
         | (None, srv) \<Rightarrow> Inr srv)"

text \<open>The options the serving loop of theory \<open>Server\<close> reads.\<close>

definition serving_options :: "server_config \<Rightarrow> server_options" where
  "serving_options srv = \<lparr>so_async = svo_async srv, so_readTimeout = svo_readTimeout srv,
     so_writeTimeout = svo_writeTimeout srv, so_idleTimeout = svo_idleTimeout srv,
     so_flushInterval = svo_flushInterval srv\<rparr>"

subsection \<open>Events\<close>

definition ServerEvent_name :: string where
  "ServerEvent_name = ''ServerTemporaryAcceptEventServerWorkerPoolOverflowEventServerConnErrorEventServerConnHijackedEvent''"

definition ServerEvent_index :: "nat list" where
  "ServerEvent_index = [0, 26, 55, 75, 98]"

definition ServerEvent_String :: "16 word \<Rightarrow> string" where
  "ServerEvent_String i =
     (if i \<ge> word_of_nat (length ServerEvent_index - 1)
      then ''ServerEvent('' @ map (\<lambda>w. char_of (unat w)) (itoa (unat i)) @ '')''
      else let lo = ServerEvent_index ! unat i; hi = ServerEvent_index ! (unat i + 1)
           in take (hi - lo) (drop lo ServerEvent_name))"

record 'x server_event_context =
  sec_req :: "'x request option"
  sec_res :: "'x response option"
  sec_conn :: "nat option"
  sec_event :: "16 word"

definition NewServerEventContext :: "16 word \<Rightarrow> 'x server_event_context" where
  "NewServerEventContext event =
     \<lparr>sec_req = None, sec_res = None, sec_conn = None, sec_event = event\<rparr>"

definition sec_SetConn :: "nat option \<Rightarrow> 'x server_event_context \<Rightarrow> 'x server_event_context" where
  "sec_SetConn conn sec = sec\<lparr>sec_conn := conn\<rparr>"

definition sec_SetReq :: "'x request option \<Rightarrow> 'x server_event_context \<Rightarrow> 'x server_event_context" where
  "sec_SetReq req sec = sec\<lparr>sec_req := req\<rparr>"

definition sec_SetRes :: "'x response option \<Rightarrow> 'x server_event_context \<Rightarrow> 'x server_event_context" where
  "sec_SetRes res sec = sec\<lparr>sec_res := res\<rparr>"

subsection \<open>Lemmas\<close>

abbreviation answered :: "go_error option list \<Rightarrow> bool list" where
  "answered errs \<equiv> map (\<lambda>err. err = None) errs"

text \<open>Without a limit the loop never ends.\<close>

lemma doheartbeat_unlimited:
  "clo_heartbeatProbes c \<le> 0 \<Longrightarrow> snd (doheartbeat c probes errs) \<noteq> None"
  by (induction c probes errs rule: doheartbeat.induct) (auto simp: Let_def split: prod.split)

text \<open>
  With a limit, from \<open>probes\<close> failures in a row: the loop ends when the failures missing to exceed
  the limit come next, or when more than the limit come in a row later.
\<close>

lemma doheartbeat_limited:
  assumes "0 \<le> probes" and "probes \<le> clo_heartbeatProbes c" and "0 < clo_heartbeatProbes c"
  shows "snd (doheartbeat c probes errs) = None \<longleftrightarrow>
    prefix (replicate (Suc (nat (clo_heartbeatProbes c - probes))) False) (answered errs) \<or>
    sublist (replicate (Suc (nat (clo_heartbeatProbes c))) False) (answered errs)"
  using assms
proof (induction errs arbitrary: probes)
  case Nil
  show ?case by simp
next
  case (Cons err errs)
  let ?L = "clo_heartbeatProbes c"
  show ?case
  proof (cases "err = None")
    case True
    with Cons.IH [of 0] Cons.prems show ?thesis
      by (auto simp: sublist_Cons_right split: prod.split)
  next
    case fail: False
    show ?thesis
    proof (cases "probes = ?L")
      case True
      with fail Cons.prems show ?thesis by (auto simp: Let_def)
    next
      case False
      with Cons.prems have l: "nat (?L - probes) = Suc (nat (?L - (probes + 1)))" by simp
      have "prefix (replicate (Suc (nat (?L - (probes + 1)))) False) bs"
        if "prefix (replicate (nat ?L) False) bs" for bs
      proof -
        have "replicate (nat ?L) False = replicate (Suc (nat (?L - (probes + 1)))) False @
            replicate (nat ?L - Suc (nat (?L - (probes + 1)))) False"
          using Cons.prems False by (simp add: replicate_add [symmetric] del: replicate_Suc)
        with that show ?thesis by (metis append_prefixD)
      qed
      with Cons.IH [of "probes + 1"] Cons.prems fail False l show ?thesis
        by (auto simp: sublist_Cons_right Let_def simp del: replicate_Suc) (auto simp: replicate_Suc)
    qed
  qed
qed

text \<open>With a limit, only the failure that exceeds it is reported; without, every round is.\<close>

lemma doheartbeat_reports:
  "0 < clo_heartbeatProbes c \<Longrightarrow>
   False \<in> set (fst (doheartbeat c probes errs)) \<longleftrightarrow>
     clo_onHeartbeat c \<and> snd (doheartbeat c probes errs) = None"
  by (induction c probes errs rule: doheartbeat.induct) (auto simp: Let_def split: prod.splits)

lemma doheartbeat_reports_all:
  "clo_heartbeatProbes c \<le> 0 \<Longrightarrow> 0 \<le> probes \<Longrightarrow>
   fst (doheartbeat c probes errs) = (if clo_onHeartbeat c then answered errs else [])"
  by (induction c probes errs rule: doheartbeat.induct) (auto simp: Let_def split: prod.splits)

text \<open>
  What a heartbeat puts on the wire when its request is fresh: the 22 bytes of an empty v1 request
  frame with the command code of heartbeats.
\<close>

lemma heartbeat_frame:
  assumes "alloc_ok alloc"
  shows "Message_Write h alloc [] (heartbeat_request (ReleaseRequest h m)) = Some (Inr
    [1, 1, 0, 0, 0, 0, 0, 0, 0, 1, 0, 0, 0, 0, 0, 0, 0, 0, 0, 0, 0, 0], heartbeat_request (ReleaseRequest h m))"
proof -
  have "m_command (heartbeat_request (ReleaseRequest h m)) = c\<lparr>c_headers := sm_Reset (c_headers (m_command m))\<rparr>"
    if "c = Command_zero\<lparr>c_proto := 1, c_typ := 1, c_cmdcode := 0, c_codec := 1\<rparr>" for c
    by (simp add: that heartbeat_request_def ReleaseRequest_def Request_Reset_def reset_command_def
        Command_Reset_def set_command_def AcquireRequest_def Command_zero_def)
  then show ?thesis
    using WriteCommand_spec [OF assms]
    by (simp add: Message_Write_def write_spec_def frame_v1_def Command_zero_def is_req_typ_def
      frame_lens_def frame_body_def be16_def be32_def sm_wire_def sm_Range_def sm_Reset_def)
qed

text \<open>Without options a client cannot be made, and needs only a dialer.\<close>

lemma NewClient_dialer:
  "NewClient_config env now [] = Inl ErrNilDialer"
  "NewClient_config env now [WithClientRedial True] =
     Inr (client_config_zero\<lparr>clo_dialer := True,
       clo_maxPendingCommands := xe_NumCPU env * 16, clo_metrics := Some now,
       clo_conn := Some (case xe_Dial env of Inl err \<Rightarrow> Error_conn err | Inr conn \<Rightarrow> conn)\<rparr>, False)" if "xe_NumCPU env \<noteq> 0"
  using that by (simp_all add: NewClient_config_def client_polyfill_def client_config_zero_def WithClientRedial_def Let_def)

lemma ServerEvent_names:
  "map ServerEvent_String [0, 1, 2, 3, 4] =
    [''ServerTemporaryAcceptEvent'', ''ServerWorkerPoolOverflowEvent'', ''ServerConnErrorEvent'',
     ''ServerConnHijackedEvent'', ''ServerEvent(4)'']"
  by (simp add: ServerEvent_String_def ServerEvent_name_def ServerEvent_index_def itoa.simps char_of_def)
    (simp add: word_le_nat_alt bit_0)

subsection \<open>Properties\<close>

text \<open>
  C38. Heartbeats: the loop ends exactly when a limit of failures is set and more than that many
  probes fail in a row; a failure is reported to the callback only then. Without a limit, the
  loop never ends, whatever the errors, and every round is reported: a client that was closed
  keeps its heartbeat.
\<close>

theorem heartbeat_ends:
  "(snd (doheartbeat c 0 errs) = None \<longleftrightarrow>
     0 < clo_heartbeatProbes c \<and>
     sublist (replicate (Suc (nat (clo_heartbeatProbes c))) False) (answered errs)) \<and>
   (False \<in> set (fst (doheartbeat c 0 errs)) \<longleftrightarrow>
     clo_onHeartbeat c \<and>
     (if 0 < clo_heartbeatProbes c then snd (doheartbeat c 0 errs) = None
      else False \<in> set (answered errs)))"
proof
  show "snd (doheartbeat c 0 errs) = None \<longleftrightarrow> 0 < clo_heartbeatProbes c \<and>
     sublist (replicate (Suc (nat (clo_heartbeatProbes c))) False) (answered errs)"
    using doheartbeat_unlimited [of c 0 errs] doheartbeat_limited [of 0 c errs] prefix_imp_sublist
    by (cases "0 < clo_heartbeatProbes c") (auto simp del: replicate_Suc)
qed (simp add: doheartbeat_reports doheartbeat_reports_all)

end
