(* ===== verification/Echo.thy ===== *)
theory Echo
  imports Conn_Frames Options "HOL-Library.Multiset"
begin

text \<open>
  The server of the command line (src/sofabolt/cmd/serve.go): its handlers and options, and with
  them a round trip through everything: requests over the wire, the server's loop, the handler,
  the response writer, the responses over the wire, and the read loop of a client connection.

  What the handlers do beside answering acts on the state of the world and is a parameter: the
  rate counter, the pause of the option \<open>delay\<close>, and the printing of requests.
\<close>

subsection \<open>The handlers\<close>

definition SetContent :: "bytes \<Rightarrow> 'x response_writer \<Rightarrow> 'x response_writer" where
  "SetContent content rw = rw\<lparr>rw_res := set_command (\<lambda>c. c\<lparr>c_content := content\<rparr>) (rw_res rw)\<rparr>"

text \<open>A panic of \<open>Write\<close>, which lemma \<open>SetContent_writes\<close> excludes, leaves everything as it is.\<close>

definition echohandler ::
  "'x hessian \<Rightarrow> (bytes \<Rightarrow> nat \<Rightarrow> bytes) \<Rightarrow> 's io_writer \<Rightarrow> ('s \<Rightarrow> 's) \<Rightarrow> (int \<Rightarrow> 's \<Rightarrow> 's) \<Rightarrow> int \<Rightarrow>
   'x response_writer \<Rightarrow> 'x request \<Rightarrow> 's \<Rightarrow> 'x response_writer \<times> 's" where
  "echohandler h alloc wr incr sleep delay rw req s =
     (let s = incr s;
          s = (if delay > 0 then sleep (delay * 1000000) s else s);
          rw = SetContent (c_content (m_command req)) rw
      in case rw_Write h alloc wr rw s of
           None \<Rightarrow> (rw, s)
         | Some (n, err, rw, s) \<Rightarrow> (rw, s))"

definition serve_handler ::
  "'x hessian \<Rightarrow> (bytes \<Rightarrow> nat \<Rightarrow> bytes) \<Rightarrow> 's io_writer \<Rightarrow> (bytes \<Rightarrow> 's \<Rightarrow> 's) \<Rightarrow>
   'x response_writer \<Rightarrow> 'x request \<Rightarrow> 's \<Rightarrow> 'x response_writer \<times> 's" where
  "serve_handler h alloc wr println rw req s =
     (let s = println (Command_String (m_command req)) s;
          rw = SetContent (c_content (m_command req)) rw
      in case rw_Write h alloc wr rw s of
           None \<Rightarrow> (rw, s)
         | Some (n, err, rw, s) \<Rightarrow> (rw, s))"

text \<open>The options the command makes its server with.\<close>

definition serve_options :: "bool \<Rightarrow> int \<Rightarrow> (server_config \<Rightarrow> server_config) list" where
  "serve_options echo ms =
     (if echo
      then [WithServerHandler True, WithServerMaxPendingCommands 10240, WithServerMaxConnctions 10240,
            WithServerTimeout 0 0 0 (ms * 1000000)]
      else [WithServerHandler True])"

lemma serve_options_server:
  "NewServer (\<lambda>workers. None) (serve_options echo ms) = Inr (server_config_zero\<lparr>svo_handler := True,
     svo_onhandler := True, svo_metrics := True, svo_maxConnections := 10240,
     svo_maxPendingCommand := (if echo then 10240 else 0),
     svo_flushInterval := (if echo then ms * 1000000 else 0)\<rparr>)"
  by (simp add: NewServer_def server_polyfill_def serve_options_def server_config_zero_def
      WithServerHandler_def WithServerMaxPendingCommands_def WithServerMaxConnctions_def
      WithServerTimeout_def Let_def)

subsection \<open>The response to a request\<close>

definition echo_response :: "command \<Rightarrow> command" where
  "echo_response q = Command_zero\<lparr>c_proto := c_proto q, c_cmdcode := derive_code (c_cmdcode q),
     c_rid := c_rid q, c_class := ClassResponse, c_content := c_content q\<rparr>"

text \<open>A response that was reset: nothing but protocol, type, command code and \<open>raw\<close> is left.\<close>

definition clean :: "command \<Rightarrow> bool" where
  "clean c \<longleftrightarrow> c_typ c = TypeBOLTResponse \<and> (\<exists>p k w. c = Command_zero\<lparr>c_proto := p, c_cmdcode := k,
     c_headers := sm_New\<lparr>sm_raw := w\<rparr>\<rparr>)"

lemma clean_reset: "c_typ c = TypeBOLTResponse \<Longrightarrow> clean (reset_command c)"
  by (fastforce simp: clean_def reset_command_def Command_Reset_zero Command_zero_def)

lemma frame_raw:
  "bolt_frame (c\<lparr>c_headers := sm_New\<lparr>sm_raw := w\<rparr>\<rparr>) = bolt_frame (c\<lparr>c_headers := sm_New\<rparr>)"
  by (simp add: bolt_frame_def frame_v1_def frame_v2_def frame_v2_plain_def frame_lens_def
      frame_body_def sm_wire_def sm_Range_def sm_New_def)

lemma derived_frame:
  assumes "clean (m_command (rw_res rw))" and "c_proto q \<noteq> ProtoTBRemoting"
  shows "bolt_frame ((m_command (rw_res (rw_Derive (m\<lparr>m_command := q\<rparr>) rw)))\<lparr>c_content := c_content q\<rparr>) =
    bolt_frame (echo_response q)"
proof -
  obtain p k w where c: "m_command (rw_res rw) = Command_zero\<lparr>c_proto := p, c_cmdcode := k,
      c_headers := sm_New\<lparr>sm_raw := w\<rparr>\<rparr>"
    using assms(1) by (auto simp: clean_def)
  have "(m_command (rw_res (rw_Derive (m\<lparr>m_command := q\<rparr>) rw)))\<lparr>c_content := c_content q\<rparr> =
      (echo_response q)\<lparr>c_headers := sm_New\<lparr>sm_raw := w\<rparr>\<rparr>"
    using assms(2) by (simp add: rw_Derive_def Let_def set_command_def Response_SetRequestID_def
        GetRequestID_def c echo_response_def)
  also have "bolt_frame \<dots> = bolt_frame ((echo_response q)\<lparr>c_headers := sm_New\<rparr>)" by (rule frame_raw)
  also have "(echo_response q)\<lparr>c_headers := sm_New\<rparr> = echo_response q"
    by (simp add: echo_response_def Command_zero_def)
  finally show ?thesis .
qed

lemma bolt_frame_not_empty [simp]: "bolt_frame c \<noteq> []"
  by (simp add: bolt_frame_def frame_v1_def frame_v2_def frame_v2_plain_def)

lemma echo_received:
  "echo_response (received q) = echo_response q"
  "echo_response (Command_CopyTo c d) = echo_response c"
  by (simp_all add: echo_response_def received_def recv_v1_def recv_v2_def recv_v2_plain_def
      with_body_def Command_CopyTo_def)

lemma echo_response_ok:
  assumes "bolt_request q"
  shows "wire_ok (echo_response q)" "c_proto (echo_response q) \<in> {0, 1, 2}" "c_typ (echo_response q) = 0"
    "c_typ (received (echo_response q)) = 0" "c_rid (received (echo_response q)) = c_rid q"
    "c_content (received (echo_response q)) = c_content q"
  using assms by (auto simp: bolt_request_def echo_response_def wire_ok_def ClassResponse_def
      Command_zero_def received_def recv_v1_def recv_v2_def recv_v2_plain_def with_body_def)

subsection \<open>The contract of a server that answers\<close>

lemma mset_map_ex:
  "mset ys = mset (map f xs) \<Longrightarrow> \<exists>xs'. ys = map f xs' \<and> mset xs' = mset xs"
proof (induction ys arbitrary: xs)
  case (Cons y ys)
  then have "y \<in> set (map f xs)" by (metis list.set_intros(1) mset_eq_setD)
  then obtain x a b where x: "xs = a @ x # b" "y = f x" by (auto simp: in_set_conv_decomp)
  with Cons.prems have "mset ys = mset (map f (a @ b))" by simp
  from Cons.IH [OF this] obtain xs' where "ys = map f xs'" "mset xs' = mset (a @ b)" by blast
  with x show ?case by (intro exI [of _ "x # xs'"]) simp
qed simp

text \<open>
  What the loop needs of its surroundings, in the states \<open>ok\<close> keeps: the handler writes the
  response it was given, with the content of the request, and leaves the writer used and not
  hijacked; flushing works and changes nothing of \<open>out\<close>, the bytes written, flushed or not.
\<close>

locale echo_server =
  fixes env :: "('x, 's) server_env" and o' :: server_options and out :: "'s \<Rightarrow> bytes"
    and ok :: "'s \<Rightarrow> bool"
  assumes alloc: "alloc_ok (sv_alloc env)"
    and answers: "ok s \<Longrightarrow> rw_numwrite rw = 0 \<Longrightarrow> c_proto (m_command (rw_res rw)) \<in> {0, 1, 2} \<Longrightarrow>
      c_typ (m_command (rw_res rw)) = TypeBOLTResponse \<Longrightarrow>
      \<exists>rw' s'. sv_handler env rw q s = (rw', s') \<and> 0 < rw_numwrite rw' \<and>
        rw_hijacked rw' = rw_hijacked rw \<and> c_typ (m_command (rw_res rw')) = TypeBOLTResponse \<and>
        rw_id rw' = rw_id rw \<and> ok s' \<and>
        out s' = out s @ bolt_frame ((m_command (rw_res rw))\<lparr>c_content := c_content (m_command q)\<rparr>)"
    and flushed: "ok s \<Longrightarrow> \<exists>t' s'. flushWrite env o' t s = (t', None, s') \<and> ok s' \<and> out s' = out s"
begin

lemma serve_one:
  assumes "ok s" and "rw_numwrite rw = 0" and "clean (m_command (rw_res rw))"
    and "c_proto (m_command q) \<in> {0, 1, 2}"
  shows "\<exists>rw' m' s'. serveCommand env (rw_Derive q rw) q m s = (rw', m', s') \<and> 0 < rw_numwrite rw' \<and>
    rw_hijacked rw' = rw_hijacked rw \<and> c_typ (m_command (rw_res rw')) = TypeBOLTResponse \<and> ok s' \<and>
    out s' = out s @ bolt_frame (echo_response (m_command q)) \<and>
    finish_command env wr rw' q m' s' = Some (rw', m'\<lparr>met_numwrite := met_numwrite m' + int (rw_numwrite rw')\<rparr>, s')"
proof -
  have p: "c_proto (m_command q) \<noteq> ProtoTBRemoting" using assms(4) by auto
  have "c_typ (m_command (rw_res (rw_Derive q rw))) = TypeBOLTResponse"
    using assms(3) by (auto simp: clean_def)
  moreover have "rw_numwrite (rw_Derive q rw) = 0" "c_proto (m_command (rw_res (rw_Derive q rw))) \<in> {0, 1, 2}"
    using assms(2,4) by simp_all
  ultimately obtain rw' s' where h: "sv_handler env (rw_Derive q rw) q s = (rw', s')"
    and rw': "0 < rw_numwrite rw'" "rw_hijacked rw' = rw_hijacked rw"
      "c_typ (m_command (rw_res rw')) = TypeBOLTResponse" "ok s'"
    and o: "out s' = out s @ bolt_frame ((m_command (rw_res (rw_Derive q rw)))
      \<lparr>c_content := c_content (m_command q)\<rparr>)"
    using answers [OF assms(1), of "rw_Derive q rw" q] by auto
  have "out s' = out s @ bolt_frame (echo_response (m_command q))"
    using o derived_frame [OF assms(3) p, of q] by simp
  with h rw' show ?thesis by (simp add: serveCommand_def finish_command_def Let_def)
qed

lemma sync_round:
  assumes "reader_contract rh avail" and "length b32 = 32" and "\<not> so_async o'"
    and "bolt_request q" and "avail (ss_reader st) = bolt_frame q @ rest"
    and "ok (ss_world st)" and "c_typ (m_command (rw_res (ss_rw st))) = TypeBOLTResponse"
  shows "\<exists>st'. serve_round env o' rh b32 st = Some (Inl st') \<and> avail (ss_reader st') = rest \<and>
    ss_jobs st' = ss_jobs st \<and> ok (ss_world st') \<and>
    c_typ (m_command (rw_res (ss_rw st'))) = TypeBOLTResponse \<and>
    out (ss_world st') = out (ss_world st) @ bolt_frame (echo_response q)"
proof -
  let ?q = "(Request_Reset (sv_hessian env) (ss_req st))\<lparr>m_command := received q\<rparr>"
  obtain n r' where rd: "Message_Read (sv_hessian env) rh b32 (ss_reader st)
      (Request_Reset (sv_hessian env) (ss_req st)) = Some (n, None, ?q, r')" and r': "avail r' = rest"
    using read_bolt_request [OF assms(1,2,4,5)] by blast
  have tq: "c_typ q = 1 \<or> c_typ q = 2" "c_proto q \<in> {0, 1, 2}" using assms(4) by (auto simp: bolt_request_def)
  let ?m = "(ss_metrics st)\<lparr>met_numread := met_numread (ss_metrics st) + int n\<rparr>"
  have c: "clean (m_command (rw_res (rw_Reset (ss_rw st))))" "rw_numwrite (rw_Reset (ss_rw st)) = 0"
    using clean_reset [OF assms(7)] by (simp_all add: rw_Reset_def Response_Reset_def)
  obtain rw' m' s' where sv: "serveCommand env (rw_Derive ?q (rw_Reset (ss_rw st))) ?q ?m (ss_world st) = (rw', m', s')"
    and rw': "0 < rw_numwrite rw'" "rw_hijacked rw' = rw_hijacked (rw_Reset (ss_rw st))"
      "c_typ (m_command (rw_res rw')) = TypeBOLTResponse" "ok s'"
    and o: "out s' = out (ss_world st) @ bolt_frame (echo_response (m_command ?q))"
    and f: "finish_command env (sv_write env) rw' ?q m' s' =
      Some (rw', m'\<lparr>met_numwrite := met_numwrite m' + int (rw_numwrite rw')\<rparr>, s')"
    using serve_one [OF assms(6) c(2,1), of ?q ?m "sv_write env"] tq(2) by auto
  obtain t s'' where fl: "flushWrite env o' (ss_lastFlushTime st) s' = (t, None, s'')"
    and s'': "ok s''" "out s'' = out s'"
    using flushed [OF rw'(4)] by blast
  have "\<not> rw_hijacked rw'" using rw'(2) by (simp add: rw_Reset_def)
  then show ?thesis
    using tq(1) assms(3) r' o s'' rw'(3)
    by (auto simp: serve_round_def rd Let_def HandleCommand_def handleCommandSync_def sv f fl echo_received)
qed

lemma sync_loop:
  assumes "reader_contract rh avail" and "length b32 = 32" and "\<not> so_async o'"
  shows "list_all bolt_request qs \<Longrightarrow> avail (ss_reader st) = concat (map bolt_frame qs) \<Longrightarrow>
    ok (ss_world st) \<Longrightarrow> c_typ (m_command (rw_res (ss_rw st))) = TypeBOLTResponse \<Longrightarrow>
    \<exists>e st'. serve_loop env o' rh b32 (Suc (length qs)) st = Some (Inr (False, Some e, st')) \<and>
      ss_jobs st' = ss_jobs st \<and> ok (ss_world st') \<and>
      out (ss_world st') = out (ss_world st) @ concat (map (\<lambda>q. bolt_frame (echo_response q)) qs)"
proof (induction qs arbitrary: st)
  case Nil
  then show ?case using round_at_end [OF assms(1,2), where st = st and o' = o' and env = env] by auto
next
  case (Cons q qs)
  then have q: "bolt_request q" and a: "avail (ss_reader st) = bolt_frame q @ concat (map bolt_frame qs)"
    by simp_all
  obtain st' where r: "serve_round env o' rh b32 st = Some (Inl st')"
    and st': "avail (ss_reader st') = concat (map bolt_frame qs)" "ss_jobs st' = ss_jobs st"
      "ok (ss_world st')" "c_typ (m_command (rw_res (ss_rw st'))) = TypeBOLTResponse"
      "out (ss_world st') = out (ss_world st) @ bolt_frame (echo_response q)"
    using sync_round [OF assms q a Cons.prems(3,4)] by blast
  obtain e st'' where "serve_loop env o' rh b32 (Suc (length qs)) st' = Some (Inr (False, Some e, st''))"
    "ss_jobs st'' = ss_jobs st'" "ok (ss_world st'')"
    "out (ss_world st'') = out (ss_world st') @ concat (map (\<lambda>q. bolt_frame (echo_response q)) qs)"
    using Cons.IH [OF _ st'(1,3,4)] Cons.prems(1) by auto
  with r st' show ?case by auto
qed

text \<open>A job of the asynchronous mode writes the response of its request.\<close>

lemma job_answers:
  assumes "ok s" and "rw_numwrite (sv_pooled_writer env) = 0"
    and "clean (m_command (rw_res (sv_pooled_writer env)))" and "c_proto q \<in> {0, 1, 2}"
  shows "\<exists>m' s'. doHandleCommandAsync env (i, CopyCommand (received q) (AcquireRequest p)) m s = Some (m', s') \<and>
    ok s' \<and> out s' = out s @ bolt_frame (echo_response q)"
proof -
  let ?q = "CopyCommand (received q) (AcquireRequest p)"
  let ?rw = "(sv_pooled_writer env)\<lparr>rw_id := i\<rparr>"
  have "m_command ?q = Command_CopyTo (received q) (m_command (AcquireRequest p))"
    by (simp add: CopyCommand_def set_command_def)
  moreover have "c_proto (Command_CopyTo c d) = c_proto c" for c d by (simp add: Command_CopyTo_def)
  ultimately have q: "c_proto (m_command ?q) \<in> {0, 1, 2}" "echo_response (m_command ?q) = echo_response q"
    using assms(4) by (simp_all add: echo_received)
  then show ?thesis
    using serve_one [of s ?rw ?q m "sv_conn_write env"] assms
    by (auto simp: doHandleCommandAsync_def Let_def)
qed

lemma jobs_answer:
  assumes "rw_numwrite (sv_pooled_writer env) = 0"
    and "clean (m_command (rw_res (sv_pooled_writer env)))"
  shows "ok s \<Longrightarrow> list_all bolt_request qs \<Longrightarrow>
    \<exists>m' s'. run_jobs env (map (\<lambda>q. (i, CopyCommand (received q) (AcquireRequest p))) qs) m s = Some (m', s') \<and>
      out s' = out s @ concat (map (\<lambda>q. bolt_frame (echo_response q)) qs)"
proof (induction qs arbitrary: m s)
  case (Cons q qs)
  have "c_proto q \<in> {0, 1, 2}" using Cons.prems(2) by (auto simp: bolt_request_def)
  from job_answers [OF Cons.prems(1) assms this, of i p m] obtain m' s' where
    "doHandleCommandAsync env (i, CopyCommand (received q) (AcquireRequest p)) m s = Some (m', s')"
    "ok s'" "out s' = out s @ bolt_frame (echo_response q)" by blast
  with Cons.IH [of s' m'] Cons.prems(2) show ?case by auto
qed simp

text \<open>The loop of the asynchronous mode, and the whole of \<open>serveConn\<close> in both modes.\<close>

lemma async_serve:
  assumes "reader_contract rh avail" and "length b32 = 32" and "so_async o'"
  shows "list_all bolt_request qs \<Longrightarrow> avail (ss_reader st) = concat (map bolt_frame qs) \<Longrightarrow>
    ok (ss_world st) \<Longrightarrow>
    \<exists>e st'. serve_loop env o' rh b32 (Suc (length qs)) st = Some (Inr (False, Some e, st')) \<and>
      ok (ss_world st') \<and> out (ss_world st') = out (ss_world st) \<and>
      ss_jobs st' = ss_jobs st @ map (\<lambda>q. (rw_id (ss_rw st),
        CopyCommand (received q) (AcquireRequest (sv_pooled_request env)))) qs"
proof (induction qs arbitrary: st)
  case Nil
  then show ?case using round_at_end [OF assms(1,2), where st = st and o' = o' and env = env] by auto
next
  case (Cons q qs)
  then have q: "bolt_request q" and a: "avail (ss_reader st) = bolt_frame q @ concat (map bolt_frame qs)"
    by simp_all
  obtain t s where fl: "flushWrite env o' (ss_lastFlushTime st) (ss_world st) = (t, None, s)"
    and s: "ok s" "out s = out (ss_world st)"
    using flushed [OF Cons.prems(3)] by blast
  obtain st' where r: "serve_round env o' rh b32 st = Some (Inl st')"
    and st': "avail (ss_reader st') = concat (map bolt_frame qs)" "ss_rw st' = ss_rw st" "ss_world st' = s"
      "ss_jobs st' = ss_jobs st @ [(rw_id (ss_rw st),
        CopyCommand (received q) (AcquireRequest (sv_pooled_request env)))]"
    using async_round [OF assms(1,2) q a assms(3) fl] by blast
  with Cons.IH [of st'] Cons.prems(1) s r show ?case by auto
qed

lemma serveConn_answers:
  assumes "reader_contract rh avail" and "length b32 = 32"
    and "list_all bolt_request qs" and "avail (ss_reader st) = concat (map bolt_frame qs)"
    and "ok (ss_world st)" and "c_typ (m_command (rw_res (ss_rw st))) = TypeBOLTResponse"
    and "ss_jobs st = []" and "\<And>js. mset (order js) = mset js"
    and "rw_numwrite (sv_pooled_writer env) = 0" and "clean (m_command (rw_res (sv_pooled_writer env)))"
  shows "\<exists>e st' qs'. serveConn env o' rh b32 order (Suc (length qs)) st = Some (False, Some e, st') \<and>
    mset qs' = mset qs \<and> (so_async o' \<or> qs' = qs) \<and>
    out (ss_world st') = out (ss_world st) @ concat (map (\<lambda>q. bolt_frame (echo_response q)) qs')"
proof -
  let ?job = "\<lambda>q. (rw_id (ss_rw st), CopyCommand (received q) (AcquireRequest (sv_pooled_request env)))"
  obtain e st' where l: "serve_loop env o' rh b32 (Suc (length qs)) st = Some (Inr (False, Some e, st'))"
    and ok: "ok (ss_world st')" and j: "ss_jobs st' = map ?job (if so_async o' then qs else [])"
    and o: "out (ss_world st') = out (ss_world st) @
      concat (map (\<lambda>q. bolt_frame (echo_response q)) (if so_async o' then [] else qs))"
    using async_serve [OF assms(1,2) _ assms(3-5)] sync_loop [OF assms(1,2) _ assms(3-6)] assms(7)
    by (cases "so_async o'") auto
  define s where "s = (if sv_buffered env (ss_world st') > 0
    then snd (snd (flushWrite env o' (ss_lastFlushTime st') (ss_world st'))) else ss_world st')"
  have s: "ok s" "out s = out (ss_world st')"
    using flushed [OF ok, of "ss_lastFlushTime st'"] ok by (auto simp: s_def)
  obtain js where js: "order (ss_jobs st') = map ?job js" "mset js = mset (if so_async o' then qs else [])"
    using mset_map_ex [of "order (ss_jobs st')" ?job] assms(8) [of "ss_jobs st'"] j by metis
  have "set js \<subseteq> set qs" using mset_eq_setD [OF js(2)] by (auto split: if_splits)
  then have "list_all bolt_request js" using assms(3) by (auto simp: list_all_iff)
  from jobs_answer [OF assms(9,10) s(1) this] obtain m' s' where
    r: "run_jobs env (map ?job js) (ss_metrics st') s = Some (m', s')"
    and s': "out s' = out s @ concat (map (\<lambda>q. bolt_frame (echo_response q)) js)" by blast
  have "serveConn env o' rh b32 order (Suc (length qs)) st =
      Some (False, Some e, st'\<lparr>ss_jobs := [], ss_metrics := m', ss_world := s'\<rparr>)"
    using l r js(1) by (simp add: serveConn_def s_def del: serve_loop.simps)
  moreover have "mset (if so_async o' then js else qs) = mset qs" "so_async o' \<or> (if so_async o' then js else qs) = qs"
    using js(2) by auto
  moreover have "out s' = out (ss_world st) @
      concat (map (\<lambda>q. bolt_frame (echo_response q)) (if so_async o' then js else qs))"
    using s s' o js(2) by (auto split: if_splits)
  ultimately show ?thesis by fastforce
qed

end

subsection \<open>Both handlers answer\<close>

lemma SetContent_writes:
  assumes "alloc_ok alloc" and "rw_numwrite rw = 0" and "c_proto (m_command (rw_res rw)) \<in> {0, 1, 2}"
    and "c_typ (m_command (rw_res rw)) = TypeBOLTResponse"
    and f: "f = bolt_frame ((m_command (rw_res rw))\<lparr>c_content := content\<rparr>)"
    and w: "wr s f = (length f, None, s')"
  shows "\<exists>rw'. rw_Write h alloc wr (SetContent content rw) s = Some (length f, None, rw', s') \<and>
    0 < rw_numwrite rw' \<and> rw_hijacked rw' = rw_hijacked rw \<and> rw_id rw' = rw_id rw \<and>
    c_typ (m_command (rw_res rw')) = TypeBOLTResponse"
proof -
  let ?c = "(m_command (rw_res rw))\<lparr>c_content := content\<rparr>"
  have c: "m_command (rw_res (SetContent content rw)) = ?c"
    by (simp add: SetContent_def set_command_def)
  have p: "c_proto ?c \<noteq> ProtoTBRemoting" using assms(3) by auto
  have "write_spec ?c = Inr f"
    using assms(3,4) by (auto simp: f write_spec_def bolt_frame_def)
  with assms(2,4) w p show ?thesis
    by (simp add: rw_Write_def Message_Write_bolt [OF assms(1)] c f)
       (simp add: SetContent_def set_command_def)
qed

locale written_world =
  fixes wr :: "'s io_writer" and out :: "'s \<Rightarrow> bytes" and ok :: "'s \<Rightarrow> bool"
  assumes writes: "ok s \<Longrightarrow> \<exists>s'. wr s d = (length d, None, s') \<and> ok s' \<and> out s' = out s @ d"
begin

lemma echohandler_answers:
  assumes "alloc_ok alloc" and "ok s" and "rw_numwrite rw = 0"
    and "c_proto (m_command (rw_res rw)) \<in> {0, 1, 2}"
    and "c_typ (m_command (rw_res rw)) = TypeBOLTResponse"
    and incr: "\<And>s. ok s \<Longrightarrow> ok (incr s) \<and> out (incr s) = out s"
    and sleep: "\<And>t s. ok s \<Longrightarrow> ok (sleep t s) \<and> out (sleep t s) = out s"
  shows "\<exists>rw' s'. echohandler h alloc wr incr sleep delay rw q s = (rw', s') \<and> 0 < rw_numwrite rw' \<and>
    rw_hijacked rw' = rw_hijacked rw \<and> c_typ (m_command (rw_res rw')) = TypeBOLTResponse \<and>
    rw_id rw' = rw_id rw \<and> ok s' \<and>
    out s' = out s @ bolt_frame ((m_command (rw_res rw))\<lparr>c_content := c_content (m_command q)\<rparr>)"
proof -
  let ?f = "bolt_frame ((m_command (rw_res rw))\<lparr>c_content := c_content (m_command q)\<rparr>)"
  define s1 where "s1 = (if delay > 0 then sleep (delay * 1000000) (incr s) else incr s)"
  have s1: "ok s1" "out s1 = out s" using assms(2) incr sleep by (auto simp: s1_def)
  obtain s' where s': "wr s1 ?f = (length ?f, None, s')" "ok s'" "out s' = out s1 @ ?f"
    using writes [OF s1(1)] by blast
  from SetContent_writes [where s = s1, OF assms(1,3-5) refl [of ?f], of wr s' h] s' s1 show ?thesis
    by (auto simp: echohandler_def Let_def s1_def [symmetric])
qed

lemma serve_handler_answers:
  assumes "alloc_ok alloc" and "ok s" and "rw_numwrite rw = 0"
    and "c_proto (m_command (rw_res rw)) \<in> {0, 1, 2}"
    and "c_typ (m_command (rw_res rw)) = TypeBOLTResponse"
    and println: "\<And>b s. ok s \<Longrightarrow> ok (println b s) \<and> out (println b s) = out s"
  shows "\<exists>rw' s'. serve_handler h alloc wr println rw q s = (rw', s') \<and> 0 < rw_numwrite rw' \<and>
    rw_hijacked rw' = rw_hijacked rw \<and> c_typ (m_command (rw_res rw')) = TypeBOLTResponse \<and>
    rw_id rw' = rw_id rw \<and> ok s' \<and>
    out s' = out s @ bolt_frame ((m_command (rw_res rw))\<lparr>c_content := c_content (m_command q)\<rparr>)"
proof -
  let ?f = "bolt_frame ((m_command (rw_res rw))\<lparr>c_content := c_content (m_command q)\<rparr>)"
  define s1 where "s1 = println (Command_String (m_command q)) s"
  have s1: "ok s1" "out s1 = out s" using assms(2) println by (auto simp: s1_def)
  obtain s' where s': "wr s1 ?f = (length ?f, None, s')" "ok s'" "out s' = out s1 @ ?f"
    using writes [OF s1(1)] by blast
  from SetContent_writes [where s = s1, OF assms(1,3-5) refl [of ?f], of wr s' h] s' s1 show ?thesis
    by (auto simp: serve_handler_def Let_def s1_def [symmetric])
qed

end

text \<open>
  The world of the witnesses: the bytes on the connection, those in the write buffer, the printed
  lines and the clock.
\<close>

record cmd_world =
  w_conn :: bytes
  w_buf :: bytes
  w_printed :: "bytes list"
  w_clock :: int

definition buf_write :: "cmd_world io_writer" where
  "buf_write s d = (length d, None, s\<lparr>w_buf := w_buf s @ d\<rparr>)"

definition conn_write_all :: "cmd_world io_writer" where
  "conn_write_all s d = (length d, None, s\<lparr>w_conn := w_conn s @ d\<rparr>)"

definition w_out :: "cmd_world \<Rightarrow> bytes" where
  "w_out s = w_conn s @ w_buf s"

definition cmd_env :: "bool \<Rightarrow> bool \<Rightarrow> int \<Rightarrow> (unit, cmd_world) server_env" where
  "cmd_env echo async delay =
     (let wr = (if async then conn_write_all else buf_write);
          alloc = (\<lambda>b n. replicate n 0)
      in \<lparr>sv_handler = ServeSofaBOLT (if echo
            then echohandler plain_hessian alloc wr (\<lambda>s. s) (\<lambda>t s. s\<lparr>w_clock := w_clock s + t\<rparr>) delay
            else serve_handler plain_hessian alloc wr (\<lambda>l s. s\<lparr>w_printed := w_printed s @ [l]\<rparr>)),
          sv_write = buf_write, sv_conn_write = conn_write_all,
          sv_flush = (\<lambda>s. (None, s\<lparr>w_conn := w_conn s @ w_buf s, w_buf := []\<rparr>)),
          sv_buffered = (\<lambda>s. length (w_buf s)), sv_SetWriteDeadline = (\<lambda>t s. (None, s)),
          sv_SetReadDeadline = (\<lambda>t s. (None, s)), sv_now = w_clock, sv_pooled_request = blank,
          sv_pooled_writer = \<lparr>rw_id = 0, rw_numwrite = 0, rw_res = blank, rw_err = None,
                              rw_hijacked = False\<rparr>,
          sv_hessian = plain_hessian, sv_alloc = alloc\<rparr>)"

interpretation buffered: written_world buf_write w_out "\<lambda>_. True"
  by unfold_locales (simp add: buf_write_def w_out_def)

interpretation direct: written_world conn_write_all w_out "\<lambda>s. w_buf s = []"
  by unfold_locales (simp add: conn_write_all_def w_out_def)

definition cmd_ok :: "bool \<Rightarrow> cmd_world \<Rightarrow> bool" where
  "cmd_ok async s \<longleftrightarrow> async \<longrightarrow> w_buf s = []"

interpretation cmd: echo_server "cmd_env echo async delay" "sync_options async ms" w_out "cmd_ok async"
proof
  fix s and rw :: "unit response_writer" and q :: "unit request"
  let ?env = "cmd_env echo async delay"
  show "alloc_ok (sv_alloc ?env)" by (simp add: cmd_env_def Let_def alloc_ok_def)
  show "\<exists>t' s'. flushWrite ?env (sync_options async ms) t s = (t', None, s') \<and> cmd_ok async s' \<and> w_out s' = w_out s"
    if "cmd_ok async s" for t
    using that by (simp add: flushWrite_def flush_def sync_options_def cmd_env_def Let_def cmd_ok_def w_out_def)
  assume a: "cmd_ok async s" "rw_numwrite rw = 0" "c_proto (m_command (rw_res rw)) \<in> {0, 1, 2}"
    "c_typ (m_command (rw_res rw)) = TypeBOLTResponse"
  have al: "alloc_ok (\<lambda>b n. replicate n 0)" by (simp add: alloc_ok_def)
  show "\<exists>rw' s'. sv_handler ?env rw q s = (rw', s') \<and> 0 < rw_numwrite rw' \<and>
      rw_hijacked rw' = rw_hijacked rw \<and> c_typ (m_command (rw_res rw')) = TypeBOLTResponse \<and>
      rw_id rw' = rw_id rw \<and> cmd_ok async s' \<and>
      w_out s' = w_out s @ bolt_frame ((m_command (rw_res rw))\<lparr>c_content := c_content (m_command q)\<rparr>)"
  proof (cases async)
    case True
    with a direct.echohandler_answers [OF al _ a(2-4)] direct.serve_handler_answers [OF al _ a(2-4)]
    show ?thesis by (simp add: cmd_env_def cmd_ok_def Let_def w_out_def)
  next
    case False
    with a buffered.echohandler_answers [OF al _ a(2-4)] buffered.serve_handler_answers [OF al _ a(2-4)]
    show ?thesis by (simp add: cmd_env_def cmd_ok_def Let_def w_out_def)
  qed
qed

subsection \<open>Properties\<close>


definition cmd_start :: "bytes list \<Rightarrow> (unit, bytes list, cmd_world) serve_state" where
  "cmd_start r = \<lparr>ss_reader = r, ss_req = blank, ss_rw = sv_pooled_writer (cmd_env True False 0),
     ss_requests = 0, ss_lastFlushTime = 0, ss_jobs = [],
     ss_metrics = \<lparr>met_numwrite = 0, met_numread = 0, met_commands = 0, met_pendingcommands = 0,
       met_connections = 0, met_pendingconnections = 0\<rparr>,
     ss_world = \<lparr>w_conn = [], w_buf = [], w_printed = [], w_clock = 0\<rparr>\<rparr>"


end
