(* ===== verification/Rpc.thy ===== *)
theory Rpc
  imports Echo Client_Safety
begin

text \<open>
  A remote call through everything: the read loop of the client of src/sofabolt/client.go over real
  frames, and its composition with the server. The machine of theory \<open>Client\<close> and the server of
  theory \<open>Server\<close> share nothing but the bytes each writes and the other reads.
\<close>

subsection \<open>The read loop of the client\<close>

text \<open>\<open>InvokeContext.Invoke\<close> as a whole; \<open>None\<close> when the channel has no room.\<close>

definition deliver :: "'x client_env \<Rightarrow> 'x client \<Rightarrow> 'x client option" where
  "deliver env c =
     (case cl_reader c of
        Delivering p res \<Rightarrow>
          let c = Invoke p res c
          in (case cl_reader c of Sending q \<Rightarrow> Invoke_send q c | _ \<Rightarrow> Some c)
      | _ \<Rightarrow> Some c)"

text \<open>
  \<open>READLOOP\<close> of \<open>doread\<close> on a reader of the connection, until a read fails; \<open>cmd\<close> is the command
  variable of the loop, which every round resets and reads into.
\<close>

partial_function (option) client_readloop ::
  "'x client_env \<Rightarrow> 'r read_helper \<Rightarrow> bytes \<Rightarrow> 'r \<Rightarrow> command \<Rightarrow> 'x client \<Rightarrow> ('r \<times> 'x client) option"
  where
  "client_readloop env rh b32 r cmd c =
     (case ReadCommand rh b32 r (Command_Reset cmd) of
        None \<Rightarrow> None
      | Some (nr, Some err, cmd, r) \<Rightarrow> Some (r, set_reader (Cleaning err) c)
      | Some (nr, None, cmd, r) \<Rightarrow>
          Option.bind (read_returns env nr cmd c) (\<lambda>c.
          Option.bind (deliver env c) (\<lambda>c. client_readloop env rh b32 r cmd c)))"

text \<open>Every round is a run of the client of theory \<open>Client\<close>.\<close>

lemma deliver_run:
  assumes "deliver env c = Some c'"
  shows "\<exists>as. client_run env as c = Some c'"
proof (cases "cl_reader c")
  case (Delivering p res)
  show ?thesis
  proof (cases "cl_reader (Invoke p res c)")
    case (Sending q)
    with assms Delivering have "client_run env [Run_reader, Run_reader] c = Some c'"
      by (simp add: deliver_def client_act_def reader_step_def)
    then show ?thesis by blast
  qed (use assms Delivering in \<open>auto simp: deliver_def client_act_def reader_step_def
      intro: exI [of _ "[Run_reader]"]\<close>)
qed (use assms in \<open>auto simp: deliver_def intro: exI [of _ "[]"]\<close>)

lemma turn_run:
  assumes "read_returns env nr cmd c = Some c1" and "deliver env c1 = Some c2"
  shows "\<exists>as. client_run env as c = Some c2"
proof -
  obtain as where "client_run env as c1 = Some c2" using deliver_run [OF assms(2)] by blast
  with assms(1) have "client_run env (Read_command nr cmd # as) c = Some c2"
    by (simp add: client_act_def)
  then show ?thesis by blast
qed

subsection \<open>A response reaches its call\<close>

text \<open>The call \<open>i\<close> waits, with its context registered under its id.\<close>

definition awaits :: "'x client \<Rightarrow> nat \<Rightarrow> bool" where
  "awaits c i \<longleftrightarrow> (let k = cl_calls c i; x = cl_ictxs c (cc_ictx k) in
     i < cl_ncalls c \<and> cc_phase k = Waiting \<and> \<not> cc_callback k \<and>
     map_of (cl_requests c) (cc_rid k) = Some (cc_ictx k) \<and>
     \<not> ic_callback x \<and> ic_errCh x = Some [])"

text \<open>The call \<open>i\<close> has its response \<open>cmd\<close>, but was not scheduled since.\<close>

definition answered_with :: "'x client \<Rightarrow> command \<Rightarrow> nat \<Rightarrow> bool" where
  "answered_with c cmd i \<longleftrightarrow> (let k = cl_calls c i; x = cl_ictxs c (cc_ictx k) in
     i < cl_ncalls c \<and> cc_phase k = Waiting \<and> \<not> cc_callback k \<and> ic_errCh x = Some [None] \<and>
     c_rid (m_command (ic_ires x)) = c_rid cmd \<and> c_typ (m_command (ic_ires x)) = c_typ cmd \<and>
     c_content (m_command (ic_ires x)) = c_content cmd)"

lemma turn_answers:
  assumes "cl_reader c = Reading" and "awaits c i" and "c_rid cmd = cc_rid (cl_calls c i)"
    and "\<not> IsRequest cmd" and "c_proto cmd \<noteq> ProtoTBRemoting"
  shows "\<exists>c1 c2. read_returns env nr cmd c = Some c1 \<and> deliver env c1 = Some c2 \<and>
    cl_reader c2 = Reading \<and> cl_calls c2 = cl_calls c \<and> cl_ncalls c2 = cl_ncalls c \<and>
    answered_with c2 cmd i \<and>
    cl_requests c2 = AList.delete (c_rid cmd) (cl_requests c) \<and>
    (\<forall>p. p \<noteq> cc_ictx (cl_calls c i) \<longrightarrow> cl_ictxs c2 p = cl_ictxs c p)"
  using assms
  by (simp add: read_returns_def handleResponse_def getAndDelRequestContext_def GetRequestID_def
      awaits_def deliver_def Invoke_def Invoke_send_def set_reader_def set_ictx_def answered_with_def
      AssignResponse_def Message_CopyTo_def CopyCommand_def set_command_def Command_CopyTo_def Let_def)

lemma caller_returns:
  assumes "answered_with c cmd i"
  shows "\<exists>c'. client_run env [Run i, Run i, Run i] c = Some c' \<and> phase_of c' i = Returned None \<and>
    c_rid (m_command (cc_res (cl_calls c' i))) = c_rid cmd \<and>
    c_content (m_command (cc_res (cl_calls c' i))) = c_content cmd \<and>
    cl_ncalls c' = cl_ncalls c \<and> cl_ictxs c' = (cl_ictxs c)(cc_ictx (cl_calls c i) :=
      (cl_ictxs c (cc_ictx (cl_calls c i)))\<lparr>ic_errCh := Some []\<rparr>) \<and>
    (\<forall>j. j \<noteq> i \<longrightarrow> cl_calls c' j = cl_calls c j)"
  using assms
  by (simp add: answered_with_def client_act_def invoke_step_def Let_def set_call_def set_ictx_def
      finish_call_def Message_CopyTo_def CopyCommand_def set_command_def Command_CopyTo_def)

text \<open>What \<open>doread\<close> reads of a frame does not depend on the command it read before.\<close>

lemma recv_Command_Reset:
  "recv_v1 q (Command_Reset c0) = recv_v1 q Command_zero"
  "recv_v2 q (Command_Reset c0) = recv_v2 q Command_zero"
  by (simp_all add: recv_v1_def recv_v2_def recv_v2_plain_def with_body_def Command_Reset_zero
      Command_zero_def)

definition wire_command :: "command \<Rightarrow> bool" where
  "wire_command q \<longleftrightarrow> wire_ok q \<and> c_proto q \<in> {0, 1, 2} \<and> c_typ q \<in> {0, 1, 2}"

lemma read_wire_command:
  assumes "reader_contract rh avail" and "length b32 = 32" and "wire_command q"
    and "avail r = bolt_frame q @ rest"
  shows "\<exists>n r'. ReadCommand rh b32 r (Command_Reset c0) = Some (n, None, received q, r') \<and> avail r' = rest"
proof -
  have h: "c_headers (Command_Reset c0) = sm_Reset (c_headers c0)" by (simp add: Command_Reset_def)
  have q: "wire_ok q" "c_typ q \<in> {0, 1, 2}" using assms(3) by (simp_all add: wire_command_def)
  show ?thesis
  proof (cases "c_proto q = ProtoBOLTV2")
    case True
    with reader_contract.read_frame [OF assms(1,2), of r "frame_v2 q" rest "Command_Reset c0"]
      parse_frame_v2 [OF q(1) h True q(2), of rest] assms(4)
    show ?thesis by (auto simp: bolt_frame_def received_def recv_Command_Reset)
  next
    case False
    then have p: "c_proto q \<in> {0, 1}" using assms(3) by (auto simp: wire_command_def)
    with False reader_contract.read_frame [OF assms(1,2), of r "frame_v1 q" rest "Command_Reset c0"]
      parse_frame_v1 [OF q(1) h p q(2), of rest] assms(4)
    show ?thesis by (auto simp: bolt_frame_def received_def recv_Command_Reset)
  qed
qed

lemma received_id [simp]: "c_rid (received q) = c_rid q" "c_content (received q) = c_content q"
  by (simp_all add: received_def recv_v1_def recv_v2_def recv_v2_plain_def with_body_def)

text \<open>
  Responses to waiting calls, each to another one, in any order: the loop delivers them all and
  then fails with the end of the stream. \<open>f\<close> gives the call of an id.
\<close>

lemma readloop_answers:
  assumes "reader_contract rh avail" and "length b32 = 32"
  shows "list_all (\<lambda>q. wire_command q \<and> c_typ q = TypeBOLTResponse) qs \<Longrightarrow>
    avail r = concat (map bolt_frame qs) \<Longrightarrow> cl_reader c = Reading \<Longrightarrow> distinct (map c_rid qs) \<Longrightarrow>
    inj_on (\<lambda>q. cc_ictx (cl_calls c (f (c_rid q)))) (set qs) \<Longrightarrow>
    \<forall>q \<in> set qs. awaits c (f (c_rid q)) \<and> cc_rid (cl_calls c (f (c_rid q))) = c_rid q \<Longrightarrow>
    \<exists>r' c' as. client_readloop env rh b32 r cmd c = Some (r', c') \<and> client_run env as c = Some c' \<and>
      cl_calls c' = cl_calls c \<and> cl_ncalls c' = cl_ncalls c \<and>
      (\<forall>p. p \<notin> (\<lambda>q. cc_ictx (cl_calls c (f (c_rid q)))) ` set qs \<longrightarrow> cl_ictxs c' p = cl_ictxs c p) \<and>
      (\<forall>q \<in> set qs. answered_with c' (received q) (f (c_rid q)))"
proof (induction qs arbitrary: r c cmd)
  case Nil
  then obtain e cmd' r' where "ReadCommand rh b32 r (Command_Reset cmd) = Some (0, Some e, cmd', r')"
    using reader_contract.read_short_frame [OF assms, of "Command_Reset cmd" r]
    by (auto simp: parse_command_def)
  then have "client_readloop env rh b32 r cmd c = Some (r', set_reader (Cleaning e) c)"
    by (subst client_readloop.simps) simp
  moreover have "client_run env [Read_fails e] c = Some (set_reader (Cleaning e) c)"
    using Nil.prems(3) by (simp add: client_act_def)
  ultimately show ?case by (fastforce simp: set_reader_def)
next
  case (Cons q qs)
  let ?i = "f (c_rid q)" and ?p = "\<lambda>q. cc_ictx (cl_calls c (f (c_rid q)))"
  have q: "wire_command q" "c_typ q = TypeBOLTResponse" "awaits c ?i" "cc_rid (cl_calls c ?i) = c_rid q"
    using Cons.prems(1,6) by simp_all
  from Cons.prems(2) have "avail r = bolt_frame q @ concat (map bolt_frame qs)" by simp
  then obtain n r1 where rd: "ReadCommand rh b32 r (Command_Reset cmd) = Some (n, None, received q, r1)"
    and av: "avail r1 = concat (map bolt_frame qs)"
    using read_wire_command [OF assms q(1)] by blast
  have "\<not> IsRequest (received q)" "c_proto (received q) \<noteq> ProtoTBRemoting"
    using q(1,2) by (auto simp: IsRequest_def wire_command_def)
  then obtain c1 c2 where c1: "read_returns env n (received q) c = Some c1" "deliver env c1 = Some c2"
    and c2: "cl_reader c2 = Reading" "cl_calls c2 = cl_calls c" "cl_ncalls c2 = cl_ncalls c"
      "answered_with c2 (received q) ?i" "cl_requests c2 = AList.delete (c_rid q) (cl_requests c)"
      "\<And>p. p \<noteq> ?p q \<Longrightarrow> cl_ictxs c2 p = cl_ictxs c p"
    using turn_answers [OF Cons.prems(3) q(3), of "received q" env n] q(4) by auto
  have other: "?p q' \<noteq> ?p q" "c_rid q' \<noteq> c_rid q" if "q' \<in> set qs" for q'
  proof -
    have "c_rid q \<notin> c_rid ` set qs" using Cons.prems(4) by simp
    with that show n: "c_rid q' \<noteq> c_rid q" by (metis image_eqI)
    then have "q' \<noteq> q" by auto
    with Cons.prems(5) that show "?p q' \<noteq> ?p q" by (auto simp: inj_on_def)
  qed
  have aw: "\<forall>q' \<in> set qs. awaits c2 (f (c_rid q')) \<and> cc_rid (cl_calls c2 (f (c_rid q'))) = c_rid q'"
    using Cons.prems(6) other c2 by (auto simp: awaits_def Let_def delete_conv')
  have inj: "inj_on (\<lambda>q. cc_ictx (cl_calls c2 (f (c_rid q)))) (set qs)"
    using Cons.prems(5) c2(2) by (simp add: inj_on_def)
  obtain r' c' as where IH: "client_readloop env rh b32 r1 (received q) c2 = Some (r', c')"
    "client_run env as c2 = Some c'" "cl_calls c' = cl_calls c2" "cl_ncalls c' = cl_ncalls c2"
    "\<And>p. p \<notin> (\<lambda>q. cc_ictx (cl_calls c2 (f (c_rid q)))) ` set qs \<Longrightarrow> cl_ictxs c' p = cl_ictxs c2 p"
    "\<And>q. q \<in> set qs \<Longrightarrow> answered_with c' (received q) (f (c_rid q))"
    using Cons.IH [OF _ av c2(1) _ inj aw, of "received q"] Cons.prems(1,4) by auto
  obtain bs where "client_run env bs c = Some c2" using turn_run [OF c1] by blast
  then have run: "client_run env (bs @ as) c = Some c'" using IH(2) by (simp add: client_run_append)
  have loop: "client_readloop env rh b32 r cmd c = Some (r', c')"
    using IH(1) c1 by (subst client_readloop.simps) (simp add: rd)
  have "?p q \<notin> ?p ` set qs" by (metis (no_types, lifting) imageE other(1))
  then have "cl_ictxs c' (?p q) = cl_ictxs c2 (?p q)" using IH(5) c2(2) by simp
  then have "answered_with c' (received q) ?i"
    using c2(2-4) IH(3,4) by (simp add: answered_with_def)
  with IH(5,6) c2 have "\<forall>q' \<in> set (q # qs). answered_with c' (received q') (f (c_rid q'))"
    "\<And>p. p \<notin> ?p ` set (q # qs) \<Longrightarrow> cl_ictxs c' p = cl_ictxs c p" by auto
  with loop run c2 IH(3,4) show ?case by (intro exI [of _ r'] exI [of _ c'] exI [of _ "bs @ as"]) simp
qed

subsection \<open>Concurrent calls\<close>

text \<open>The call number \<open>i\<close>, \<open>Do\<close> or \<open>DoTimeout\<close>, from its start until it waits for its response.\<close>

definition send_call :: "bool \<Rightarrow> 'x response \<Rightarrow> nat \<Rightarrow> 'x request \<Rightarrow> 'x action list" where
  "send_call timeout res i req = [Do req res timeout None, Run i, Run i, Run i, Run i, Write_returns i None]"

fun send_calls :: "bool \<Rightarrow> 'x response \<Rightarrow> nat \<Rightarrow> 'x request list \<Rightarrow> 'x action list" where
  "send_calls timeout res i [] = []"
| "send_calls timeout res i (req # reqs) =
     send_call timeout res i req @ send_calls timeout res (Suc i) reqs"

text \<open>The command of a request as it is sent with the id \<open>i\<close>.\<close>

definition with_rid :: "'x request \<Rightarrow> nat \<Rightarrow> command" where
  "with_rid req i = (m_command req)\<lparr>c_rid := word_of_nat (Suc i)\<rparr>"

definition rpc_request :: "'x request \<Rightarrow> bool" where
  "rpc_request req \<longleftrightarrow> wire_ok (m_command req) \<and> c_proto (m_command req) \<in> {0, 1, 2} \<and>
     c_typ (m_command req) = TypeBOLTRequest"

definition sent :: "'x request list \<Rightarrow> 'x client \<Rightarrow> bool" where
  "sent reqs c \<longleftrightarrow> cl_ncalls c = length reqs \<and> cl_nictxs c = length reqs \<and>
     cl_rid c = word_of_nat (length reqs) \<and> cl_reader c = Reading \<and> \<not> cl_closed c \<and> cl_rerr c = None \<and>
     (\<forall>i < length reqs. awaits c i \<and> cc_ictx (cl_calls c i) = i \<and>
        cc_rid (cl_calls c i) = word_of_nat (Suc i)) \<and>
     map snd (cl_written c) = map (\<lambda>i. bolt_frame (with_rid (reqs ! i) i)) [0..<length reqs]"

lemma id_distinct:
  assumes "i < 4294967296" and "j < 4294967296" and "i \<noteq> j"
  shows "(word_of_nat (Suc i) :: 32 word) \<noteq> word_of_nat (Suc j)"
proof
  assume "(word_of_nat (Suc i) :: 32 word) = word_of_nat (Suc j)"
  then have "(word_of_nat i :: 32 word) = word_of_nat j" by simp
  then have "unat (word_of_nat i :: 32 word) = unat (word_of_nat j :: 32 word)" by simp
  with assms show False by (simp add: unat_of_nat take_bit_nat_eq_self)
qed

lemma rpc_numbered:
  assumes "rpc_request req" and "alloc_ok alloc"
  shows "Message_Write h alloc [] (Request_SetRequestID (word_of_nat (Suc i)) req) =
    Some (Inr (bolt_frame (with_rid req i)), Request_SetRequestID (word_of_nat (Suc i)) req)"
    "m_command (Request_SetRequestID (word_of_nat (Suc i)) req) = with_rid req i"
    "bolt_request (with_rid req i)"
proof -
  show m: "m_command (Request_SetRequestID (word_of_nat (Suc i)) req) = with_rid req i"
    using assms(1) by (auto simp: rpc_request_def Request_SetRequestID_def set_command_def with_rid_def)
  show "bolt_request (with_rid req i)"
    using assms(1) by (auto simp: rpc_request_def with_rid_def bolt_request_def wire_ok_def)
  have "write_spec (with_rid req i) = Inr (bolt_frame (with_rid req i))"
    "c_proto (with_rid req i) \<noteq> ProtoTBRemoting"
    using assms(1) by (auto simp: rpc_request_def with_rid_def write_spec_def bolt_frame_def)
  with m Message_Write_bolt [OF assms(2), of "Request_SetRequestID (word_of_nat (Suc i)) req" h "[]"]
  show "Message_Write h alloc [] (Request_SetRequestID (word_of_nat (Suc i)) req) =
    Some (Inr (bolt_frame (with_rid req i)), Request_SetRequestID (word_of_nat (Suc i)) req)"
    by simp
qed

lemma send_one:
  assumes "sent reqs c" and "rpc_request req" and "alloc_ok (ce_alloc env)"
    and "\<not> ce_disableAutoIncrementRequestID env" and "length reqs < 4294967296"
  shows "\<exists>c'. client_run env (send_call timeout res (length reqs) req) c = Some c' \<and> sent (reqs @ [req]) c'"
proof -
  let ?n = "length reqs"
  note n = rpc_numbered(1) [OF assms(2,3), of "ce_hessian env" "length reqs"]
    rpc_numbered(2,3) [OF assms(2,3), of "length reqs"]
  have t: "c_typ (m_command req) = 1" using assms(2) by (simp add: rpc_request_def)
  have t': "c_typ (with_rid req ?n) = 1" using t by (simp add: with_rid_def)
  have s: "cl_ncalls c = ?n" "cl_nictxs c = ?n" "cl_rid c = word_of_nat ?n" "\<not> cl_closed c"
    "cl_rerr c = None" "cl_reader c = Reading"
    and aw: "\<And>i. i < ?n \<Longrightarrow> awaits c i \<and> cc_ictx (cl_calls c i) = i \<and>
        cc_rid (cl_calls c i) = word_of_nat (Suc i)"
    and w: "map snd (cl_written c) = map (\<lambda>i. bolt_frame (with_rid (reqs ! i) i)) [0..<?n]"
    using assms(1) by (simp_all add: sent_def)
  have num: "word_of_nat ?n + 1 = (word_of_nat (Suc ?n) :: 32 word)" by simp
  obtain c' where run: "client_run env (send_call timeout res ?n req) c = Some c'"
    and c': "cl_ncalls c' = Suc ?n" "cl_nictxs c' = Suc ?n" "cl_rid c' = word_of_nat (Suc ?n)"
      "\<not> cl_closed c'" "cl_rerr c' = None" "cl_reader c' = Reading"
      "cl_written c' = cl_written c @ [(cl_conn c, bolt_frame (with_rid req ?n))]"
      "cl_requests c' = AList.update (word_of_nat (Suc ?n)) ?n (cl_requests c)"
      "cc_phase (cl_calls c' ?n) = Waiting" "\<not> cc_callback (cl_calls c' ?n)"
      "cc_ictx (cl_calls c' ?n) = ?n" "cc_rid (cl_calls c' ?n) = word_of_nat (Suc ?n)"
      "\<not> ic_callback (cl_ictxs c' ?n)" "ic_errCh (cl_ictxs c' ?n) = Some []"
      "\<And>i. i \<noteq> ?n \<Longrightarrow> cl_calls c' i = cl_calls c i" "\<And>i. i \<noteq> ?n \<Longrightarrow> cl_ictxs c' i = cl_ictxs c i"
    using s t t' n assms(4)
    by (simp add: send_call_def client_act_def DoTimeout_def AcquireInvokeContext_def add_call_def
        invoke_step_def number_request_def assign_id_def write_returns_def addRequestContext_def
        set_ictx_def set_call_def ictx_new_def Let_def num)
  have "awaits c' i \<and> cc_ictx (cl_calls c' i) = i \<and> cc_rid (cl_calls c' i) = word_of_nat (Suc i)"
    if "i < Suc ?n" for i
  proof (cases "i = ?n")
    case True
    with c' show ?thesis by (simp add: awaits_def AList.update_conv')
  next
    case False
    with that have i: "i < ?n" by simp
    have "(word_of_nat (Suc i) :: 32 word) \<noteq> word_of_nat (Suc ?n)"
      by (rule id_distinct) (use i assms(5) in auto)
    with aw [OF i] False c' i show ?thesis
      by (auto simp: awaits_def AList.update_conv' Let_def simp del: of_nat_Suc)
  qed
  moreover have "map (\<lambda>i. bolt_frame (with_rid (reqs ! i) i)) [0..<?n] =
      map (\<lambda>i. bolt_frame (with_rid ((reqs @ [req]) ! i) i)) [0..<?n]"
    by (simp add: nth_append)
  ultimately have "sent (reqs @ [req]) c'" using c'(1-7) w by (simp add: sent_def)
  with run show ?thesis by blast
qed

lemma send_all:
  assumes "alloc_ok (ce_alloc env)" and "\<not> ce_disableAutoIncrementRequestID env"
  shows "sent sofar c \<Longrightarrow> list_all rpc_request reqs \<Longrightarrow> length sofar + length reqs \<le> 4294967296 \<Longrightarrow>
    \<exists>c'. client_run env (send_calls timeout res (length sofar) reqs) c = Some c' \<and> sent (sofar @ reqs) c'"
proof (induction reqs arbitrary: sofar c)
  case (Cons req reqs)
  then obtain c1 where "client_run env (send_call timeout res (length sofar) req) c = Some c1"
    and c1: "sent (sofar @ [req]) c1"
    using send_one [OF Cons.prems(1) _ assms, of req timeout res] by auto
  moreover obtain c' where "client_run env (send_calls timeout res (length (sofar @ [req])) reqs) c1 = Some c'"
    "sent ((sofar @ [req]) @ reqs) c'"
    using Cons.IH [OF c1] Cons.prems(2,3) by auto
  ultimately show ?case by (simp add: client_run_append)
qed simp

lemma sent_start: "sent [] (NewClient env conn)"
  by (simp add: sent_def NewClient_def)

text \<open>The waiting calls, when they run on.\<close>

fun return_calls :: "nat \<Rightarrow> 'x action list" where
  "return_calls 0 = []"
| "return_calls (Suc n) = return_calls n @ [Run n, Run n, Run n]"

definition returned_with :: "'x client \<Rightarrow> nat \<Rightarrow> 32 word \<Rightarrow> bytes \<Rightarrow> bool" where
  "returned_with c i rid content \<longleftrightarrow> phase_of c i = Returned None \<and>
     c_rid (m_command (cc_res (cl_calls c i))) = rid \<and> c_content (m_command (cc_res (cl_calls c i))) = content"

lemma callers_return:
  "\<forall>i < N. answered_with c (cmd i) i \<and> cc_ictx (cl_calls c i) = i \<Longrightarrow> n \<le> N \<Longrightarrow>
   \<exists>c'. client_run env (return_calls n) c = Some c' \<and> cl_ncalls c' = cl_ncalls c \<and>
     (\<forall>i < n. returned_with c' i (c_rid (cmd i)) (c_content (cmd i))) \<and>
     (\<forall>i \<ge> n. cl_calls c' i = cl_calls c i \<and> cl_ictxs c' i = cl_ictxs c i)"
proof (induction n)
  case (Suc n)
  then obtain c1 where r: "client_run env (return_calls n) c = Some c1" "cl_ncalls c1 = cl_ncalls c"
    and ret: "\<And>i. i < n \<Longrightarrow> returned_with c1 i (c_rid (cmd i)) (c_content (cmd i))"
    and same: "\<And>i. i \<ge> n \<Longrightarrow> cl_calls c1 i = cl_calls c i \<and> cl_ictxs c1 i = cl_ictxs c i"
    by (auto simp: Suc_le_eq)
  have n: "answered_with c (cmd n) n" "cc_ictx (cl_calls c n) = n" using Suc.prems by auto
  then have "answered_with c1 (cmd n) n" using same [of n] r(2) by (simp add: answered_with_def)
  from caller_returns [OF this, of env] n(2) same [of n] obtain c' where
    c': "client_run env [Run n, Run n, Run n] c1 = Some c'" "returned_with c' n (c_rid (cmd n)) (c_content (cmd n))"
      "cl_ncalls c' = cl_ncalls c1" "\<And>j. j \<noteq> n \<Longrightarrow> cl_calls c' j = cl_calls c1 j"
      "\<And>p. p \<noteq> n \<Longrightarrow> cl_ictxs c' p = cl_ictxs c1 p"
    by (auto simp: returned_with_def)
  have "returned_with c' i (c_rid (cmd i)) (c_content (cmd i))" if "i < Suc n" for i
    using that c'(2,4) ret [of i] by (cases "i = n") (auto simp: returned_with_def)
  with r c' same show ?case by (auto simp: client_run_append simp del: client_run.simps)
qed simp

subsection \<open>The round trip\<close>

lemma calls_answered:
  assumes "sent reqs c" and "length reqs \<le> 4294967296" and "list_all rpc_request reqs"
    and "reader_contract rh avail" and "length b32 = 32"
    and "mset qs = mset (map (\<lambda>i. with_rid (reqs ! i) i) [0..<length reqs])"
    and "avail r = concat (map (\<lambda>q. bolt_frame (echo_response q)) qs)"
  shows "\<exists>r' c' as. client_readloop env rh b32 r cmd c = Some (r', c') \<and> client_run env as c = Some c' \<and>
    (\<forall>i < length reqs. answered_with c' (received (echo_response (with_rid (reqs ! i) i))) i \<and>
       cc_ictx (cl_calls c' i) = i)"
proof -
  let ?n = "length reqs" and ?q = "\<lambda>i. with_rid (reqs ! i) i"
  let ?f = "\<lambda>w :: 32 word. unat (w - 1)"
  have f: "?f (word_of_nat (Suc i)) = i" if "i < ?n" for i
    using that assms(2) by (simp add: unat_of_nat take_bit_nat_eq_self)
  have set: "set qs = ?q ` {..<?n}" using mset_eq_setD [OF assms(6)] by auto
  have rid: "c_rid (?q i) = word_of_nat (Suc i)" for i by (simp add: with_rid_def)
  have er: "c_rid (echo_response q) = c_rid q" for q by (simp add: echo_response_def)
  have rq: "bolt_request (?q i)" if "i < ?n" for i
    using assms(3) that rpc_numbered(3) [of "reqs ! i" "\<lambda>b n. replicate n 0" i]
    by (simp add: list_all_length alloc_ok_def)
  have w: "list_all (\<lambda>q. wire_command q \<and> c_typ q = TypeBOLTResponse) (map echo_response qs)"
    using echo_response_ok [OF rq] by (auto simp: list_all_iff set wire_command_def)
  have "distinct (map (\<lambda>i. word_of_nat (Suc i) :: 32 word) [0..<?n])"
    using assms(2) by (auto simp: distinct_map inj_on_def simp del: of_nat_Suc)
      (meson id_distinct order_less_le_trans)
  moreover have "mset (map c_rid qs) = mset (map (\<lambda>i. word_of_nat (Suc i)) [0..<?n])"
    using arg_cong [OF assms(6), of "image_mset c_rid"]
    by (simp add: rid multiset.map_comp comp_def del: of_nat_Suc)
  ultimately have d: "distinct (map c_rid (map echo_response qs))"
    by (metis (no_types, lifting) er map_map comp_def map_eq_conv mset_eq_imp_distinct_iff)
  have aw: "awaits c i" "cc_ictx (cl_calls c i) = i" "cc_rid (cl_calls c i) = word_of_nat (Suc i)"
    if "i < ?n" for i using assms(1) that by (simp_all add: sent_def del: of_nat_Suc)
  have fi: "?f (c_rid (echo_response (?q i))) = i" if "i < ?n" for i
    using f [OF that] by (simp add: er rid del: of_nat_Suc)
  have each: "\<forall>q \<in> set (map echo_response qs). awaits c (?f (c_rid q)) \<and>
      cc_rid (cl_calls c (?f (c_rid q))) = c_rid q"
    using aw fi by (auto simp: set er rid simp del: of_nat_Suc)
  have inj: "inj_on (\<lambda>q. cc_ictx (cl_calls c (?f (c_rid q)))) (set (map echo_response qs))"
    using aw(2) fi by (auto simp: inj_on_def set)
  have rd: "cl_reader c = Reading" using assms(1) by (simp add: sent_def)
  have av: "avail r = concat (map bolt_frame (map echo_response qs))" using assms(7) by (simp add: comp_def)
  from readloop_answers [OF assms(4,5) w av rd d inj each, of env cmd] obtain r' c' as where
    l: "client_readloop env rh b32 r cmd c = Some (r', c')" "client_run env as c = Some c'"
      "cl_calls c' = cl_calls c"
    and a: "\<forall>q \<in> set (map echo_response qs). answered_with c' (received q) (?f (c_rid q))" by blast
  have "answered_with c' (received (echo_response (?q i))) i" if "i < ?n" for i
  proof -
    have "echo_response (?q i) \<in> set (map echo_response qs)" using that by (simp add: set)
    from bspec [OF a this] show ?thesis by (simp only: fi [OF that])
  qed
  with l aw(2) show ?thesis by fastforce
qed

lemma calls_round_trip:
  assumes "echo_server env o' out ok" and "ok (ss_world st)" and "out (ss_world st) = []"
    and "reader_contract rh avail" and "\<And>d. avail (connect d) = d" and "length b32 = 32"
    and "c_typ (m_command (rw_res (ss_rw st))) = TypeBOLTResponse" and "ss_jobs st = []"
    and "\<And>js. mset (order js) = mset js"
    and "rw_numwrite (sv_pooled_writer env) = 0" and "clean (m_command (rw_res (sv_pooled_writer env)))"
    and "reader_contract rh' avail'" and "\<And>d. avail' (connect' d) = d"
    and "alloc_ok (ce_alloc cenv)" and "\<not> ce_disableAutoIncrementRequestID cenv"
    and "list_all rpc_request reqs" and "length reqs < 2 ^ 32"
  shows "\<exists>c1 e st' r' c2 as c3.
    client_run cenv (send_calls timeout res 0 reqs) (NewClient cenv conn) = Some c1 \<and>
    serveConn env o' rh b32 order (Suc (length reqs))
      (st\<lparr>ss_reader := connect (concat (map snd (cl_written c1)))\<rparr>) = Some (False, Some e, st') \<and>
    client_readloop cenv rh' b32 (connect' (out (ss_world st'))) Command_zero c1 = Some (r', c2) \<and>
    client_run cenv as c1 = Some c2 \<and>
    client_run cenv (return_calls (length reqs)) c2 = Some c3 \<and>
    (\<forall>i < length reqs. returned_with c3 i (word_of_nat (Suc i)) (c_content (m_command (reqs ! i))))"
proof -
  let ?qs = "map (\<lambda>i. with_rid (reqs ! i) i) [0..<length reqs]"
  obtain c1 where send: "client_run cenv (send_calls timeout res 0 reqs) (NewClient cenv conn) = Some c1"
    and c1: "sent reqs c1"
    using send_all [OF assms(14,15) sent_start [of cenv conn] assms(16), where res = res and timeout = timeout] assms(17) by auto
  have w: "concat (map snd (cl_written c1)) = concat (map bolt_frame ?qs)"
    using c1 by (simp add: sent_def comp_def)
  let ?st = "st\<lparr>ss_reader := connect (concat (map snd (cl_written c1)))\<rparr>"
  have q: "list_all bolt_request ?qs"
    using assms(14,16) rpc_numbered(3) by (fastforce simp: list_all_iff list_all_length)
  have st: "ok (ss_world ?st)" "c_typ (m_command (rw_res (ss_rw ?st))) = TypeBOLTResponse"
    "ss_jobs ?st = []" "out (ss_world ?st) = []" using assms(2,3,7,8) by simp_all
  have av: "avail (ss_reader ?st) = concat (map bolt_frame ?qs)" by (simp add: assms(5) w)
  from echo_server.serveConn_answers [OF assms(1,4,6) q av st(1-3) assms(9-11)]
  obtain e st' qs' where serve: "serveConn env o' rh b32 order (Suc (length reqs)) ?st = Some (False, Some e, st')"
    and qs': "mset qs' = mset ?qs"
    and o: "out (ss_world st') = concat (map (\<lambda>q. bolt_frame (echo_response q)) qs')"
    using st(4) by auto
  have "avail' (connect' (out (ss_world st'))) = concat (map (\<lambda>q. bolt_frame (echo_response q)) qs')"
    by (simp add: assms(13) o)
  with calls_answered [OF c1 _ assms(16,12,6) qs', of "connect' (out (ss_world st'))" cenv Command_zero]
    assms(17)
  obtain r' c2 as where loop: "client_readloop cenv rh' b32 (connect' (out (ss_world st'))) Command_zero c1 = Some (r', c2)"
    "client_run cenv as c1 = Some c2"
    and a: "\<forall>i < length reqs. answered_with c2 (received (echo_response (with_rid (reqs ! i) i))) i \<and>
       cc_ictx (cl_calls c2 i) = i"
    by (auto simp del: of_nat_Suc)
  from callers_return [OF a order_refl, of cenv] obtain c3 where
    ret: "client_run cenv (return_calls (length reqs)) c2 = Some c3"
    and r: "\<And>i. i < length reqs \<Longrightarrow> returned_with c3 i (word_of_nat (Suc i)) (c_content (m_command (reqs ! i)))"
    by (auto simp: echo_response_def with_rid_def)
  show ?thesis
    by (intro exI conjI) (fact send serve loop ret | use r in blast)+
qed

subsection \<open>Properties\<close>



end
