(* ===== verification/Accessors.thy ===== *)
theory Accessors
  imports Request_Response
begin

text \<open>
  The setters through which callers fill commands, requests and responses: src/sofabolt/command.go,
  request.go and response.go; the methods of responses that repeat those of requests; and the
  context of a request. The setters of bytes copy their argument into the storage the field has,
  those of a string do the same; as values they are one update. The ids of messages are in theory
  \<open>Request_Response\<close>; getters are the selectors of the records.
\<close>

subsection \<open>Commands\<close>

definition Command_SetProto :: "byte \<Rightarrow> command \<Rightarrow> command" where
  "Command_SetProto p c = c\<lparr>c_proto := p\<rparr>"

definition Command_SetVer1 :: "byte \<Rightarrow> command \<Rightarrow> command" where
  "Command_SetVer1 v c = c\<lparr>c_ver1 := v\<rparr>"

definition Command_SetType :: "byte \<Rightarrow> command \<Rightarrow> command" where
  "Command_SetType t c = c\<lparr>c_typ := t\<rparr>"

definition Command_SetCMDCode :: "16 word \<Rightarrow> command \<Rightarrow> command" where
  "Command_SetCMDCode k c = c\<lparr>c_cmdcode := k\<rparr>"

definition Command_SetVer2 :: "byte \<Rightarrow> command \<Rightarrow> command" where
  "Command_SetVer2 v c = c\<lparr>c_ver2 := v\<rparr>"

definition Command_SetRequestID :: "32 word \<Rightarrow> command \<Rightarrow> command" where
  "Command_SetRequestID i c = c\<lparr>c_rid := i\<rparr>"

definition Command_SetCodec :: "byte \<Rightarrow> command \<Rightarrow> command" where
  "Command_SetCodec k c = c\<lparr>c_codec := k\<rparr>"

definition Command_SetSwitc :: "byte \<Rightarrow> command \<Rightarrow> command" where
  "Command_SetSwitc s c = c\<lparr>c_switc := s\<rparr>"

definition Command_SetTimeout :: "32 word \<Rightarrow> command \<Rightarrow> command" where
  "Command_SetTimeout t c = c\<lparr>c_timeout := t\<rparr>"

definition Command_SetStatus :: "16 word \<Rightarrow> command \<Rightarrow> command" where
  "Command_SetStatus s c = c\<lparr>c_status := s\<rparr>"

definition Command_SetConnection :: "bytes \<Rightarrow> command \<Rightarrow> command" where
  "Command_SetConnection b c = c\<lparr>c_connection := b\<rparr>"

definition Command_SetClass :: "bytes \<Rightarrow> command \<Rightarrow> command" where
  "Command_SetClass cls c = c\<lparr>c_class := cls\<rparr>"

definition Command_SetClassString :: "bytes \<Rightarrow> command \<Rightarrow> command" where
  "Command_SetClassString cls c = c\<lparr>c_class := cls\<rparr>"

definition Command_SetContent :: "bytes \<Rightarrow> command \<Rightarrow> command" where
  "Command_SetContent b c = c\<lparr>c_content := b\<rparr>"

definition Command_SetContentString :: "bytes \<Rightarrow> command \<Rightarrow> command" where
  "Command_SetContentString b c = c\<lparr>c_content := b\<rparr>"

subsection \<open>Requests\<close>

definition Request_SetProto :: "byte \<Rightarrow> 'x request \<Rightarrow> 'x request" where
  "Request_SetProto p c = set_command (Command_SetProto p) c"

definition Request_SetVer1 :: "byte \<Rightarrow> 'x request \<Rightarrow> 'x request" where
  "Request_SetVer1 v c = set_command (Command_SetVer1 v) c"

definition Request_SetType :: "byte \<Rightarrow> 'x request \<Rightarrow> 'x request" where
  "Request_SetType t c = set_command (Command_SetType t) c"

definition Request_SetCMDCode :: "16 word \<Rightarrow> 'x request \<Rightarrow> 'x request" where
  "Request_SetCMDCode k c = set_command (Command_SetCMDCode k) c"

definition Request_SetVer2 :: "byte \<Rightarrow> 'x request \<Rightarrow> 'x request" where
  "Request_SetVer2 v c = set_command (Command_SetVer2 v) c"

definition Request_SetCodec :: "byte \<Rightarrow> 'x request \<Rightarrow> 'x request" where
  "Request_SetCodec k c = set_command (Command_SetCodec k) c"

definition Request_SetSwitc :: "byte \<Rightarrow> 'x request \<Rightarrow> 'x request" where
  "Request_SetSwitc s c = set_command (Command_SetSwitc s) c"

definition Request_SetTimeout :: "32 word \<Rightarrow> 'x request \<Rightarrow> 'x request" where
  "Request_SetTimeout t c = set_command (Command_SetTimeout t) c"

definition Request_SetStatus :: "16 word \<Rightarrow> 'x request \<Rightarrow> 'x request" where
  "Request_SetStatus s c = set_command (Command_SetStatus s) c"

definition Request_SetConnection :: "bytes \<Rightarrow> 'x request \<Rightarrow> 'x request" where
  "Request_SetConnection b c = set_command (Command_SetConnection b) c"

definition Request_SetClass :: "bytes \<Rightarrow> 'x request \<Rightarrow> 'x request" where
  "Request_SetClass cls c = set_command (Command_SetClass cls) c"

definition Request_SetClassString :: "bytes \<Rightarrow> 'x request \<Rightarrow> 'x request" where
  "Request_SetClassString cls c = set_command (Command_SetClassString cls) c"

definition Request_SetContent :: "bytes \<Rightarrow> 'x request \<Rightarrow> 'x request" where
  "Request_SetContent b c = set_command (Command_SetContent b) c"

definition Request_SetContentString :: "bytes \<Rightarrow> 'x request \<Rightarrow> 'x request" where
  "Request_SetContentString b c = set_command (Command_SetContentString b) c"

subsection \<open>Responses\<close>

definition Response_SetProto :: "byte \<Rightarrow> 'x response \<Rightarrow> 'x response" where
  "Response_SetProto p c = set_command (Command_SetProto p) c"

definition Response_SetVer1 :: "byte \<Rightarrow> 'x response \<Rightarrow> 'x response" where
  "Response_SetVer1 v c = set_command (Command_SetVer1 v) c"

definition Response_SetType :: "byte \<Rightarrow> 'x response \<Rightarrow> 'x response" where
  "Response_SetType t c = set_command (Command_SetType t) c"

definition Response_SetCMDCode :: "16 word \<Rightarrow> 'x response \<Rightarrow> 'x response" where
  "Response_SetCMDCode k c = set_command (Command_SetCMDCode k) c"

definition Response_SetVer2 :: "byte \<Rightarrow> 'x response \<Rightarrow> 'x response" where
  "Response_SetVer2 v c = set_command (Command_SetVer2 v) c"

definition Response_SetCodec :: "byte \<Rightarrow> 'x response \<Rightarrow> 'x response" where
  "Response_SetCodec k c = set_command (Command_SetCodec k) c"

definition Response_SetSwitc :: "byte \<Rightarrow> 'x response \<Rightarrow> 'x response" where
  "Response_SetSwitc s c = set_command (Command_SetSwitc s) c"

definition Response_SetTimeout :: "32 word \<Rightarrow> 'x response \<Rightarrow> 'x response" where
  "Response_SetTimeout t c = set_command (Command_SetTimeout t) c"

definition Response_SetStatus :: "16 word \<Rightarrow> 'x response \<Rightarrow> 'x response" where
  "Response_SetStatus s c = set_command (Command_SetStatus s) c"

definition Response_SetConnection :: "bytes \<Rightarrow> 'x response \<Rightarrow> 'x response" where
  "Response_SetConnection b c = set_command (Command_SetConnection b) c"

definition Response_SetClass :: "bytes \<Rightarrow> 'x response \<Rightarrow> 'x response" where
  "Response_SetClass cls c = set_command (Command_SetClass cls) c"

definition Response_SetClassString :: "bytes \<Rightarrow> 'x response \<Rightarrow> 'x response" where
  "Response_SetClassString cls c = set_command (Command_SetClassString cls) c"

definition Response_SetContent :: "bytes \<Rightarrow> 'x response \<Rightarrow> 'x response" where
  "Response_SetContent b c = set_command (Command_SetContent b) c"

definition Response_SetContentString :: "bytes \<Rightarrow> 'x response \<Rightarrow> 'x response" where
  "Response_SetContentString b c = set_command (Command_SetContentString b) c"

subsection \<open>A request that was filled\<close>

text \<open>
  What a caller that takes a request from the pool and fills it puts on the wire: its own fields
  and the defaults of the pool, whatever the request held before it was released.
\<close>

lemma filled_request:
  assumes "alloc_ok alloc"
  shows "\<exists>c. Message_Write h alloc [] (Request_SetContent b (Request_SetClass cls (Request_SetTimeout t
      (Request_SetRequestID i (AcquireRequest (ReleaseRequest h m)))))) = Some (Inr
        ([1, 1] @ be16 1 @ [0] @ be32 i @ [1] @ be32 t @ be16 (len16 (length cls)) @ be16 0 @
         be32 (len32 (length b)) @ cls @ b), c)"
proof -
  let ?m = "Request_SetContent b (Request_SetClass cls (Request_SetTimeout t
      (Request_SetRequestID i (AcquireRequest (ReleaseRequest h m)))))"
  have "m_command ?m = c\<lparr>c_headers := sm_Reset (c_headers (m_command m))\<rparr>"
    if "c = Command_zero\<lparr>c_proto := 1, c_typ := 1, c_cmdcode := 1, c_codec := 1, c_rid := i,
      c_timeout := t, c_class := cls, c_content := b\<rparr>" for c
    by (simp add: that ReleaseRequest_def Request_Reset_def reset_command_def Command_Reset_def
        set_command_def AcquireRequest_def Command_zero_def Request_SetRequestID_def
        Request_SetContent_def Request_SetClass_def Request_SetTimeout_def Command_SetContent_def
        Command_SetClass_def Command_SetTimeout_def)
  then show ?thesis
    using WriteCommand_spec [OF assms]
    by (simp add: Message_Write_def write_spec_def frame_v1_def Command_zero_def is_req_typ_def
        frame_lens_def frame_body_def sm_wire_def sm_Range_def sm_Reset_def)
qed

subsection \<open>The methods of a response that read like those of a request\<close>

text \<open>
  In the source \<open>Read\<close>, \<open>Write\<close> and the copies are written twice, with the same text but for the class
  of the empty context that \<open>Read\<close> leaves behind after a decoding error.
\<close>

definition Response_ShallowCopyCommand :: "command \<Rightarrow> 'x response \<Rightarrow> 'x response" where
  "Response_ShallowCopyCommand cmd c = set_command (ShallowCopyTo cmd) c"

definition Response_CopyCommand :: "command \<Rightarrow> 'x response \<Rightarrow> 'x response" where
  "Response_CopyCommand cmd c = set_command (Command_CopyTo cmd) c"

definition Response_Read ::
  "'x hessian \<Rightarrow> 'r read_helper \<Rightarrow> bytes \<Rightarrow> 'r \<Rightarrow> 'x response \<Rightarrow>
   (nat \<times> go_error option \<times> 'x response \<times> 'r) option" where
  "Response_Read h rh b32 r c =
     (case ReadCommand rh b32 r (m_command c) of
        None \<Rightarrow> None
      | Some (n, Some err, cmd, r) \<Rightarrow> Some (n, Some err, c\<lparr>m_command := cmd\<rparr>, r)
      | Some (n, None, cmd, r) \<Rightarrow>
          let c = c\<lparr>m_command := cmd\<rparr> in
          if c_proto cmd \<noteq> ProtoTBRemoting then Some (n, None, c, r)
          else (case h_Decode h (c_connection cmd) (m_tbconn c) of
                  (t, Some err) \<Rightarrow> Some (n, None, c\<lparr>m_tbconn := t\<lparr>tb_Ctx_ID := Some 0\<rparr>\<rparr>, r)
                | (t, None) \<Rightarrow> Some (n, None, c\<lparr>m_tbconn := t\<rparr>, r)))"

definition Response_Write ::
  "'x hessian \<Rightarrow> (bytes \<Rightarrow> nat \<Rightarrow> bytes) \<Rightarrow> bytes \<Rightarrow> 'x response \<Rightarrow>
   ((go_error + bytes) \<times> 'x response) option" where
  "Response_Write h alloc b c =
     (if c_proto (m_command c) \<noteq> ProtoTBRemoting
      then map_option (\<lambda>res. (res, c)) (WriteCommand alloc b (m_command c))
      else case h_Encode h (m_tbconn c) of
             (buf, Some err) \<Rightarrow> Some (Inl err, c\<lparr>m_tbconnbuf := buf\<rparr>)
           | (buf, None) \<Rightarrow>
               let c = c\<lparr>m_tbconnbuf := buf,
                         m_command := (m_command c)\<lparr>c_connection := buf\<rparr>\<rparr>
               in map_option (\<lambda>res. (res, c)) (WriteCommand alloc b (m_command c)))"

text \<open>What is proved of the methods of messages therefore holds of both.\<close>

lemma Response_methods:
  "Response_Read h rh b32 r c = Message_Read h rh b32 r c"
  "Response_Write h alloc b c = Message_Write h alloc b c"
  "Response_ShallowCopyCommand cmd c = ShallowCopyCommand cmd c"
  "Response_CopyCommand cmd c = CopyCommand cmd c"
  by (simp_all add: Response_Read_def Message_Read_def Response_Write_def Message_Write_def
      Response_ShallowCopyCommand_def ShallowCopyCommand_def Response_CopyCommand_def CopyCommand_def)

subsection \<open>The context of a request\<close>

text \<open>
  A request also has a \<open>context.Context\<close>, of which the code only keeps the pointer: it is the
  record of messages with one more field, whose operations act on the rest as those of messages.
\<close>

record ('x, 'k) ctx_request = "'x message" +
  rq_ctx :: "'k option"

definition GetContext :: "'k \<Rightarrow> ('x, 'k) ctx_request \<Rightarrow> 'k" where
  "GetContext Background c = (case rq_ctx c of Some ctx \<Rightarrow> ctx | None \<Rightarrow> Background)"

definition SetContext :: "'k option \<Rightarrow> ('x, 'k) ctx_request \<Rightarrow> ('x, 'k) ctx_request" where
  "SetContext ctx c = c\<lparr>rq_ctx := ctx\<rparr>"

definition ctx_Reset :: "'x hessian \<Rightarrow> ('x, 'k) ctx_request \<Rightarrow> ('x, 'k) ctx_request" where
  "ctx_Reset h c =
     SetContext None (message.extend (Request_Reset h (message.truncate c)) \<lparr>rq_ctx = rq_ctx c\<rparr>)"

definition ctx_CopyTo :: "('x, 'k) ctx_request \<Rightarrow> ('x, 'k) ctx_request \<Rightarrow> ('x, 'k) ctx_request" where
  "ctx_CopyTo c d =
     message.extend (Message_CopyTo (message.truncate c) (message.truncate d)) \<lparr>rq_ctx = rq_ctx d\<rparr>"

text \<open>
  No request that comes out of a pool, and no copy into one, as the asynchronous server makes it
  for every job, has the context of another request.
\<close>

lemma pooled_request_background:
  "GetContext Background (ctx_Reset h c) = Background"
  "GetContext Background (ctx_CopyTo c (ctx_Reset h d)) = Background"
  "GetContext Background (SetContext (Some ctx) c) = ctx"
  by (simp_all add: GetContext_def ctx_Reset_def ctx_CopyTo_def SetContext_def message.defs)

end
