(* ===== verification/Commandline.thy ===== *)
theory Commandline
  imports Rpc Server_Life Accessors
begin

text \<open>
  The commands of the tool bolt, src/sofabolt/cmd: \<open>decode\<close>, \<open>decodeheader\<close>, \<open>request\<close> and \<open>serve\<close>,
  from their parsed arguments to the way they end. Opening files, reading them, dialing,
  listening and the profiler come from other packages and are parameters, and so is the memory of
  the object pools. A command ends with \<open>log.Fatal\<close>, which exits with the status 1, or with what
  it prints; a panic is \<open>None\<close>.
\<close>

datatype tool_end = Log_Fatal go_error | Stdout bytes

subsection \<open>decode\<close>

definition decodeCmd ::
  "(bool \<Rightarrow> 'a \<Rightarrow> go_error + 'f) \<Rightarrow> ('f \<Rightarrow> int \<Rightarrow> 'r) \<Rightarrow> 'r read_helper \<Rightarrow> bytes \<Rightarrow> string \<Rightarrow> int \<Rightarrow>
   'a \<Rightarrow> tool_end option" where
  "decodeCmd EasyRead NewReaderSize rh b32 format buffersize arg =
     (case EasyRead (format = ''hex'') arg of
        Inl err \<Rightarrow> Some (Log_Fatal err)
      | Inr reader \<Rightarrow>
          (case ReadCommand rh b32 (NewReaderSize reader buffersize) Command_zero of
             None \<Rightarrow> None
           | Some (n, Some err, dcmd, r) \<Rightarrow> Some (Log_Fatal err)
           | Some (n, None, dcmd, r) \<Rightarrow> Some (Stdout (Command_String dcmd))))"

definition decodeheaderCmd ::
  "('a \<Rightarrow> go_error + 'f) \<Rightarrow> ('f \<Rightarrow> go_error + bytes) \<Rightarrow> 'a \<Rightarrow> tool_end option" where
  "decodeheaderCmd EasyRead ReadAll arg =
     (case EasyRead arg of
        Inl err \<Rightarrow> Some (Log_Fatal err)
      | Inr reader \<Rightarrow>
          (case ReadAll reader of
             Inl err \<Rightarrow> Some (Log_Fatal err)
           | Inr data \<Rightarrow>
               (case sm_Decode data sm_New of
                  None \<Rightarrow> None
                | Some (Some err, h) \<Rightarrow> Some (Log_Fatal err)
                | Some (None, h) \<Rightarrow> Some (Stdout (sm_String h)))))"

text \<open>Whatever the files hold, neither command panics.\<close>

lemma decodeheaderCmd_total: "\<exists>t. decodeheaderCmd EasyRead ReadAll arg = Some t"
  by (auto simp: decodeheaderCmd_def sm_Decode_parse split: sum.split option.split)

text \<open>\<open>decode\<close> of a file that starts with a frame prints the command of that frame.\<close>

lemma decodeCmd_frame:
  assumes "EasyRead (format = ''hex'') arg = Inr reader" and "reader_contract rh avail" and "length b32 = 32"
    and "wire_ok q" and "c_proto q \<in> {0, 1, 2}" and "c_typ q \<in> {0, 1, 2}"
    and "avail (NewReaderSize reader buffersize) = bolt_frame q @ rest"
  shows "decodeCmd EasyRead NewReaderSize rh b32 format buffersize arg =
    Some (Stdout (Command_String (received q)))"
  using decode_frame [OF assms(2-7)] assms(1)
  by (auto simp: decodeCmd_def bolt_Decode_def split: option.splits prod.splits)

subsection \<open>serve\<close>

text \<open>The two profiles; \<open>None\<close> when they could be started, or none was asked for.\<close>

definition serve_profiles ::
  "(string \<Rightarrow> go_error option) \<Rightarrow> (string \<Rightarrow> go_error option) \<Rightarrow> (string \<Rightarrow> go_error option) \<Rightarrow>
   string \<Rightarrow> string \<Rightarrow> go_error option" where
  "serve_profiles Create StartCPUProfile WriteHeapProfile cpuprofile memprofile =
     (let err = (if cpuprofile \<noteq> ''''
                 then case Create cpuprofile of Some err \<Rightarrow> Some err | None \<Rightarrow> StartCPUProfile cpuprofile
                 else None)
      in case err of
           Some err \<Rightarrow> Some err
         | None \<Rightarrow>
             if memprofile \<noteq> ''''
             then case Create memprofile of Some err \<Rightarrow> Some err | None \<Rightarrow> WriteHeapProfile memprofile
             else None)"

text \<open>
  The server that \<open>serve\<close> makes and what its accept loop does, over the results \<open>Accept\<close> will return;
  or the error it ends with before. \<open>pool\<close> is the answer of the server's worker pool.
\<close>

definition serveCmd ::
  "go_error option \<Rightarrow> (int \<Rightarrow> go_error option) \<Rightarrow> ('a \<Rightarrow> go_error option) \<Rightarrow> (nat \<Rightarrow> bool) \<Rightarrow> bool \<Rightarrow> int \<Rightarrow>
   'a \<Rightarrow> accepted list \<Rightarrow> go_error + (server_config \<times> accept_action list \<times> tool_end option)" where
  "serveCmd profiles workerpool Listen pool echo ms arg as =
     (case profiles of
        Some err \<Rightarrow> Inl err
      | None \<Rightarrow>
          (case NewServer workerpool (serve_options echo ms) of
             Inl err \<Rightarrow> Inl err
           | Inr srv \<Rightarrow>
               (case Listen arg of
                  Some err \<Rightarrow> Inl err
                | None \<Rightarrow>
                    let (acts, err) = Serve pool 0 as
                    in Inr (srv, acts, map_option Log_Fatal err))))"

lemma Serve_served:
  "(\<forall>a \<in> set as. \<forall>e. a \<noteq> Fatal e) \<Longrightarrow> (\<forall>c. pool c) \<Longrightarrow> snd (Serve pool d as) = None \<and>
   List.map_filter (\<lambda>a. case a of Served c \<Rightarrow> Some c | _ \<Rightarrow> None) (fst (Serve pool d as)) =
   List.map_filter (\<lambda>a. case a of Conn c \<Rightarrow> Some c | _ \<Rightarrow> None) as"
  by (induction pool d as rule: Serve.induct) (auto simp: map_filter_simps Let_def split: prod.splits)

text \<open>
  A tool that can listen serves every connection, in order, through every temporary failure of the
  listener, with a server that has a handler.
\<close>

lemma serveCmd_serves:
  assumes "workerpool 10240 = None" and "Listen arg = None" and "\<forall>a \<in> set as. \<forall>e. a \<noteq> Fatal e"
    and "\<forall>c. pool c"
  shows "\<exists>srv acts. serveCmd None workerpool Listen pool echo ms arg as = Inr (srv, acts, None) \<and>
    svo_handler srv \<and> \<not> svo_async srv \<and>
    List.map_filter (\<lambda>a. case a of Served c \<Rightarrow> Some c | _ \<Rightarrow> None) acts =
    List.map_filter (\<lambda>a. case a of Conn c \<Rightarrow> Some c | _ \<Rightarrow> None) as"
proof -
  obtain srv where "NewServer workerpool (serve_options echo ms) = Inr srv" "svo_handler srv" "\<not> svo_async srv"
    using assms(1) by (cases echo) (simp_all add: NewServer_def server_polyfill_def serve_options_def server_config_zero_def
      WithServerHandler_def WithServerMaxPendingCommands_def WithServerMaxConnctions_def
      WithServerTimeout_def Let_def)
  with assms(2) Serve_served [OF assms(3,4), of 0] show ?thesis
    by (auto simp: serveCmd_def split: prod.split)
qed

subsection \<open>request\<close>

text \<open>Up to the call: the client that was made, and the request; \<open>None\<close> for an empty \<open>requestBody\<close>.\<close>

definition request_start ::
  "('a \<Rightarrow> go_error + 'f) \<Rightarrow> ('f \<Rightarrow> go_error + bytes) \<Rightarrow> ('h \<Rightarrow> go_error + net_conn) \<Rightarrow> conn_env \<Rightarrow> int \<Rightarrow>
   'x request \<Rightarrow> 'a option \<Rightarrow> 'h \<Rightarrow> go_error + ((client_config \<times> bool) \<times> 'x request)" where
  "request_start EasyRead ReadAll Dial env now pooled requestBody arg =
     (case (case requestBody of None \<Rightarrow> Inr None | Some b \<Rightarrow> map_sum (\<lambda>e. e) Some (EasyRead b)) of
        Inl err \<Rightarrow> Inl err
      | Inr reader \<Rightarrow>
          (case Dial arg of
             Inl err \<Rightarrow> Inl err
           | Inr conn \<Rightarrow>
               (case NewClient_config env now [WithClientConn (Some conn)] of
                  Inl err \<Rightarrow> Inl err
                | Inr c \<Rightarrow>
                    let req = AcquireRequest pooled
                    in case reader of
                         None \<Rightarrow> Inr (c, req)
                       | Some f \<Rightarrow>
                           (case ReadAll f of
                              Inl err \<Rightarrow> Inl err
                            | Inr data \<Rightarrow> Inr (c, Request_SetContent data req)))))"

text \<open>The call, with a timeout of five seconds, and what is printed when it has returned.\<close>

definition request_call :: "'x request \<Rightarrow> 'x response \<Rightarrow> 'x action" where
  "request_call req pooled = Do req (AcquireResponse pooled) True None"

definition request_end :: "'x client \<Rightarrow> nat \<Rightarrow> tool_end option" where
  "request_end c i =
     (case phase_of c i of
        Returned (Some err) \<Rightarrow> Some (Log_Fatal err)
      | Returned None \<Rightarrow> Some (Stdout (Command_String (m_command (cc_res (cl_calls c i)))))
      | _ \<Rightarrow> None)"

lemma request_start_works:
  assumes "EasyRead b = Inr f" and "ReadAll f = Inr data" and "Dial arg = Inr conn"
    and "xe_asyncwriteconn_New env conn = None"
  shows "\<exists>c. request_start EasyRead ReadAll Dial env now pooled (Some b) arg =
    Inr ((c, False), Request_SetContent data (AcquireRequest pooled))"
  using assms by (simp add: request_start_def NewClient_config_def client_polyfill_def WithClientConn_def
    client_config_zero_def buildAsyncWriteConn_def Let_def)

lemma rpc_request_tool:
  assumes "wire_ok (m_command pooled)" and "length data < 4294967296"
  shows "rpc_request (Request_SetContent data (AcquireRequest pooled))"
  using assms by (simp add: rpc_request_def Request_SetContent_def AcquireRequest_def set_command_def
    Command_SetContent_def wire_ok_def)



end
