(* ===== verification/Tb_Client.thy ===== *)
theory Tb_Client
  imports Rpc
begin

text \<open>
  TBRemoting on the client of src/sofabolt/client.go, which the package announces beside BOLT: what
  becomes of a request of that protocol, and of a response. Both go wrong, for two reasons. The
  constants \<open>TypeTBRemotingTwoWay\<close> and \<open>TypeBOLTRequestOneWay\<close> are the same number, and \<open>invoke\<close> compares
  with the second whatever the protocol; and the read loop reads commands, not messages, so that
  the connection object with the id of a response is never decoded.
\<close>

subsection \<open>A response\<close>

lemma delete_absent: "map_of al k = None \<Longrightarrow> AList.delete k al = al"
  by (simp add: delete_idem map_of_eq_None_iff)

lemma read_tb_command:
  assumes "reader_contract rh avail" and "length b32 = 32" and "tb_ok q" and "c_proto q = ProtoTBRemoting"
    and "avail r = frame_tb q @ rest"
  shows "\<exists>r'. ReadCommand rh b32 r (Command_Reset cmd) =
    Some (length (frame_tb q), None, recv_tb q (Command_Reset cmd), r') \<and> avail r' = rest"
  using reader_contract.read_frame [OF assms(1,2), of r "frame_tb q" rest "Command_Reset cmd"]
    parse_frame_tb [OF assms(3,4), of "Command_Reset cmd" rest] assms(5) by blast

lemma recv_tb_simps [simp]:
  "c_rid (recv_tb q (Command_Reset cmd)) = 0" "c_proto (recv_tb q (Command_Reset cmd)) = ProtoTBRemoting"
  "c_typ (recv_tb q c0) = c_typ q"
  by (simp_all add: recv_tb_def Command_Reset_def)

text \<open>
  The read loop looks a TBRemoting response up under the id 0, which no numbered request has before
  the counter wraps around, and drops it: it goes on with the rest of the stream, and nothing has
  changed but the count of bytes. A call that waits for this response goes on waiting.
\<close>

theorem tb_response_lost:
  assumes "reader_contract rh avail" and "length b32 = 32" and "tb_ok q" and "c_proto q = ProtoTBRemoting"
    and "c_typ q = TypeBOLTResponse" and "avail r = frame_tb q @ rest"
    and "cl_reader c = Reading" and "tb_Ctx_ID (ce_tbconn env) = None" and "map_of (cl_requests c) 0 = None"
  shows "\<exists>r' cmd'. avail r' = rest \<and> client_readloop env rh b32 r cmd c =
    client_readloop env rh b32 r' cmd' (c\<lparr>cl_nread := cl_nread c + int (length (frame_tb q))\<rparr>)"
proof -
  let ?cmd = "recv_tb q (Command_Reset cmd)" and ?c = "c\<lparr>cl_nread := cl_nread c + int (length (frame_tb q))\<rparr>"
  obtain r' where r: "ReadCommand rh b32 r (Command_Reset cmd) = Some (length (frame_tb q), None, ?cmd, r')"
    and rest: "avail r' = rest"
    using read_tb_command [OF assms(1-4,6)] by blast
  have "GetRequestID ((message_new (ce_tbconn env))\<lparr>m_command := ?cmd\<rparr>) = 0"
    using assms(8) by (simp add: GetRequestID_def message_new_def)
  then have "read_returns env (length (frame_tb q)) ?cmd c = Some ?c"
    using assms(5,7,9)
    by (simp add: read_returns_eq IsRequest_def getAndDelRequestContext_def delete_absent Let_def)
  moreover have "deliver env ?c = Some ?c" using assms(7) by (simp add: deliver_def)
  ultimately have "client_readloop env rh b32 r cmd c = client_readloop env rh b32 r' ?cmd ?c"
    by (subst client_readloop.simps) (simp add: r)
  with rest show ?thesis by blast
qed

subsection \<open>A request that expects a response\<close>

text \<open>The steps of a call whose write succeeds, when \<open>invoke\<close> takes it for a one-way request.\<close>

definition oneway_call :: "bool \<Rightarrow> 'x request \<Rightarrow> 'x response \<Rightarrow> nat \<Rightarrow> 'x action list" where
  "oneway_call timeout req res i =
     [Do req res timeout None, Run i, Run i, Run i, Run i, Write_returns i None, Run i, Run i]"

lemma Message_Write_tb:
  assumes "alloc_ok alloc" and "c_proto (m_command m) = ProtoTBRemoting" and "h_Encode h (m_tbconn m) = (buf, None)"
  shows "Message_Write h alloc [] m =
    Some (Inr (frame_tb ((m_command m)\<lparr>c_connection := buf\<rparr>)),
      m\<lparr>m_tbconnbuf := buf, m_command := (m_command m)\<lparr>c_connection := buf\<rparr>\<rparr>)"
  using assms(2,3) WriteCommand_spec [OF assms(1)] by (simp add: Message_Write_def write_spec_def Let_def)

lemma SetRequestID_tb:
  "m_command (Request_SetRequestID i req) = m_command req \<or>
   m_command (Request_SetRequestID i req) = (m_command req)\<lparr>c_rid := i\<rparr>"
  by (simp add: Request_SetRequestID_def set_command_def)

lemma SetRequestID_tb_simps:
  "c_proto (m_command (Request_SetRequestID i req)) = c_proto (m_command req)"
  "c_typ (m_command (Request_SetRequestID i req)) = c_typ (m_command req)"
  using SetRequestID_tb [of i req] by auto

text \<open>
  C36. A TBRemoting request that expects a response gets none: whatever the state of the open client,
  the call writes its frame and returns without an error, with the response object as the caller
  passed it, and without having waited; its entry is taken out of the table, so that a
  response that comes later finds nobody.
\<close>

theorem tb_twoway_unanswered:
  assumes "alloc_ok (ce_alloc env)" and "\<not> ce_disableAutoIncrementRequestID env"
    and "\<And>t. snd (h_Encode (ce_hessian env) t) = None"
    and "c_proto (m_command req) = ProtoTBRemoting" and "c_typ (m_command req) = TypeTBRemotingTwoWay"
    and "\<not> cl_closed c" and "cl_rerr c = None" and "map_of (cl_requests c) (cl_rid c + 1) = None"
  shows "\<exists>c' d. client_run env (oneway_call timeout req res (cl_ncalls c)) c = Some c' \<and>
    phase_of c' (cl_ncalls c) = Returned None \<and> cc_res (cl_calls c' (cl_ncalls c)) = res \<and>
    cl_requests c' = cl_requests c \<and> cl_written c' = cl_written c @ [(cl_conn c, d)] \<and>
    (\<exists>q. d = frame_tb q \<and> c_typ q = TypeTBRemotingTwoWay)"
proof -
  let ?req = "Request_SetRequestID (cl_rid c + 1) req"
  obtain buf where enc: "h_Encode (ce_hessian env) (m_tbconn ?req) = (buf, None)"
    using assms(3) [of "m_tbconn ?req"] by (cases "h_Encode (ce_hessian env) (m_tbconn ?req)") auto
  let ?q = "(m_command ?req)\<lparr>c_connection := buf\<rparr>"
  have w: "Message_Write (ce_hessian env) (ce_alloc env) [] ?req =
      Some (Inr (frame_tb ?q), ?req\<lparr>m_tbconnbuf := buf, m_command := ?q\<rparr>)"
    by (rule Message_Write_tb [OF assms(1) _ enc]) (simp add: SetRequestID_tb_simps assms(4))
  have t: "c_typ ?q = TypeTBRemotingTwoWay" using assms(5) by (simp add: SetRequestID_tb_simps)
  have del: "AList.delete k (AList.update k p al) = al" if "map_of al k = None" for k p and al :: "(32 word \<times> nat) list"
    using that by (induction al) (auto split: if_splits)
  have "\<exists>c'. client_run env (oneway_call timeout req res (cl_ncalls c)) c = Some c' \<and>
    phase_of c' (cl_ncalls c) = Returned None \<and> cc_res (cl_calls c' (cl_ncalls c)) = res \<and>
    cl_requests c' = cl_requests c \<and> cl_written c' = cl_written c @ [(cl_conn c, frame_tb ?q)]"
    using assms(2,5-8) w t
    by (simp add: oneway_call_def client_act_def DoTimeout_def AcquireInvokeContext_def add_call_def
        invoke_step_def number_request_def assign_id_def write_returns_def addRequestContext_def
        delRequestContext_def finish_call_def set_ictx_def set_call_def ictx_new_def Let_def del)
  with t show ?thesis by blast
qed

lemma tb_twoway_unanswered_witness:
  "\<exists>c' d. client_run (demo_env False) (oneway_call True (blank\<lparr>m_command := sample 13 2\<rparr>) blank 0)
      (NewClient (demo_env False) 0) = Some c' \<and>
    phase_of c' 0 = Returned None \<and> cc_res (cl_calls c' 0) = blank \<and>
    cl_requests c' = [] \<and> cl_written c' = [(0, d)] \<and> (\<exists>q. d = frame_tb q \<and> c_typ q = TypeTBRemotingTwoWay)"
  using tb_twoway_unanswered [of "demo_env False" "blank\<lparr>m_command := sample 13 2\<rparr>"
      "NewClient (demo_env False) 0" True blank]
  by (simp add: demo_env_def alloc_ok_def plain_hessian_def sample_def NewClient_def)

end
